(* ===== verification/Prelude.thy ===== *)
theory Prelude
  imports Main
    "HOL-Library.Word"
    "HOL-Library.State_Monad"
    "HOL-Library.AList"
    "HOL-Library.Char_ord"
    "HOL-Library.List_Lexorder"
begin

text \<open>
  Shared vocabulary of the development: the Go types the program is written in (bytes,
  strings, unsigned words, \<^verbatim>\<open>io.Reader\<close>, \<^verbatim>\<open>io.Writer\<close>), the parts of the Go standard
  library every component uses (\<^verbatim>\<open>encoding/binary\<close> little endian, \<^verbatim>\<open>unicode/utf8\<close>,
  \<^verbatim>\<open>io.ReadFull\<close>), and the generic lemmas and the transition-system interface on which the
  component theories rest.
\<close>

unbundle bit_operations_syntax

named_theorems wire_simps \<open>reading and writing one field of the wire format\<close>
named_theorems inv_intros \<open>preservation of component invariants\<close>

type_synonym byte = "8 word"
type_synonym u16 = "16 word"
type_synonym u32 = "32 word"
type_synonym u64 = "64 word"
type_synonym bytes = "byte list"

subsection \<open>Strings and byte slices\<close>

text \<open>A Go string is a sequence of bytes; \<open>[]byte(s)\<close> and \<open>string(b)\<close> convert.\<close>

definition str_bytes :: "string \<Rightarrow> bytes" where
  "str_bytes s = map of_char s"

definition bytes_str :: "bytes \<Rightarrow> string" where
  "bytes_str bs = map (\<lambda>b. char_of (unat b)) bs"

lemma unat_of_char [simp]: "unat (of_char c :: byte) = of_char c"
proof -
  have "unat (of_nat (of_char c) :: byte) = (of_char c :: nat) mod 2 ^ 8"
    by (simp add: unat_of_nat)
  then show ?thesis
    by (simp add: of_nat_of_char)
qed

lemma of_char_char_of_unat [simp]: "(of_char (char_of (unat b)) :: byte) = b"
proof -
  have "unat (of_char (char_of (unat b)) :: byte) = unat b"
    using unsigned_less [of b, where ?'a = nat] by simp
  then show ?thesis
    by (simp add: word_unat_eq_iff)
qed

lemma bytes_str_str_bytes [simp]: "bytes_str (str_bytes s) = s"
  by (simp add: bytes_str_def str_bytes_def comp_def)

lemma str_bytes_bytes_str [simp]: "str_bytes (bytes_str bs) = bs"
  by (simp add: bytes_str_def str_bytes_def comp_def)

lemma length_str_bytes [simp]: "length (str_bytes s) = length s"
  by (simp add: str_bytes_def)

lemma length_bytes_str [simp]: "length (bytes_str bs) = length bs"
  by (simp add: bytes_str_def)

lemma str_bytes_inject [simp]: "str_bytes s = str_bytes t \<longleftrightarrow> s = t"
  by (metis bytes_str_str_bytes)

lemma bytes_str_eq_Nil [simp]: "bytes_str bs = [] \<longleftrightarrow> bs = []"
  by (simp add: bytes_str_def)

lemma unat_of_nat_small [simp]:
  "n < 2 ^ LENGTH('a) \<Longrightarrow> unat (of_nat n :: 'a::len word) = n"
  by (simp add: unat_of_nat)

subsection \<open>Little-endian integers: \<^verbatim>\<open>encoding/binary\<close>\<close>

text \<open>\<open>le n v\<close> is what \<open>binary.LittleEndian.AppendUintN\<close> appends; \<open>un_le\<close> is \<open>UintN\<close>.\<close>

fun le :: "nat \<Rightarrow> 'a::len word \<Rightarrow> bytes" where
  "le 0 v = []"
| "le (Suc n) v = ucast v # le n (drop_bit 8 v)"

fun un_le :: "bytes \<Rightarrow> 'a::len word" where
  "un_le [] = 0"
| "un_le (b # bs) = ucast b OR push_bit 8 (un_le bs)"

lemma le_numeral: "le (numeral k) v = ucast v # le (pred_numeral k) (drop_bit 8 v)"
  by (simp add: numeral_eq_Suc)

lemma length_le [simp]: "length (le n v) = n"
  by (induction n v rule: le.induct) simp_all

lemma nth_le: "i < n \<Longrightarrow> le n v ! i = ucast (drop_bit (8 * i) v)"
proof (induction n v arbitrary: i rule: le.induct)
  case (2 n v)
  then show ?case
    by (cases i) (simp_all add: drop_bit_drop_bit add.commute)
qed simp

lemma bit_un_le:
  "bit (un_le bs :: 'a::len word) k \<longleftrightarrow>
     k < LENGTH('a) \<and> k < 8 * length bs \<and> bit (bs ! (k div 8)) (k mod 8)"
proof (induction bs arbitrary: k)
  case (Cons b bs)
  show ?case
  proof (cases "k < 8")
    case True
    then show ?thesis
      by (auto simp: bit_simps)
  next
    case False
    then have "\<not> bit b k"
      using bit_imp_le_length [of b k] by auto
    moreover have "k div 8 = Suc ((k - 8) div 8)" and "(k - 8) mod 8 = k mod 8"
      using False by (simp_all add: le_div_geq le_mod_geq)
    ultimately show ?thesis
      using False Cons [of "k - 8"] by (auto simp: bit_simps)
  qed
qed simp

lemma un_le_le [simp]:
  assumes "LENGTH('a) \<le> 8 * n"
  shows "un_le (le n v) = (v :: 'a::len word)"
proof (rule bit_word_eqI)
  fix k
  assume "k < LENGTH('a)"
  then have "k < 8 * n" and "k div 8 < n"
    using assms by auto
  moreover have "8 * (k div 8) + k mod 8 = k"
    by simp
  ultimately show "bit (un_le (le n v) :: 'a word) k \<longleftrightarrow> bit v k"
    using \<open>k < LENGTH('a)\<close> by (simp add: bit_un_le nth_le bit_simps)
qed

lemma le_un_le [simp]:
  assumes "8 * length bs \<le> LENGTH('a)"
  shows "le (length bs) (un_le bs :: 'a::len word) = bs"
proof (rule nth_equalityI)
  fix i
  assume "i < length (le (length bs) (un_le bs :: 'a word))"
  then have i: "i < length bs"
    by simp
  show "le (length bs) (un_le bs :: 'a word) ! i = bs ! i"
  proof (rule bit_word_eqI)
    fix k
    assume "k < LENGTH(8)"
    then have k: "k < 8"
      by simp
    have "8 * i + k < 8 * length bs"
      using i k by linarith
    with assms k i show "bit (le (length bs) (un_le bs :: 'a word) ! i) k \<longleftrightarrow> bit (bs ! i) k"
      by (simp add: nth_le bit_simps bit_un_le)
  qed
qed simp

lemma le_inject:
  "LENGTH('a) \<le> 8 * n \<Longrightarrow> le n v = le n w \<longleftrightarrow> v = (w :: 'a::len word)"
  by (metis un_le_le)

subsection \<open>UTF-8 validity: \<^verbatim>\<open>utf8.ValidString\<close>\<close>

definition utf8_cont :: "byte \<Rightarrow> byte \<Rightarrow> byte \<Rightarrow> bool" where
  "utf8_cont lo hi b \<longleftrightarrow> lo \<le> b \<and> b \<le> hi"

text \<open>
  The accept ranges of the second byte are those of the Go tables \<open>first\<close> and
  \<open>acceptRanges\<close>: overlong forms, surrogates and values above U+10FFFF are refused.
\<close>

fun utf8_valid :: "bytes \<Rightarrow> bool" where
  "utf8_valid [] = True"
| "utf8_valid (a # bs) =
     (if a < 0x80 then utf8_valid bs
      else if 0xC2 \<le> a \<and> a \<le> 0xDF then
        (case bs of b # r \<Rightarrow> utf8_cont 0x80 0xBF b \<and> utf8_valid r | _ \<Rightarrow> False)
      else if 0xE0 \<le> a \<and> a \<le> 0xEF then
        (case bs of
           b # c # r \<Rightarrow>
             utf8_cont (if a = 0xE0 then 0xA0 else 0x80) (if a = 0xED then 0x9F else 0xBF) b \<and>
             utf8_cont 0x80 0xBF c \<and> utf8_valid r
         | _ \<Rightarrow> False)
      else if 0xF0 \<le> a \<and> a \<le> 0xF4 then
        (case bs of
           b # c # d # r \<Rightarrow>
             utf8_cont (if a = 0xF0 then 0x90 else 0x80) (if a = 0xF4 then 0x8F else 0xBF) b \<and>
             utf8_cont 0x80 0xBF c \<and> utf8_cont 0x80 0xBF d \<and> utf8_valid r
         | _ \<Rightarrow> False)
      else False)"

definition ValidString :: "string \<Rightarrow> bool" where
  "ValidString s = utf8_valid (str_bytes s)"

lemma utf8_valid_ascii: "\<forall>b \<in> set bs. b < 0x80 \<Longrightarrow> utf8_valid bs"
  by (induction bs) auto

subsection \<open>Readers: \<^verbatim>\<open>io.Reader\<close> and \<^verbatim>\<open>io.ReadFull\<close>\<close>

datatype io_error = EOF | UnexpectedEOF | IOError string

text \<open>
  A reader is the bytes it will still deliver and the error it delivers once they have
  run out: \<^const>\<open>EOF\<close> for a stream that ends cleanly, anything else for a connection
  that breaks or times out.
\<close>

record reader =
  rd_data :: bytes
  rd_end :: io_error

definition ReadFull :: "nat \<Rightarrow> reader \<Rightarrow> (io_error + bytes) \<times> reader" where
  "ReadFull n r =
     (if n \<le> length (rd_data r)
      then (Inr (take n (rd_data r)), r\<lparr>rd_data := drop n (rd_data r)\<rparr>)
      else (Inl (if rd_data r \<noteq> [] \<and> rd_end r = EOF then UnexpectedEOF else rd_end r),
            r\<lparr>rd_data := []\<rparr>))"

lemma ReadFull_append:
  "length xs = n \<Longrightarrow> ReadFull n (r\<lparr>rd_data := xs @ ys\<rparr>) = (Inr xs, r\<lparr>rd_data := ys\<rparr>)"
  by (simp add: ReadFull_def)

lemma ReadFull_Inr:
  "ReadFull n r = (Inr xs, r') \<longleftrightarrow>
     length xs = n \<and> rd_data r = xs @ rd_data r' \<and> r' = r\<lparr>rd_data := rd_data r'\<rparr>"
  by (cases r; cases r')
    (auto simp: ReadFull_def min_def split: if_splits
      dest: arg_cong [where f = "take n"] arg_cong [where f = "drop n"])

lemma ReadFull_end: "ReadFull n r = (x, r') \<Longrightarrow> rd_end r' = rd_end r"
  by (auto simp: ReadFull_def split: if_splits)

subsection \<open>Writers: \<^verbatim>\<open>io.Writer\<close>\<close>

text \<open>
  A writer is what it has taken so far and the outcomes of the calls to come: the list
  says call by call whether the write succeeds (\<^const>\<open>None\<close>) or which error it returns and
  how many bytes went out before it. After the list the writes succeed.
\<close>

record writer =
  wr_data :: bytes
  wr_script :: "(io_error \<times> nat) option list"

definition Write :: "bytes \<Rightarrow> writer \<Rightarrow> io_error option \<times> writer" where
  "Write p w =
     (case wr_script w of
        [] \<Rightarrow> (None, w\<lparr>wr_data := wr_data w @ p\<rparr>)
      | None # os \<Rightarrow> (None, w\<lparr>wr_data := wr_data w @ p, wr_script := os\<rparr>)
      | Some (e, k) # os \<Rightarrow> (Some e, w\<lparr>wr_data := wr_data w @ take k p, wr_script := os\<rparr>))"

lemma Write_None: "Write p w = (None, w') \<Longrightarrow> wr_data w' = wr_data w @ p"
  by (auto simp: Write_def split: list.splits option.splits)

subsection \<open>State monad\<close>

lemma run_state_update [simp]: "run_state (State_Monad.update f) s = ((), f s)"
  by (simp add: State_Monad.update_def)

subsection \<open>Fallible methods\<close>

text \<open>
  A method of a Go type that can return an error: the receiver before and after, and the
  result. \<open>bindE\<close> is the sequence \<open>x, err := m(); if err != nil { return err }; k(x)\<close>; what the
  failing call did to the receiver stays done.
\<close>

type_synonym ('s, 'e, 'a) op = "'s \<Rightarrow> ('e + 'a) \<times> 's"

definition bindE :: "('s, 'e, 'a) op \<Rightarrow> ('a \<Rightarrow> ('s, 'e, 'b) op) \<Rightarrow> ('s, 'e, 'b) op" where
  "bindE m k s = (case m s of (Inl e, s') \<Rightarrow> (Inl e, s') | (Inr a, s') \<Rightarrow> k a s')"

definition returnE :: "'a \<Rightarrow> ('s, 'e, 'a) op" where
  "returnE a s = (Inr a, s)"

definition failE :: "'e \<Rightarrow> ('s, 'e, 'a) op" where
  "failE e s = (Inl e, s)"

definition modifyE :: "('s \<Rightarrow> 's) \<Rightarrow> ('s, 'e, unit) op" where
  "modifyE f s = (Inr (), f s)"

lemma bindE_Inr: "m s = (Inr a, s') \<Longrightarrow> bindE m k s = k a s'"
  by (simp add: bindE_def)

lemma bindE_Inl: "m s = (Inl e, s') \<Longrightarrow> bindE m k s = (Inl e, s')"
  by (simp add: bindE_def)

lemma bindE_elim:
  assumes "bindE m k s = (r, t)"
  obtains (error) e where "m s = (Inl e, t)" "r = Inl e"
  | (ok) a s' where "m s = (Inr a, s')" "k a s' = (r, t)"
  using assms by (auto simp: bindE_def split: prod.splits sum.splits)

subsection \<open>Transition systems\<close>

text \<open>
  The interface between a component that is used by several goroutines at once and its
  invariant: the atomic steps of the component, and what every one of them keeps.
\<close>

locale transition_system =
  fixes init :: "'s \<Rightarrow> bool"
    and step :: "'s \<Rightarrow> 's \<Rightarrow> bool"
    and inv :: "'s \<Rightarrow> bool"
  assumes init_inv: "init s \<Longrightarrow> inv s"
    and step_inv: "inv s \<Longrightarrow> step s t \<Longrightarrow> inv t"
begin

lemma steps_inv: "step\<^sup>*\<^sup>* s t \<Longrightarrow> inv s \<Longrightarrow> inv t"
  by (induction rule: rtranclp_induct) (auto intro: step_inv)

lemma reachable_inv: "init s \<Longrightarrow> step\<^sup>*\<^sup>* s t \<Longrightarrow> inv t"
  by (blast intro: steps_inv init_inv)

end

text \<open>
  One system above another: \<open>med\<close> forgets what only the upper one knows, and every step of the upper
  one is some number of steps of the lower one, possibly none.
\<close>

locale refining_system = transition_system init step inv
  for init :: "'s \<Rightarrow> bool" and step :: "'s \<Rightarrow> 's \<Rightarrow> bool" and inv :: "'s \<Rightarrow> bool" +
  fixes ainit :: "'a \<Rightarrow> bool" and astep :: "'a \<Rightarrow> 'a \<Rightarrow> bool" and med :: "'s \<Rightarrow> 'a"
  assumes init_med: "init s \<Longrightarrow> ainit (med s)"
    and step_med: "inv s \<Longrightarrow> step s t \<Longrightarrow> astep\<^sup>*\<^sup>* (med s) (med t)"
begin

lemma steps_med: "step\<^sup>*\<^sup>* s t \<Longrightarrow> inv s \<Longrightarrow> astep\<^sup>*\<^sup>* (med s) (med t)"
proof (induction rule: rtranclp_induct)
  case (step t u)
  then show ?case
    using steps_inv [of s t] step_med [of t u] by (meson rtranclp_trans)
qed simp

lemma reachable_med: "init s \<Longrightarrow> step\<^sup>*\<^sup>* s t \<Longrightarrow> \<exists>a. ainit a \<and> astep\<^sup>*\<^sup>* a (med t)"
  using init_med init_inv steps_med by blast

end

end
