(* ===== verification/Pool.thy ===== *)
theory Pool
  imports Prelude
begin

text \<open>
  The server's queues and slot accounting: \<^verbatim>\<open>internal/pool/pool.go\<close>. The pool's lock makes
  each operation atomic; pointers (\<open>*Provider\<close>, \<open>*Lease\<close>, \<open>*waiter\<close>) are addresses into the
  stores of the record \<open>pool\<close>. \<open>Acquire\<close> is the one operation that waits; it is split at its
  lock boundaries into the part that queues and the parts that wake up.
\<close>

subsection \<open>Data\<close>

record 't provider =
  Peer :: string
  Service :: string
  Slots :: u16
  Priority :: u16
  Target :: 't
  busy :: int
  gone :: bool

record service =
  s_name :: string
  s_providers :: "nat list"
  s_waiters :: "nat list"

record lease =
  l_service :: string
  l_provider :: nat
  l_released :: bool

text \<open>
  \<open>p_chan w\<close> is the buffered channel of waiter \<open>w\<close>; the counters are the next unused
  addresses. \<open>p_services\<close> is the Go map, in the order the services were first asked for.
\<close>

record 't pool =
  p_timeout :: int
  p_services :: "(string \<times> service) list"
  p_prov :: "nat \<Rightarrow> 't provider"
  p_nprov :: nat
  p_lease :: "nat \<Rightarrow> lease"
  p_nlease :: nat
  p_chan :: "nat \<Rightarrow> nat option"
  p_nwait :: nat

definition New :: "int \<Rightarrow> 't pool" where
  "New timeout = \<lparr>p_timeout = timeout, p_services = [], p_prov = (\<lambda>_. undefined), p_nprov = 0,
     p_lease = (\<lambda>_. undefined), p_nlease = 0, p_chan = (\<lambda>_. None), p_nwait = 0\<rparr>"

text \<open>\<open>&Provider{...}\<close>: what a caller of \<open>Add\<close> allocates; nothing is busy yet.\<close>

definition new_provider :: "string \<Rightarrow> string \<Rightarrow> u16 \<Rightarrow> u16 \<Rightarrow> 't \<Rightarrow> 't pool \<Rightarrow> nat \<times> 't pool" where
  "new_provider peer service slots priority target p =
     (p_nprov p, p\<lparr>p_prov := (p_prov p)(p_nprov p :=
        \<lparr>Peer = peer, Service = service, Slots = slots, Priority = priority, Target = target,
         busy = 0, gone = False\<rparr>), p_nprov := Suc (p_nprov p)\<rparr>)"

subsection \<open>Services\<close>

definition svc :: "'t pool \<Rightarrow> string \<Rightarrow> service" where
  "svc p name = (case map_of (p_services p) name of
     Some s \<Rightarrow> s | None \<Rightarrow> \<lparr>s_name = name, s_providers = [], s_waiters = []\<rparr>)"

definition upd_svc :: "string \<Rightarrow> (service \<Rightarrow> service) \<Rightarrow> 't pool \<Rightarrow> 't pool" where
  "upd_svc name f p = p\<lparr>p_services := AList.update name (f (svc p name)) (p_services p)\<rparr>"

text \<open>\<open>(*Pool).service\<close>: find a service's pool, making it the first time anyone asks.\<close>

definition service_of :: "string \<Rightarrow> 't pool \<Rightarrow> 't pool" where
  "service_of name p = (case map_of (p_services p) name of Some _ \<Rightarrow> p | None \<Rightarrow> upd_svc name id p)"

subsection \<open>Choosing a provider\<close>

definition free :: "'t provider \<Rightarrow> int" where
  "free pr = int (unat (Slots pr)) - busy pr"

fun best_from :: "(nat \<Rightarrow> 't provider) \<Rightarrow> nat option \<Rightarrow> nat list \<Rightarrow> nat option" where
  "best_from st b [] = b"
| "best_from st b (i # is) =
     (if gone (st i) \<or> busy (st i) \<ge> int (unat (Slots (st i))) then best_from st b is
      else case b of
             None \<Rightarrow> best_from st (Some i) is
           | Some j \<Rightarrow>
               if Priority (st i) < Priority (st j) \<or>
                  (Priority (st i) = Priority (st j) \<and> free (st i) > free (st j))
               then best_from st (Some i) is
               else best_from st b is)"

definition best :: "'t pool \<Rightarrow> string \<Rightarrow> nat option" where
  "best p name = best_from (p_prov p) None (s_providers (svc p name))"

subsection \<open>Slots\<close>

definition add_busy :: "nat \<Rightarrow> int \<Rightarrow> 't pool \<Rightarrow> 't pool" where
  "add_busy i k p = p\<lparr>p_prov := (p_prov p)(i := (p_prov p i)\<lparr>busy := busy (p_prov p i) + k\<rparr>)\<rparr>"

definition take_slot :: "string \<Rightarrow> nat \<Rightarrow> 't pool \<Rightarrow> nat \<times> 't pool" where
  "take_slot name i p =
     (p_nlease p, (add_busy i 1 p)
        \<lparr>p_lease := (p_lease p)(p_nlease p :=
           \<lparr>l_service = name, l_provider = i, l_released = False\<rparr>),
         p_nlease := Suc (p_nlease p)\<rparr>)"

text \<open>One turn of the loop of \<open>dispatch\<close>: the head waiter leaves and gets a lease.\<close>

definition hand_over :: "string \<Rightarrow> nat \<Rightarrow> nat \<Rightarrow> nat list \<Rightarrow> 't pool \<Rightarrow> 't pool" where
  "hand_over name i w ws p =
     (case take_slot name i (upd_svc name (\<lambda>s. s\<lparr>s_waiters := ws\<rparr>) p) of
        (l, p') \<Rightarrow> p'\<lparr>p_chan := (p_chan p')(w := Some l)\<rparr>)"

lemma svc_upd_svc [simp]: "svc (upd_svc n f p) m = (if m = n then f (svc p n) else svc p m)"
  by (simp add: svc_def upd_svc_def update_conv')

lemma svc_frames [simp]:
  "svc (p\<lparr>p_prov := a\<rparr>) n = svc p n" "svc (p\<lparr>p_nprov := b\<rparr>) n = svc p n"
  "svc (p\<lparr>p_lease := c\<rparr>) n = svc p n" "svc (p\<lparr>p_nlease := d\<rparr>) n = svc p n"
  "svc (p\<lparr>p_chan := e\<rparr>) n = svc p n" "svc (p\<lparr>p_nwait := f\<rparr>) n = svc p n"
  "svc (add_busy i k p) n = svc p n"
  by (simp_all add: svc_def add_busy_def)

lemma svc_hand_over [simp]:
  "svc (hand_over name i w ws p) n = (if n = name then (svc p n)\<lparr>s_waiters := ws\<rparr> else svc p n)"
  by (simp add: hand_over_def take_slot_def)

function dispatch :: "string \<Rightarrow> 't pool \<Rightarrow> 't pool" where
  "dispatch name p =
     (case s_waiters (svc p name) of
        [] \<Rightarrow> p
      | w # ws \<Rightarrow>
          (case best p name of
             None \<Rightarrow> p
           | Some i \<Rightarrow> dispatch name (hand_over name i w ws p)))"
  by pat_completeness auto
termination
  by (relation "measure (\<lambda>(name, p). length (s_waiters (svc p name)))") auto

declare dispatch.simps [simp del]

subsection \<open>Operations\<close>

text \<open>\<open>Release\<close> and \<open>Add\<close> change the accounts first and then call \<open>dispatch\<close>.\<close>

definition unlease :: "nat \<Rightarrow> 't pool \<Rightarrow> 't pool" where
  "unlease l p = add_busy (l_provider (p_lease p l)) (-1)
     (p\<lparr>p_lease := (p_lease p)(l := (p_lease p l)\<lparr>l_released := True\<rparr>)\<rparr>)"

definition Release :: "nat \<Rightarrow> 't pool \<Rightarrow> 't pool" where
  "Release l p =
     (if l_released (p_lease p l) then p
      else dispatch (l_service (p_lease p l)) (unlease l p))"

definition join :: "string \<Rightarrow> nat \<Rightarrow> 't pool \<Rightarrow> 't pool" where
  "join name i p = upd_svc name (\<lambda>s. s\<lparr>s_providers := s_providers s @ [i]\<rparr>) (service_of name p)"

definition Add :: "nat \<Rightarrow> 't pool \<Rightarrow> 't pool" where
  "Add i p = dispatch (Service (p_prov p i)) (join (Service (p_prov p i)) i p)"

definition Remove :: "nat \<Rightarrow> 't pool \<Rightarrow> 't pool" where
  "Remove i p =
     (let name = Service (p_prov p i);
          p' = p\<lparr>p_prov := (p_prov p)(i := (p_prov p i)\<lparr>gone := True\<rparr>)\<rparr>
      in case map_of (p_services p') name of
           None \<Rightarrow> p'
         | Some _ \<Rightarrow> upd_svc name (\<lambda>s. s\<lparr>s_providers := remove1 i (s_providers s)\<rparr>) p')"

datatype acquired = Got nat | Queued nat

definition enqueue :: "string \<Rightarrow> bool \<Rightarrow> 't pool \<Rightarrow> nat \<times> 't pool" where
  "enqueue name front p =
     (let w = p_nwait p
      in (w, (upd_svc name (\<lambda>s. s\<lparr>s_waiters := if front then w # s_waiters s else s_waiters s @ [w]\<rparr>) p)
             \<lparr>p_chan := (p_chan p)(w := None), p_nwait := Suc w\<rparr>))"

text \<open>\<open>Acquire\<close> up to its first \<open>Unlock\<close>.\<close>

definition Acquire_enter :: "string \<Rightarrow> bool \<Rightarrow> 't pool \<Rightarrow> acquired \<times> 't pool" where
  "Acquire_enter name front p =
     (let p = service_of name p;
          queue = (case enqueue name front p of (w, p') \<Rightarrow> (Queued w, p'))
      in if s_waiters (svc p name) = [] then
           (case best p name of
              Some i \<Rightarrow> (case take_slot name i p of (l, p') \<Rightarrow> (Got l, p'))
            | None \<Rightarrow> queue)
         else queue)"

text \<open>The receive on \<open>w.lease\<close>, when it is ready.\<close>

definition recv_lease :: "nat \<Rightarrow> 't pool \<Rightarrow> (nat \<times> 't pool) option" where
  "recv_lease w p =
     (case p_chan p w of
        None \<Rightarrow> None
      | Some l \<Rightarrow> Some (l, p\<lparr>p_chan := (p_chan p)(w := None)\<rparr>))"

text \<open>The locked half of \<open>abandon\<close>: \<^const>\<open>True\<close> when the waiter was still in the queue.\<close>

definition abandon_search :: "string \<Rightarrow> nat \<Rightarrow> 't pool \<Rightarrow> bool \<times> 't pool" where
  "abandon_search name w p =
     (if w \<in> set (s_waiters (svc p name))
      then (True, upd_svc name (\<lambda>s. s\<lparr>s_waiters := remove1 w (s_waiters s)\<rparr>) p)
      else (False, p))"

definition abandon :: "string \<Rightarrow> nat \<Rightarrow> 't pool \<Rightarrow> 't pool" where
  "abandon name w p =
     (case abandon_search name w p of
        (True, p') \<Rightarrow> p'
      | (False, p') \<Rightarrow>
          (case recv_lease w p' of
             None \<Rightarrow> p'
           | Some (l, p'') \<Rightarrow> Release l p''))"

datatype acquire_error = TimeoutError string int | CtxErr

datatype wakeup = LeaseReady | TimerFired | CtxDone

text \<open>The \<open>select\<close> of \<open>Acquire\<close>: \<^const>\<open>None\<close> when the chosen case is not ready.\<close>

definition Acquire_select ::
    "string \<Rightarrow> nat \<Rightarrow> wakeup \<Rightarrow> 't pool \<Rightarrow> ((acquire_error + nat) \<times> 't pool) option" where
  "Acquire_select name w wake p =
     (case wake of
        LeaseReady \<Rightarrow> map_option (\<lambda>(l, p'). (Inr l, p')) (recv_lease w p)
      | TimerFired \<Rightarrow> Some (Inl (TimeoutError name (p_timeout p)), abandon name w p)
      | CtxDone \<Rightarrow> Some (Inl CtxErr, abandon name w p))"

text \<open>When the timer of a job that arrived at \<open>since\<close> fires.\<close>

definition deadline :: "int \<Rightarrow> 't pool \<Rightarrow> int" where
  "deadline since p = since + p_timeout p"

subsection \<open>Snapshot\<close>

record provider_state =
  ps_Peer :: string
  ps_Busy :: int
  ps_Slots :: u16
  ps_Priority :: u16

record service_state =
  ss_Name :: string
  ss_Waiting :: nat
  ss_Providers :: "provider_state list"

definition Snapshot :: "'t pool \<Rightarrow> service_state list" where
  "Snapshot p =
     map (\<lambda>name.
       \<lparr>ss_Name = name, ss_Waiting = length (s_waiters (svc p name)),
        ss_Providers = map (\<lambda>i.
          \<lparr>ps_Peer = Peer (p_prov p i), ps_Busy = busy (p_prov p i),
           ps_Slots = Slots (p_prov p i), ps_Priority = Priority (p_prov p i)\<rparr>)
          (s_providers (svc p name))\<rparr>)
     (sort (map fst (p_services p)))"

end
