(* ===== verification/Pool_Laws.thy ===== *)
theory Pool_Laws
  imports Pool
begin

text \<open>
  What the pool promises: which provider a job goes to, that slots are counted exactly and
  never over-subscribed, that jobs leave their queue oldest first, that no slot idles while a
  job waits, and that no handed-over slot is lost when its job gives up at the same moment.
\<close>

subsection \<open>The choice of a provider\<close>

definition eligible :: "'t provider \<Rightarrow> bool" where
  "eligible pr \<longleftrightarrow> \<not> gone pr \<and> busy pr < int (unat (Slots pr))"

definition beats :: "'t provider \<Rightarrow> 't provider \<Rightarrow> bool" where
  "beats a b \<longleftrightarrow> Priority a < Priority b \<or> (Priority a = Priority b \<and> free a > free b)"

lemma eligible_less: "eligible pr \<Longrightarrow> busy pr = int c \<Longrightarrow> c < unat (Slots pr)"
  unfolding eligible_def by linarith

lemma best_from_Cons [simp]:
  "best_from st b (i # is) =
     (if \<not> eligible (st i) then best_from st b is
      else case b of
             None \<Rightarrow> best_from st (Some i) is
           | Some j \<Rightarrow> best_from st (Some (if beats (st i) (st j) then i else j)) is)"
  by (auto simp: eligible_def beats_def split: option.split)

declare best_from.simps(2) [simp del]

lemma beats_trans: "\<not> beats a b \<Longrightarrow> \<not> beats b c \<Longrightarrow> \<not> beats a c"
  by (auto simp: beats_def)

lemma beats_asym: "beats a b \<Longrightarrow> \<not> beats b a"
  by (auto simp: beats_def)

lemma best_from_None: "best_from st b is = None \<longleftrightarrow> b = None \<and> (\<forall>i \<in> set is. \<not> eligible (st i))"
  by (induction "is" arbitrary: b) (auto split: option.split)

lemma best_from_mem: "best_from st b is = Some r \<Longrightarrow> b = Some r \<or> r \<in> set is \<and> eligible (st r)"
  by (induction "is" arbitrary: b) (fastforce split: option.splits if_splits)+

lemma best_from_init: "best_from st (Some j) is = Some r \<Longrightarrow> \<not> beats (st j) (st r)"
proof (induction "is" arbitrary: j)
  case (Cons i "is")
  show ?case
  proof (cases "eligible (st i)")
    case True
    define k where "k = (if beats (st i) (st j) then i else j)"
    have "\<not> beats (st j) (st k)"
      by (simp add: k_def beats_asym) (auto simp: beats_def)
    moreover have "\<not> beats (st k) (st r)"
      using Cons True by (simp add: k_def)
    ultimately show ?thesis
      by (rule beats_trans)
  qed (use Cons in auto)
qed (auto simp: beats_def)

lemma best_from_max:
  "best_from st b is = Some r \<Longrightarrow> i \<in> set is \<Longrightarrow> eligible (st i) \<Longrightarrow> \<not> beats (st i) (st r)"
proof (induction "is" arbitrary: b)
  case (Cons a "is")
  show ?case
  proof (cases "i = a")
    case True
    show ?thesis
    proof (cases b)
      case None
      with Cons.prems True show ?thesis
        using best_from_init [of st a "is" r] by simp
    next
      case (Some j)
      define k where "k = (if beats (st a) (st j) then a else j)"
      have "\<not> beats (st a) (st k)"
        by (auto simp: k_def beats_def)
      moreover have "\<not> beats (st k) (st r)"
        using Cons.prems True Some best_from_init [of st k "is" r] by (simp add: k_def)
      ultimately show ?thesis
        unfolding True by (rule beats_trans)
    qed
  next
    case False
    with Cons show ?thesis
      by (auto split: if_splits option.splits)
  qed
qed simp

lemma best_Some:
  "best p name = Some i \<Longrightarrow> i \<in> set (s_providers (svc p name)) \<and> eligible (p_prov p i)"
  using best_from_mem [of "p_prov p" None "s_providers (svc p name)" i] by (simp add: best_def)

lemma best_None_iff:
  "best p name = None \<longleftrightarrow> (\<forall>i \<in> set (s_providers (svc p name)). \<not> eligible (p_prov p i))"
  by (simp add: best_def best_from_None)

subsection \<open>The invariant\<close>

definition live :: "'t pool \<Rightarrow> nat \<Rightarrow> nat set" where
  "live p i = {l. l < p_nlease p \<and> l_provider (p_lease p l) = i \<and> \<not> l_released (p_lease p l)}"

definition providers_ok :: "'t pool \<Rightarrow> bool" where
  "providers_ok p \<longleftrightarrow> (\<forall>n. distinct (s_providers (svc p n)) \<and>
     (\<forall>i \<in> set (s_providers (svc p n)).
        i < p_nprov p \<and> Service (p_prov p i) = n \<and> \<not> gone (p_prov p i)))"

definition waiters_ok :: "'t pool \<Rightarrow> bool" where
  "waiters_ok p \<longleftrightarrow>
     (\<forall>n. distinct (s_waiters (svc p n)) \<and>
       (\<forall>w \<in> set (s_waiters (svc p n)). w < p_nwait p \<and> p_chan p w = None)) \<and>
     (\<forall>n m w. w \<in> set (s_waiters (svc p n)) \<longrightarrow> w \<in> set (s_waiters (svc p m)) \<longrightarrow> n = m)"

definition leases_ok :: "'t pool \<Rightarrow> bool" where
  "leases_ok p \<longleftrightarrow> (\<forall>l < p_nlease p. l_provider (p_lease p l) < p_nprov p \<and>
     l_service (p_lease p l) = Service (p_prov p (l_provider (p_lease p l))))"

definition slots_ok :: "'t pool \<Rightarrow> bool" where
  "slots_ok p \<longleftrightarrow> (\<forall>i < p_nprov p. busy (p_prov p i) = int (card (live p i)) \<and>
     card (live p i) \<le> unat (Slots (p_prov p i)))"

definition counted :: "'t pool \<Rightarrow> bool" where
  "counted p \<longleftrightarrow> providers_ok p \<and> waiters_ok p \<and> leases_ok p \<and> slots_ok p"

definition conserving :: "'t pool \<Rightarrow> string \<Rightarrow> bool" where
  "conserving p n \<longleftrightarrow> s_waiters (svc p n) = [] \<or> best p n = None"

definition pool_inv :: "'t pool \<Rightarrow> bool" where
  "pool_inv p \<longleftrightarrow> counted p \<and> (\<forall>n. conserving p n)"

lemmas counted_defs = counted_def providers_ok_def leases_ok_def slots_ok_def

lemma countedD:
  assumes "counted p"
  shows counted_providers: "distinct (s_providers (svc p n))"
    and counted_provider: "i \<in> set (s_providers (svc p n)) \<Longrightarrow>
      i < p_nprov p \<and> Service (p_prov p i) = n \<and> \<not> gone (p_prov p i)"
    and counted_waiters: "distinct (s_waiters (svc p n))"
    and counted_waiter: "w \<in> set (s_waiters (svc p n)) \<Longrightarrow> w < p_nwait p \<and> p_chan p w = None"
    and counted_queue: "w \<in> set (s_waiters (svc p n)) \<Longrightarrow> w \<in> set (s_waiters (svc p m)) \<Longrightarrow> n = m"
    and counted_lease: "l < p_nlease p \<Longrightarrow> l_provider (p_lease p l) < p_nprov p \<and>
      l_service (p_lease p l) = Service (p_prov p (l_provider (p_lease p l)))"
    and counted_slots: "i < p_nprov p \<Longrightarrow> busy (p_prov p i) = int (card (live p i)) \<and>
      card (live p i) \<le> unat (Slots (p_prov p i))"
  using assms by (simp_all add: counted_def providers_ok_def waiters_ok_def leases_ok_def slots_ok_def)

lemma counted_busy:
  assumes "counted p" "i < p_nprov p"
  shows "0 \<le> busy (p_prov p i) \<and> busy (p_prov p i) \<le> uint (Slots (p_prov p i))"
proof -
  have "int (card (live p i)) \<le> int (unat (Slots (p_prov p i)))"
    using counted_slots [OF assms] by linarith
  then show ?thesis
    using counted_slots [OF assms] by simp
qed

lemma waiters_okI:
  assumes "\<And>n. distinct (s_waiters (svc p n))"
    and "\<And>n w. w \<in> set (s_waiters (svc p n)) \<Longrightarrow> w < p_nwait p \<and> p_chan p w = None"
    and "\<And>n m w. w \<in> set (s_waiters (svc p n)) \<Longrightarrow> w \<in> set (s_waiters (svc p m)) \<Longrightarrow> n = m"
  shows "waiters_ok p"
  using assms unfolding waiters_ok_def by blast

lemma waiters_ok_cong:
  "(\<And>n. s_waiters (svc q n) = s_waiters (svc p n)) \<Longrightarrow> p_chan q = p_chan p \<Longrightarrow>
   p_nwait q = p_nwait p \<Longrightarrow> waiters_ok q \<longleftrightarrow> waiters_ok p"
  unfolding waiters_ok_def by simp

lemma finite_live [simp]: "finite (live p i)"
  by (rule finite_subset [of _ "{..<p_nlease p}"]) (auto simp: live_def)

lemma live_take_slot:
  "live (snd (take_slot name i p)) j = (if j = i then insert (p_nlease p) (live p j) else live p j)"
  by (auto simp: live_def take_slot_def less_Suc_eq)

lemma p_nlease_notin_live [simp]: "p_nlease p \<notin> live p i"
  by (simp add: live_def)

subsection \<open>Handing slots over\<close>

lemma take_slot_sel:
  assumes "take_slot name i p = (l, p')"
  shows "l = p_nlease p" "p_nlease p' = Suc (p_nlease p)" "p_services p' = p_services p"
    "p_chan p' = p_chan p" "p_nwait p' = p_nwait p" "p_nprov p' = p_nprov p"
    "p_prov p' = (p_prov p)(i := (p_prov p i)\<lparr>busy := busy (p_prov p i) + 1\<rparr>)"
    "p_lease p' = (p_lease p)(l := \<lparr>l_service = name, l_provider = i, l_released = False\<rparr>)"
    "p_timeout p' = p_timeout p" "svc p' n = svc p n"
  using assms by (auto simp: take_slot_def add_busy_def svc_def)

lemma take_slot_counted:
  assumes inv: "counted p" and i: "best p name = Some i" and t: "take_slot name i p = (l, p')"
  shows "counted p'"
proof -
  note sel = take_slot_sel [OF t]
  have el: "eligible (p_prov p i)" and mem: "i \<in> set (s_providers (svc p name))"
    using best_Some [OF i] by auto
  with inv have sv: "Service (p_prov p i) = name" and lt: "i < p_nprov p"
    by (auto simp: counted_defs)
  have "providers_ok p'"
    using inv by (auto simp: counted_defs sel)
  moreover have "waiters_ok p'"
    using inv waiters_ok_cong [of p' p] by (simp add: counted_def sel)
  moreover have "leases_ok p'"
    using inv sv lt by (auto simp: counted_defs sel less_Suc_eq)
  moreover have "card (live p i) < unat (Slots (p_prov p i))"
    using el inv lt by (intro eligible_less) (auto simp: counted_defs)
  then have "slots_ok p'"
    using inv lt live_take_slot [of name i p] t by (auto simp: counted_defs sel)
  ultimately show ?thesis
    by (simp add: counted_def)
qed

lemma counted_upd_waiters:
  assumes "counted p" "set ws \<subseteq> set (s_waiters (svc p name))" "distinct ws"
  shows "counted (upd_svc name (\<lambda>s. s\<lparr>s_waiters := ws\<rparr>) p)"
proof -
  let ?p = "upd_svc name (\<lambda>s. s\<lparr>s_waiters := ws\<rparr>) p"
  have [simp]: "p_prov ?p = p_prov p" "p_nprov ?p = p_nprov p" "p_lease ?p = p_lease p"
    "p_nlease ?p = p_nlease p" "p_chan ?p = p_chan p" "p_nwait ?p = p_nwait p"
    by (simp_all add: upd_svc_def)
  have "live ?p = live p"
    by (simp add: live_def fun_eq_iff)
  moreover have "set (s_waiters (svc ?p n)) \<subseteq> set (s_waiters (svc p n))" for n
    using assms(2) by simp
  then have sub: "w \<in> set (s_waiters (svc ?p n)) \<Longrightarrow> w \<in> set (s_waiters (svc p n))" for w n
    by blast
  have "waiters_ok ?p"
  proof (rule waiters_okI)
    fix n m w
    show "distinct (s_waiters (svc ?p n))"
      using assms(3) counted_waiters [OF assms(1)] by simp
    assume w: "w \<in> set (s_waiters (svc ?p n))"
    show "w < p_nwait ?p \<and> p_chan ?p w = None"
      using counted_waiter [OF assms(1) sub [OF w]] by simp
    show "w \<in> set (s_waiters (svc ?p m)) \<Longrightarrow> n = m"
      using counted_queue [OF assms(1) sub [OF w] sub] .
  qed
  ultimately show ?thesis
    using assms(1) by (simp add: counted_def providers_ok_def leases_ok_def slots_ok_def)
qed

lemma best_upd_waiters [simp]:
  "best (upd_svc name (\<lambda>s. s\<lparr>s_waiters := ws\<rparr>) p) n = best p n"
  by (simp add: best_def) (simp add: upd_svc_def)

lemma hand_over_counted:
  assumes inv: "counted p" and w: "s_waiters (svc p name) = w # ws" and i: "best p name = Some i"
  shows "counted (hand_over name i w ws p)"
proof -
  let ?q = "upd_svc name (\<lambda>s. s\<lparr>s_waiters := ws\<rparr>) p"
  have dw: "distinct (w # ws)"
    using counted_waiters [OF inv, of name] w by simp
  have "counted ?q"
    using inv w dw by (intro counted_upd_waiters) auto
  moreover obtain l r where r: "take_slot name i ?q = (l, r)"
    by fastforce
  ultimately have "counted r"
    using i by (intro take_slot_counted [of ?q name i l r]) simp_all
  moreover have "w \<notin> set (s_waiters (svc r n))" for n
  proof (cases "n = name")
    case False
    have "w \<notin> set (s_waiters (svc p n))"
      using counted_queue [OF inv, of w n name] w False by auto
    then show ?thesis
      using False take_slot_sel(10) [OF r, of n] by simp
  qed (use dw take_slot_sel(10) [OF r, of n] in simp)
  moreover have "hand_over name i w ws p = r\<lparr>p_chan := (p_chan r)(w := Some l)\<rparr>"
    by (simp add: hand_over_def r)
  moreover have "live (r\<lparr>p_chan := c\<rparr>) = live r" for c
    by (simp add: live_def fun_eq_iff)
  moreover have "waiters_ok (r\<lparr>p_chan := (p_chan r)(w := Some l)\<rparr>)"
    using \<open>counted r\<close> \<open>\<And>n. w \<notin> set (s_waiters (svc r n))\<close>
    by (intro waiters_okI) (auto dest: counted_waiter counted_queue counted_waiters)
  ultimately show ?thesis
    by (simp add: counted_def providers_ok_def leases_ok_def slots_ok_def)
qed

lemma dispatch_counted: "counted p \<Longrightarrow> counted (dispatch name p)"
proof (induction name p rule: dispatch.induct)
  case (1 name p)
  show ?case
    using "1.IH" "1.prems"
    by (subst dispatch.simps) (auto simp: hand_over_counted split: list.split option.split)
qed

lemma dispatch_conserving: "conserving (dispatch name p) name"
proof (induction name p rule: dispatch.induct)
  case (1 name p)
  show ?case
    using "1.IH"
    by (subst dispatch.simps) (auto simp: conserving_def split: list.split option.split)
qed

text \<open>
  The effect of \<open>dispatch\<close>: the \<open>k\<close> oldest waiters leave the queue in order, each with a lease
  of its own in its channel; nothing else changes but the slots those leases hold.
\<close>

definition handed :: "string \<Rightarrow> nat \<Rightarrow> 't pool \<Rightarrow> 't pool \<Rightarrow> bool" where
  "handed name k p q \<longleftrightarrow>
     k \<le> length (s_waiters (svc p name)) \<and>
     (\<forall>n. svc q n = (if n = name then (svc p n)\<lparr>s_waiters := drop k (s_waiters (svc p n))\<rparr> else svc p n)) \<and>
     (\<forall>j < k. p_chan q (s_waiters (svc p name) ! j) = Some (p_nlease p + j)) \<and>
     (\<forall>w. w \<notin> set (take k (s_waiters (svc p name))) \<longrightarrow> p_chan q w = p_chan p w) \<and>
     p_nlease q = p_nlease p + k \<and> p_nprov q = p_nprov p \<and> p_nwait q = p_nwait p \<and>
     p_timeout q = p_timeout p \<and>
     (\<forall>l < p_nlease p. p_lease q l = p_lease p l) \<and>
     (\<forall>l. p_nlease p \<le> l \<and> l < p_nlease p + k \<longrightarrow> l_service (p_lease q l) = name \<and>
        \<not> l_released (p_lease q l) \<and> l_provider (p_lease q l) \<in> set (s_providers (svc p name))) \<and>
     (\<forall>i. \<exists>b. p_prov q i = (p_prov p i)\<lparr>busy := b\<rparr>) \<and>
     (\<forall>i. i \<notin> set (s_providers (svc p name)) \<longrightarrow> p_prov q i = p_prov p i)"

lemma ex_busy: "\<exists>b. pr = pr\<lparr>busy := b\<rparr>"
  by (rule exI [of _ "busy pr"]) simp

lemma handed_0: "handed name 0 p p"
  by (auto simp: handed_def ex_busy)

lemma hand_over_sel:
  "p_chan (hand_over name i w ws p) = (p_chan p)(w := Some (p_nlease p))"
  "p_nlease (hand_over name i w ws p) = Suc (p_nlease p)"
  "p_nprov (hand_over name i w ws p) = p_nprov p"
  "p_nwait (hand_over name i w ws p) = p_nwait p"
  "p_timeout (hand_over name i w ws p) = p_timeout p"
  "p_lease (hand_over name i w ws p) =
     (p_lease p)(p_nlease p := \<lparr>l_service = name, l_provider = i, l_released = False\<rparr>)"
  "p_prov (hand_over name i w ws p) = (p_prov p)(i := (p_prov p i)\<lparr>busy := busy (p_prov p i) + 1\<rparr>)"
  by (simp_all add: hand_over_def take_slot_def add_busy_def upd_svc_def)

lemma handed_Suc:
  assumes h: "handed name k (hand_over name i w ws p) q"
    and w: "s_waiters (svc p name) = w # ws" and d: "distinct (w # ws)"
    and i: "i \<in> set (s_providers (svc p name))"
  shows "handed name (Suc k) p q"
proof -
  let ?p = "hand_over name i w ws p"
  have k: "k \<le> length ws" and ws: "s_waiters (svc ?p name) = ws"
    using h by (simp_all add: handed_def)
  have "w \<notin> set (take k ws)"
    using d by (auto dest: in_set_takeD)
  then have cw: "p_chan q w = Some (p_nlease p)"
    using h unfolding handed_def ws by (simp add: hand_over_sel)
  have chan: "p_chan q (s_waiters (svc p name) ! j) = Some (p_nlease p + j)" if "j < Suc k" for j
    using that h cw w unfolding handed_def ws by (cases j) (simp_all add: hand_over_sel)
  have frame: "p_chan q v = p_chan p v" if "v \<notin> set (take (Suc k) (s_waiters (svc p name)))" for v
    using that h w unfolding handed_def ws by (auto simp: hand_over_sel)
  have old: "p_lease q l = p_lease p l" if "l < p_nlease p" for l
    using h that by (simp add: handed_def hand_over_sel)
  have new: "l_service (p_lease q l) = name \<and> \<not> l_released (p_lease q l) \<and>
      l_provider (p_lease q l) \<in> set (s_providers (svc p name))"
    if "p_nlease p \<le> l" "l < p_nlease p + Suc k" for l
  proof (cases "l = p_nlease p")
    case True
    then show ?thesis
      using h i by (simp add: handed_def hand_over_sel)
  next
    case False
    with that h show ?thesis
      by (simp add: handed_def hand_over_sel)
  qed
  have provs: "\<exists>b. p_prov q j = (p_prov p j)\<lparr>busy := b\<rparr>" for j
  proof -
    obtain b where "p_prov q j = (p_prov ?p j)\<lparr>busy := b\<rparr>"
      using h unfolding handed_def by blast
    then show ?thesis
      by (cases "j = i") (auto simp: hand_over_sel)
  qed
  have others: "p_prov q j = p_prov p j" if "j \<notin> set (s_providers (svc p name))" for j
    using that h i by (auto simp: handed_def hand_over_sel)
  show ?thesis
    unfolding handed_def
    using h k w chan frame old new provs others
    by (simp add: handed_def hand_over_sel)
qed

lemma dispatch_handed: "counted p \<Longrightarrow> \<exists>k. handed name k p (dispatch name p)"
proof (induction name p rule: dispatch.induct)
  case (1 name p)
  show ?case
  proof (cases "s_waiters (svc p name)")
    case Nil
    then show ?thesis
      using handed_0 by (subst dispatch.simps) auto
  next
    case (Cons w ws)
    show ?thesis
    proof (cases "best p name")
      case None
      with Cons show ?thesis
        using handed_0 by (subst dispatch.simps) auto
    next
      case (Some i)
      from "1.IH" [OF Cons Some] hand_over_counted [OF "1.prems" Cons Some]
      obtain k where "handed name k (hand_over name i w ws p) (dispatch name (hand_over name i w ws p))"
        by blast
      then have "handed name (Suc k) p (dispatch name (hand_over name i w ws p))"
        using Cons counted_waiters [OF "1.prems", of name] best_Some [OF Some]
        by (intro handed_Suc) auto
      moreover have "dispatch name p = dispatch name (hand_over name i w ws p)"
        using Cons Some by (subst dispatch.simps) simp
      ultimately show ?thesis
        by auto
    qed
  qed
qed

lemma best_cong:
  assumes "s_providers (svc q n) = s_providers (svc p n)"
    and "\<And>i. i \<in> set (s_providers (svc p n)) \<Longrightarrow> p_prov q i = p_prov p i"
  shows "best q n = best p n"
proof -
  have "best_from (p_prov q) b is = best_from (p_prov p) b is"
    if "set is \<subseteq> set (s_providers (svc p n))" "\<forall>j. b = Some j \<longrightarrow> j \<in> set (s_providers (svc p n))" for b "is"
    using that assms(2) by (induction "is" arbitrary: b) (auto split: option.split)
  then show ?thesis
    using assms(1) by (auto simp: best_def)
qed

lemma conserving_cong:
  assumes "svc q n = svc p n" and "\<And>i. i \<in> set (s_providers (svc p n)) \<Longrightarrow> p_prov q i = p_prov p i"
  shows "conserving q n \<longleftrightarrow> conserving p n"
  using best_cong [of q n p] assms by (simp add: conserving_def)

text \<open>A change of one provider is invisible to every other service.\<close>

lemma conserving_other:
  assumes "counted p" "n \<noteq> Service (p_prov p i)" "svc q n = svc p n" "p_prov q = (p_prov p)(i := x)"
  shows "conserving q n \<longleftrightarrow> conserving p n"
  using assms counted_provider [OF assms(1), of i n] by (intro conserving_cong) auto

lemma handed_best_other:
  assumes "counted p" "handed name k p q" "n \<noteq> name"
  shows "best q n = best p n"
  using assms counted_provider [OF assms(1)] unfolding handed_def
  by (intro best_cong) (simp, metis)

lemma dispatch_inv:
  assumes "counted p" and "\<And>n. n \<noteq> name \<Longrightarrow> conserving p n"
  shows "pool_inv (dispatch name p)"
proof -
  obtain k where h: "handed name k p (dispatch name p)"
    using dispatch_handed [OF assms(1)] by blast
  have "conserving (dispatch name p) n" for n
  proof (cases "n = name")
    case True
    then show ?thesis
      by (simp add: dispatch_conserving)
  next
    case False
    with assms h handed_best_other [OF assms(1) h False] show ?thesis
      by (auto simp: conserving_def handed_def)
  qed
  then show ?thesis
    using assms(1) by (simp add: pool_inv_def dispatch_counted)
qed

subsection \<open>Every operation keeps the invariant\<close>

lemma unlease_sel:
  "svc (unlease l p) n = svc p n" "p_nprov (unlease l p) = p_nprov p"
  "p_nlease (unlease l p) = p_nlease p" "p_chan (unlease l p) = p_chan p"
  "p_nwait (unlease l p) = p_nwait p" "p_timeout (unlease l p) = p_timeout p"
  "p_lease (unlease l p) = (p_lease p)(l := (p_lease p l)\<lparr>l_released := True\<rparr>)"
  "i = l_provider (p_lease p l) \<Longrightarrow>
   p_prov (unlease l p) = (p_prov p)(i := (p_prov p i)\<lparr>busy := busy (p_prov p i) - 1\<rparr>)"
  by (simp_all add: unlease_def add_busy_def)

lemma live_unlease: "live (unlease l p) j = live p j - {l}"
  by (auto simp: live_def unlease_sel)

lemma unlease_counted:
  assumes c: "counted p" and l: "l < p_nlease p" and live: "\<not> l_released (p_lease p l)"
  shows "counted (unlease l p)"
proof -
  define i where "i = l_provider (p_lease p l)"
  note sel = unlease_sel(1-7) [of l p] unlease_sel(8) [OF i_def]
  have mem: "l \<in> live p j \<longleftrightarrow> j = i" for j
    using l live by (auto simp: live_def i_def)
  have "card (live p i) = Suc (card (live (unlease l p) i))"
    using mem [of i] card_Suc_Diff1 [OF finite_live, of l p i] by (simp add: live_unlease)
  moreover have "live (unlease l p) j = live p j" if "j \<noteq> i" for j
    using mem [of j] that by (auto simp: live_unlease)
  moreover have "i < p_nprov p"
    using counted_lease [OF c l] by (simp add: i_def)
  ultimately have "slots_ok (unlease l p)"
    using c by (auto simp: counted_def slots_ok_def sel)
  then show ?thesis
    using c waiters_ok_cong [of "unlease l p" p]
    by (auto simp: counted_def providers_ok_def leases_ok_def sel)
qed

lemma Release_inv [inv_intros]:
  assumes inv: "pool_inv p" and l: "l < p_nlease p"
  shows "pool_inv (Release l p)"
proof (cases "l_released (p_lease p l)")
  case False
  have c: "counted p"
    using inv by (simp add: pool_inv_def)
  have "conserving (unlease l p) n" if "n \<noteq> l_service (p_lease p l)" for n
    using conserving_other [OF c, of n "l_provider (p_lease p l)" "unlease l p"] inv that
      counted_lease [OF c l] by (auto simp: pool_inv_def unlease_sel)
  with unlease_counted [OF c l False] show ?thesis
    using False by (simp add: Release_def dispatch_inv)
qed (use inv in \<open>simp add: Release_def\<close>)

text \<open>What \<open>Release\<close> changes: this lease, and the queue it may let move.\<close>

lemma Release_handed:
  assumes "counted p" "l < p_nlease p" "\<not> l_released (p_lease p l)"
  obtains k where "handed (l_service (p_lease p l)) k (unlease l p) (Release l p)"
  using dispatch_handed [OF unlease_counted [OF assms], of "l_service (p_lease p l)"] assms(3)
  by (auto simp: Release_def)

lemma Release_waiters:
  assumes "counted p" "l < p_nlease p"
  shows "set (s_waiters (svc (Release l p) n)) \<subseteq> set (s_waiters (svc p n))"
proof (cases "l_released (p_lease p l)")
  case False
  from Release_handed [OF assms this]
  obtain k where "handed (l_service (p_lease p l)) k (unlease l p) (Release l p)" .
  then show ?thesis
    by (auto simp: handed_def unlease_sel dest: in_set_dropD)
qed (simp add: Release_def)

lemma Release_released:
  assumes "counted p" "l < p_nlease p"
  shows "l_released (p_lease (Release l p) l)"
proof (cases "l_released (p_lease p l)")
  case False
  from Release_handed [OF assms this]
  obtain k where "handed (l_service (p_lease p l)) k (unlease l p) (Release l p)" .
  then show ?thesis
    using assms(2) by (simp add: handed_def unlease_sel)
qed (simp add: Release_def)

lemma Release_chan:
  assumes "counted p" "l < p_nlease p" "\<And>n. w \<notin> set (s_waiters (svc p n))"
  shows "p_chan (Release l p) w = p_chan p w"
proof (cases "l_released (p_lease p l)")
  case False
  from Release_handed [OF assms(1,2) this]
  obtain k where "handed (l_service (p_lease p l)) k (unlease l p) (Release l p)" .
  then show ?thesis
    using assms(3) [of "l_service (p_lease p l)"]
    by (auto simp: handed_def unlease_sel dest: in_set_takeD)
qed (simp add: Release_def)

lemma svc_service_of [simp]: "svc (service_of name p) n = svc p n"
  by (auto simp: service_of_def split: option.split)

lemma service_of_sel [simp]:
  "p_prov (service_of n p) = p_prov p" "p_nprov (service_of n p) = p_nprov p"
  "p_lease (service_of n p) = p_lease p" "p_nlease (service_of n p) = p_nlease p"
  "p_chan (service_of n p) = p_chan p" "p_nwait (service_of n p) = p_nwait p"
  "p_timeout (service_of n p) = p_timeout p"
  by (simp_all add: service_of_def upd_svc_def split: option.split)

lemma upd_svc_sel [simp]:
  "p_prov (upd_svc n f p) = p_prov p" "p_nprov (upd_svc n f p) = p_nprov p"
  "p_lease (upd_svc n f p) = p_lease p" "p_nlease (upd_svc n f p) = p_nlease p"
  "p_chan (upd_svc n f p) = p_chan p" "p_nwait (upd_svc n f p) = p_nwait p"
  "p_timeout (upd_svc n f p) = p_timeout p"
  by (simp_all add: upd_svc_def)

lemma live_cong: "p_lease q = p_lease p \<Longrightarrow> p_nlease q = p_nlease p \<Longrightarrow> live q = live p"
  by (simp add: live_def fun_eq_iff)

lemma service_of_inv [simp]:
  "counted (service_of name p) \<longleftrightarrow> counted p" "best (service_of name p) n = best p n"
  using waiters_ok_cong [of "service_of name p" p]
  by (simp_all add: counted_defs live_cong [of "service_of name p" p] best_def)

lemma join_sel [simp]:
  "svc (join name i p) n =
     (if n = name then (svc p n)\<lparr>s_providers := s_providers (svc p n) @ [i]\<rparr> else svc p n)"
  "p_prov (join name i p) = p_prov p" "p_nprov (join name i p) = p_nprov p"
  "p_lease (join name i p) = p_lease p" "p_nlease (join name i p) = p_nlease p"
  "p_chan (join name i p) = p_chan p" "p_nwait (join name i p) = p_nwait p"
  by (simp_all add: join_def)

lemma new_provider_sel:
  assumes "new_provider peer service slots prio target p = (i, q)"
  shows "i = p_nprov p" "p_nprov q = Suc i" "Service (p_prov q i) = service"
    "Slots (p_prov q i) = slots" "busy (p_prov q i) = 0" "\<not> gone (p_prov q i)"
    "\<And>j. j \<noteq> i \<Longrightarrow> p_prov q j = p_prov p j" "p_lease q = p_lease p" "p_nlease q = p_nlease p"
    "p_chan q = p_chan p" "p_nwait q = p_nwait p" "\<And>n. svc q n = svc p n"
  using assms by (auto simp: new_provider_def)

lemma join_counted:
  assumes c: "counted p" and new: "new_provider peer service slots prio target p = (i, q)"
  shows "counted (join service i q)"
proof -
  note sel = new_provider_sel [OF new]
  have fresh: "i \<notin> set (s_providers (svc p n))" for n
    using counted_provider [OF c, of i n] by (auto simp: sel(1))
  have "j \<noteq> i" if "j \<in> set (s_providers (svc p n))" for j n
    using fresh that by blast
  moreover have np: "p_nprov p = i"
    by (simp add: sel(1))
  ultimately have "providers_ok (join service i q)"
    using c fresh by (auto simp: counted_def providers_ok_def np sel(2-) less_Suc_eq)
  moreover have "waiters_ok (join service i q)"
    using c waiters_ok_cong [of "join service i q" p] by (simp add: counted_def sel(2-))
  moreover have "l_provider (p_lease p l) \<noteq> i" if "l < p_nlease p" for l
    using counted_lease [OF c that] by (simp add: np)
  then have "leases_ok (join service i q)" and "live p i = {}"
    using counted_lease [OF c] by (auto simp: leases_ok_def live_def np sel(2-) less_Suc_eq)
  moreover from this(2) have "slots_ok (join service i q)"
    using counted_slots [OF c] live_cong [of "join service i q" p]
    by (auto simp: slots_ok_def np sel(2-) less_Suc_eq)
  ultimately show ?thesis
    by (simp add: counted_def)
qed

lemma Add_inv [inv_intros]:
  assumes inv: "pool_inv p" and new: "new_provider peer service slots prio target p = (i, q)"
  shows "pool_inv (Add i q)"
proof -
  have c: "counted p"
    using inv by (simp add: pool_inv_def)
  note sel = new_provider_sel [OF new]
  have "conserving (join service i q) n" if "n \<noteq> service" for n
    using conserving_cong [of "join service i q" n p] counted_provider [OF c, of _ n] inv that
      new_provider_sel(1) [OF new] by (fastforce simp: pool_inv_def sel(2-))
  then have "pool_inv (dispatch service (join service i q))"
    by (rule dispatch_inv [OF join_counted [OF c new]])
  then show ?thesis
    by (simp add: Add_def sel(2-))
qed

lemma Remove_sel:
  assumes "counted p" "i < p_nprov p"
  shows "svc (Remove i p) n = (if n = Service (p_prov p i)
      then (svc p n)\<lparr>s_providers := remove1 i (s_providers (svc p n))\<rparr> else svc p n)"
    and "p_prov (Remove i p) = (p_prov p)(i := (p_prov p i)\<lparr>gone := True\<rparr>)"
    and "p_nprov (Remove i p) = p_nprov p" "p_lease (Remove i p) = p_lease p"
    "p_nlease (Remove i p) = p_nlease p" "p_chan (Remove i p) = p_chan p"
    "p_nwait (Remove i p) = p_nwait p"
  by (auto simp: Remove_def Let_def svc_def upd_svc_def update_conv' split: option.split)

lemma Remove_inv [inv_intros]:
  assumes inv: "pool_inv p" and i: "i < p_nprov p"
  shows "pool_inv (Remove i p)"
proof -
  have c: "counted p"
    using inv by (simp add: pool_inv_def)
  note sel = Remove_sel [OF c i]
  have sub: "j \<in> set (s_providers (svc (Remove i p) n)) \<Longrightarrow> j \<in> set (s_providers (svc p n)) \<and> j \<noteq> i" for j n
    using counted_providers [OF c, of n] counted_provider [OF c, of j n]
    by (auto simp: sel split: if_splits)
  have "providers_ok (Remove i p)"
    unfolding providers_ok_def
  proof (intro allI conjI ballI)
    fix n j
    show "distinct (s_providers (svc (Remove i p) n))"
      using counted_providers [OF c] by (simp add: sel)
    assume "j \<in> set (s_providers (svc (Remove i p) n))"
    from sub [OF this] counted_provider [OF c, of j n]
    show "j < p_nprov (Remove i p)" "Service (p_prov (Remove i p) j) = n" "\<not> gone (p_prov (Remove i p) j)"
      by (auto simp: sel)
  qed
  moreover have "waiters_ok (Remove i p)"
    using c waiters_ok_cong [of "Remove i p" p] by (simp add: counted_def sel)
  moreover have "leases_ok (Remove i p)" and "slots_ok (Remove i p)"
    using c live_cong [of "Remove i p" p] by (auto simp: counted_def leases_ok_def slots_ok_def sel)
  moreover have "conserving (Remove i p) n" for n
  proof -
    have "best (Remove i p) n = None" if none: "best p n = None"
      unfolding best_None_iff
    proof
      fix j
      assume "j \<in> set (s_providers (svc (Remove i p) n))"
      from sub [OF this] none show "\<not> eligible (p_prov (Remove i p) j)"
        by (simp add: best_None_iff sel(2))
    qed
    then show ?thesis
      using inv by (auto simp: pool_inv_def conserving_def sel)
  qed
  ultimately show ?thesis
    by (simp add: pool_inv_def counted_def)
qed

lemma enqueue_inv:
  assumes inv: "pool_inv p" and e: "enqueue name front p = (w, q)"
    and full: "best p name = None"
  shows "pool_inv q"
proof -
  have c: "counted p"
    using inv by (simp add: pool_inv_def)
  let ?ws = "if front then w # s_waiters (svc p name) else s_waiters (svc p name) @ [w]"
  from e have w: "w = p_nwait p" and q [simp]: "p_prov q = p_prov p" "p_nprov q = p_nprov p"
    "p_lease q = p_lease p" "p_nlease q = p_nlease p" "p_chan q = (p_chan p)(w := None)"
    "p_nwait q = Suc w" and sv: "svc q n = (if n = name then (svc p n)\<lparr>s_waiters := ?ws\<rparr> else svc p n)" for n
    by (auto simp: enqueue_def Let_def)
  have fresh: "w \<notin> set (s_waiters (svc p n))" for n
    using counted_waiter [OF c, of w n] by (auto simp: w)
  have mem: "v \<in> set (s_waiters (svc q n)) \<longleftrightarrow> v \<in> set (s_waiters (svc p n)) \<or> n = name \<and> v = w" for v n
    by (auto simp: sv)
  have "waiters_ok q"
  proof (rule waiters_okI)
    fix n m v
    show "distinct (s_waiters (svc q n))"
      using counted_waiters [OF c] fresh by (simp add: sv)
    assume v: "v \<in> set (s_waiters (svc q n))"
    then show "v < p_nwait q \<and> p_chan q v = None"
      using counted_waiter [OF c, of v n] by (auto simp: mem w)
    show "v \<in> set (s_waiters (svc q m)) \<Longrightarrow> n = m"
      using v counted_queue [OF c, of v n m] fresh by (auto simp: mem)
  qed
  moreover have "providers_ok q" "leases_ok q" "slots_ok q"
    using c live_cong [of q p] by (auto simp: counted_defs sv)
  moreover have "conserving q n" for n
    using inv full best_cong [of q n p] by (auto simp: pool_inv_def conserving_def sv)
  ultimately show ?thesis
    by (simp add: pool_inv_def counted_def)
qed

lemma take_slot_inv:
  assumes inv: "pool_inv p" and i: "best p name = Some i" and t: "take_slot name i p = (l, q)"
  shows "pool_inv q"
proof -
  have c: "counted p"
    using inv by (simp add: pool_inv_def)
  have name: "Service (p_prov p i) = name"
    using best_Some [OF i] counted_provider [OF c] by blast
  have "s_waiters (svc p name) = []"
    using inv i by (auto simp: pool_inv_def conserving_def)
  then have "conserving q n" for n
    using conserving_other [OF c, of n i q] inv name take_slot_sel [OF t]
    by (cases "n = name") (auto simp: pool_inv_def conserving_def)
  then show ?thesis
    using take_slot_counted [OF c i t] by (simp add: pool_inv_def)
qed

lemma service_of_pool_inv: "pool_inv p \<Longrightarrow> pool_inv (service_of name p)"
  by (simp add: pool_inv_def conserving_def)

lemma Acquire_enter_cases:
  assumes "Acquire_enter name front p = (a, q)"
  obtains (got) i l where "best p name = Some i" "s_waiters (svc p name) = []" "a = Got l"
      "take_slot name i (service_of name p) = (l, q)"
  | (queued) w where "s_waiters (svc p name) \<noteq> [] \<or> best p name = None" "a = Queued w"
      "enqueue name front (service_of name p) = (w, q)"
  using assms
  by (auto simp: Acquire_enter_def Let_def split: if_splits option.splits prod.splits)

lemma Acquire_enter_inv [inv_intros]:
  assumes inv: "pool_inv p" and a: "Acquire_enter name front p = (a, q)"
  shows "pool_inv q"
  using a
proof (cases rule: Acquire_enter_cases)
  case (got i l)
  then show ?thesis
    by (intro take_slot_inv [OF service_of_pool_inv [OF inv]]) auto
next
  case (queued w)
  moreover have "best p name = None"
    using inv queued(1) by (auto simp: pool_inv_def conserving_def)
  ultimately show ?thesis
    by (intro enqueue_inv [OF service_of_pool_inv [OF inv]]) auto
qed

lemma recv_lease_inv [inv_intros]:
  assumes inv: "pool_inv p" and r: "recv_lease w p = Some (l, q)"
  shows "pool_inv q"
proof -
  from r have q: "q = p\<lparr>p_chan := (p_chan p)(w := None)\<rparr>"
    by (auto simp: recv_lease_def split: option.splits)
  have c: "counted p"
    using inv by (simp add: pool_inv_def)
  have "waiters_ok q"
    using counted_waiters [OF c] counted_waiter [OF c] counted_queue [OF c]
    by (intro waiters_okI) (auto simp: q)
  moreover have "live q = live p"
    by (rule live_cong) (simp_all add: q)
  moreover have "best q n = best p n" for n
    by (rule best_cong) (simp_all add: q)
  ultimately show ?thesis
    using inv by (simp add: pool_inv_def counted_defs conserving_def) (simp add: q)
qed

lemma abandon_search_inv [inv_intros]:
  assumes inv: "pool_inv p" and a: "abandon_search name w p = (b, q)"
  shows "pool_inv q"
proof (cases b)
  case True
  have c: "counted p"
    using inv by (simp add: pool_inv_def)
  let ?ws = "remove1 w (s_waiters (svc p name))"
  have q: "q = upd_svc name (\<lambda>s. s\<lparr>s_waiters := ?ws\<rparr>) p"
    using a True by (auto simp: abandon_search_def upd_svc_def split: if_splits)
  have "counted q"
    unfolding q using c counted_waiters [OF c] by (intro counted_upd_waiters) (auto dest: notin_set_remove1)
  moreover have "conserving q n" for n
  proof -
    have "conserving p n"
      using inv by (simp add: pool_inv_def)
    then show ?thesis
      by (cases "n = name") (auto simp: conserving_def q)
  qed
  ultimately show ?thesis
    by (simp add: pool_inv_def)
qed (use assms in \<open>auto simp: abandon_search_def split: if_splits\<close>)

lemma New_inv: "pool_inv (New t)"
  by (simp add: pool_inv_def counted_def providers_ok_def leases_ok_def slots_ok_def waiters_ok_def
      conserving_def New_def svc_def)

end
