(* ===== verification/Pool_System.thy ===== *)
theory Pool_System
  imports Pool_Laws
begin

text \<open>
  The pool as its goroutines use it. A step is one critical section of \<^verbatim>\<open>pool.go\<close> (or one
  channel operation outside it), so \<open>Acquire\<close> is several steps and anything may happen between
  them. \<open>y_phase\<close> is where each queued \<open>Acquire\<close> stands, \<open>y_held\<close> the leases that \<open>Acquire\<close>
  has returned to its callers.
\<close>

datatype phase = Selecting | Leaving | Giving nat | Left

record 't psys =
  y_pool :: "'t pool"
  y_phase :: "nat \<Rightarrow> phase"
  y_name :: "nat \<Rightarrow> string"
  y_held :: "nat set"

definition init_sys :: "int \<Rightarrow> 't psys" where
  "init_sys t = \<lparr>y_pool = New t, y_phase = (\<lambda>_. Left), y_name = (\<lambda>_. ''''), y_held = {}\<rparr>"

inductive pool_step :: "'t psys \<Rightarrow> 't psys \<Rightarrow> bool" where
  add: "new_provider peer service slots prio target (y_pool y) = (i, q) \<Longrightarrow>
    pool_step y (y\<lparr>y_pool := Add i q\<rparr>)"
| remove: "i < p_nprov (y_pool y) \<Longrightarrow> pool_step y (y\<lparr>y_pool := Remove i (y_pool y)\<rparr>)"
| got: "Acquire_enter name front (y_pool y) = (Got l, q) \<Longrightarrow>
    pool_step y (y\<lparr>y_pool := q, y_held := insert l (y_held y)\<rparr>)"
| queued: "Acquire_enter name front (y_pool y) = (Queued w, q) \<Longrightarrow>
    pool_step y (y\<lparr>y_pool := q, y_phase := (y_phase y)(w := Selecting), y_name := (y_name y)(w := name)\<rparr>)"
| recv: "w < p_nwait (y_pool y) \<Longrightarrow> y_phase y w = Selecting \<Longrightarrow> recv_lease w (y_pool y) = Some (l, q) \<Longrightarrow>
    pool_step y (y\<lparr>y_pool := q, y_phase := (y_phase y)(w := Left), y_held := insert l (y_held y)\<rparr>)"
| give_up: "w < p_nwait (y_pool y) \<Longrightarrow> y_phase y w = Selecting \<Longrightarrow>
    abandon_search (y_name y w) w (y_pool y) = (b, q) \<Longrightarrow>
    pool_step y (y\<lparr>y_pool := q, y_phase := (y_phase y)(w := if b then Left else Leaving)\<rparr>)"
| drain: "w < p_nwait (y_pool y) \<Longrightarrow> y_phase y w = Leaving \<Longrightarrow> recv_lease w (y_pool y) = Some (l, q) \<Longrightarrow>
    pool_step y (y\<lparr>y_pool := q, y_phase := (y_phase y)(w := Giving l)\<rparr>)"
| drain_none: "w < p_nwait (y_pool y) \<Longrightarrow> y_phase y w = Leaving \<Longrightarrow> recv_lease w (y_pool y) = None \<Longrightarrow>
    pool_step y (y\<lparr>y_phase := (y_phase y)(w := Left)\<rparr>)"
| give: "y_phase y w = Giving l \<Longrightarrow>
    pool_step y (y\<lparr>y_pool := Release l (y_pool y), y_phase := (y_phase y)(w := Left)\<rparr>)"
| release: "l \<in> y_held y \<Longrightarrow> pool_step y (y\<lparr>y_pool := Release l (y_pool y)\<rparr>)"

subsection \<open>Where the leases are\<close>

definition queue_ok :: "'t psys \<Rightarrow> bool" where
  "queue_ok y \<longleftrightarrow>
     (\<forall>n. \<forall>w \<in> set (s_waiters (svc (y_pool y) n)). y_phase y w = Selecting \<and> y_name y w = n) \<and>
     (\<forall>w < p_nwait (y_pool y). y_phase y w = Selecting \<longrightarrow>
        w \<in> set (s_waiters (svc (y_pool y) (y_name y w))) \<or> p_chan (y_pool y) w \<noteq> None) \<and>
     (\<forall>w < p_nwait (y_pool y). y_phase y w = Leaving \<longrightarrow> p_chan (y_pool y) w \<noteq> None)"

definition chan_ok :: "'t psys \<Rightarrow> bool" where
  "chan_ok y \<longleftrightarrow>
     (\<forall>w l. p_chan (y_pool y) w = Some l \<longrightarrow> w < p_nwait (y_pool y) \<and>
        (y_phase y w = Selecting \<or> y_phase y w = Leaving) \<and> l < p_nlease (y_pool y) \<and>
        \<not> l_released (p_lease (y_pool y) l) \<and> l \<notin> y_held y \<and> (\<forall>v. y_phase y v \<noteq> Giving l)) \<and>
     (\<forall>v w l. p_chan (y_pool y) v = Some l \<longrightarrow> p_chan (y_pool y) w = Some l \<longrightarrow> v = w)"

definition giving_ok :: "'t psys \<Rightarrow> bool" where
  "giving_ok y \<longleftrightarrow>
     (\<forall>w l. y_phase y w = Giving l \<longrightarrow> w < p_nwait (y_pool y) \<and> l < p_nlease (y_pool y) \<and>
        \<not> l_released (p_lease (y_pool y) l) \<and> l \<notin> y_held y) \<and>
     (\<forall>v w l. y_phase y v = Giving l \<longrightarrow> y_phase y w = Giving l \<longrightarrow> v = w)"

definition placed :: "'t psys \<Rightarrow> nat \<Rightarrow> bool" where
  "placed y l \<longleftrightarrow> l \<in> y_held y \<or> (\<exists>w. p_chan (y_pool y) w = Some l) \<or> (\<exists>w. y_phase y w = Giving l)"

definition owned :: "'t psys \<Rightarrow> bool" where
  "owned y \<longleftrightarrow> (\<forall>l \<in> y_held y. l < p_nlease (y_pool y)) \<and>
     (\<forall>l < p_nlease (y_pool y). \<not> l_released (p_lease (y_pool y) l) \<longrightarrow> placed y l)"

definition leases_placed :: "'t psys \<Rightarrow> bool" where
  "leases_placed y \<longleftrightarrow> queue_ok y \<and> chan_ok y \<and> giving_ok y \<and> owned y"

definition sys_inv :: "'t psys \<Rightarrow> bool" where
  "sys_inv y \<longleftrightarrow> pool_inv (y_pool y) \<and> leases_placed y"

lemma init_sys_inv: "sys_inv (init_sys t)"
  by (simp add: sys_inv_def init_sys_def New_inv)
    (simp add: leases_placed_def queue_ok_def chan_ok_def giving_ok_def owned_def New_def svc_def)

lemma handed_chan:
  assumes "counted p" "handed name k p q"
  shows "p_chan q w = Some l \<longleftrightarrow>
    p_chan p w = Some l \<or> (\<exists>j < k. w = s_waiters (svc p name) ! j \<and> l = p_nlease p + j)"
proof -
  let ?ws = "s_waiters (svc p name)"
  have k: "k \<le> length ?ws" and new: "\<And>j. j < k \<Longrightarrow> p_chan q (?ws ! j) = Some (p_nlease p + j)"
    and old: "\<And>v. v \<notin> set (take k ?ws) \<Longrightarrow> p_chan q v = p_chan p v"
    using assms(2) by (auto simp: handed_def)
  show ?thesis
  proof (cases "w \<in> set (take k ?ws)")
    case True
    then obtain j where j: "j < k" "w = ?ws ! j"
      by (auto simp: in_set_conv_nth)
    have "p_chan p w = None"
      using counted_waiter [OF assms(1)] True by (auto dest: in_set_takeD)
    moreover have "l = p_nlease p + j" if "j' < k" "w = ?ws ! j'" "l = p_nlease p + j'" for j'
      using that(2,3) new [OF that(1)] new [OF j(1)] j(2) by (metis option.inject)
    ultimately show ?thesis
      using new [OF j(1)] j by auto
  next
    case False
    have "w \<noteq> ?ws ! j" if "j < k" for j
      using False k that by (auto simp: in_set_conv_nth)
    with old [OF False] show ?thesis
      by auto
  qed
qed

lemma leases_placedD:
  assumes "leases_placed y"
  shows placed_queued: "w \<in> set (s_waiters (svc (y_pool y) n)) \<Longrightarrow> y_phase y w = Selecting \<and> y_name y w = n"
    and placed_selecting: "w < p_nwait (y_pool y) \<Longrightarrow> y_phase y w = Selecting \<Longrightarrow>
      w \<in> set (s_waiters (svc (y_pool y) (y_name y w))) \<or> p_chan (y_pool y) w \<noteq> None"
    and placed_leaving: "w < p_nwait (y_pool y) \<Longrightarrow> y_phase y w = Leaving \<Longrightarrow> p_chan (y_pool y) w \<noteq> None"
    and placed_chan: "p_chan (y_pool y) w = Some l \<Longrightarrow> w < p_nwait (y_pool y) \<and>
      (y_phase y w = Selecting \<or> y_phase y w = Leaving) \<and> l < p_nlease (y_pool y) \<and>
      \<not> l_released (p_lease (y_pool y) l) \<and> l \<notin> y_held y \<and> (\<forall>v. y_phase y v \<noteq> Giving l)"
    and placed_unique: "p_chan (y_pool y) v = Some l \<Longrightarrow> p_chan (y_pool y) w = Some l \<Longrightarrow> v = w"
    and placed_giving: "y_phase y w = Giving l \<Longrightarrow> w < p_nwait (y_pool y) \<and> l < p_nlease (y_pool y) \<and>
      \<not> l_released (p_lease (y_pool y) l) \<and> l \<notin> y_held y"
    and placed_giver: "y_phase y v = Giving l \<Longrightarrow> y_phase y w = Giving l \<Longrightarrow> v = w"
    and placed_held: "l \<in> y_held y \<Longrightarrow> l < p_nlease (y_pool y)"
    and placed_live: "l < p_nlease (y_pool y) \<Longrightarrow> \<not> l_released (p_lease (y_pool y) l) \<Longrightarrow> placed y l"
  using assms unfolding leases_placed_def queue_ok_def chan_ok_def giving_ok_def owned_def by blast+

lemma queue_okI:
  assumes "\<And>w n. w \<in> set (s_waiters (svc (y_pool y) n)) \<Longrightarrow> y_phase y w = Selecting \<and> y_name y w = n"
    and "\<And>w. w < p_nwait (y_pool y) \<Longrightarrow> y_phase y w = Selecting \<Longrightarrow>
      w \<in> set (s_waiters (svc (y_pool y) (y_name y w))) \<or> p_chan (y_pool y) w \<noteq> None"
    and "\<And>w. w < p_nwait (y_pool y) \<Longrightarrow> y_phase y w = Leaving \<Longrightarrow> p_chan (y_pool y) w \<noteq> None"
  shows "queue_ok y"
  using assms unfolding queue_ok_def by blast

lemma chan_okI:
  assumes "\<And>w l. p_chan (y_pool y) w = Some l \<Longrightarrow> w < p_nwait (y_pool y) \<and>
      (y_phase y w = Selecting \<or> y_phase y w = Leaving) \<and> l < p_nlease (y_pool y) \<and>
      \<not> l_released (p_lease (y_pool y) l) \<and> l \<notin> y_held y \<and> (\<forall>v. y_phase y v \<noteq> Giving l)"
    and "\<And>v w l. p_chan (y_pool y) v = Some l \<Longrightarrow> p_chan (y_pool y) w = Some l \<Longrightarrow> v = w"
  shows "chan_ok y"
  using assms unfolding chan_ok_def by blast

lemma giving_okI:
  assumes "\<And>w l. y_phase y w = Giving l \<Longrightarrow> w < p_nwait (y_pool y) \<and> l < p_nlease (y_pool y) \<and>
      \<not> l_released (p_lease (y_pool y) l) \<and> l \<notin> y_held y"
    and "\<And>v w l. y_phase y v = Giving l \<Longrightarrow> y_phase y w = Giving l \<Longrightarrow> v = w"
  shows "giving_ok y"
  using assms unfolding giving_ok_def by blast

lemma ownedI:
  assumes "\<And>l. l \<in> y_held y \<Longrightarrow> l < p_nlease (y_pool y)"
    and "\<And>l. l < p_nlease (y_pool y) \<Longrightarrow> \<not> l_released (p_lease (y_pool y) l) \<Longrightarrow> placed y l"
  shows "owned y"
  using assms unfolding owned_def by blast

lemma placedI:
  shows placed_by_held: "l \<in> y_held y \<Longrightarrow> placed y l"
    and placed_by_chan: "p_chan (y_pool y) w = Some l \<Longrightarrow> placed y l"
    and placed_by_giving: "y_phase y w = Giving l \<Longrightarrow> placed y l"
  by (auto simp: placed_def)

lemma placedE:
  assumes "placed y l"
  obtains (held) "l \<in> y_held y" | (chan) w where "p_chan (y_pool y) w = Some l"
  | (giving) w where "y_phase y w = Giving l"
  using assms by (auto simp: placed_def)

subsection \<open>Dispatching places every new lease\<close>

lemma handed_queue_ok:
  assumes c: "counted (y_pool y)" and lp: "leases_placed y" and h: "handed name k (y_pool y) q"
  shows "queue_ok (y\<lparr>y_pool := q\<rparr>)"
proof (rule queue_okI)
  let ?p = "y_pool y" and ?y = "y\<lparr>y_pool := q\<rparr>"
  let ?ws = "s_waiters (svc ?p name)"
  note chan = handed_chan [OF c h]
  have nw: "p_nwait q = p_nwait ?p" and sv: "\<And>n. svc q n =
      (if n = name then (svc ?p n)\<lparr>s_waiters := drop k (s_waiters (svc ?p n))\<rparr> else svc ?p n)"
    using h by (auto simp: handed_def)
  have keep: "p_chan q w \<noteq> None" if "p_chan ?p w \<noteq> None" for w
    using that chan by fastforce
  fix w n
  show "w \<in> set (s_waiters (svc (y_pool ?y) n)) \<Longrightarrow> y_phase ?y w = Selecting \<and> y_name ?y w = n"
    using placed_queued [OF lp, of w n] by (auto simp: sv dest: in_set_dropD split: if_splits)
  show "w < p_nwait (y_pool ?y) \<Longrightarrow> y_phase ?y w = Leaving \<Longrightarrow> p_chan (y_pool ?y) w \<noteq> None"
    using placed_leaving [OF lp, of w] keep [of w] by (simp add: nw)
  assume w: "w < p_nwait (y_pool ?y)" "y_phase ?y w = Selecting"
  show "w \<in> set (s_waiters (svc (y_pool ?y) (y_name ?y w))) \<or> p_chan (y_pool ?y) w \<noteq> None"
  proof (cases "y_name y w = name \<and> w \<in> set (take k ?ws)")
    case True
    then obtain j where "j < k" "w = ?ws ! j"
      by (auto simp: in_set_conv_nth)
    then have "p_chan q w = Some (p_nlease ?p + j)"
      unfolding chan by blast
    then show ?thesis by simp
  next
    case False
    moreover have "w \<in> set (take k ?ws) \<or> w \<in> set (drop k ?ws)" if "w \<in> set ?ws"
      using that by (metis Un_iff append_take_drop_id set_append)
    ultimately show ?thesis
      using placed_selecting [OF lp, of w] keep [of w] w by (auto simp: sv nw)
  qed
qed

lemma handed_chan_ok:
  assumes c: "counted (y_pool y)" and lp: "leases_placed y" and h: "handed name k (y_pool y) q"
  shows "chan_ok (y\<lparr>y_pool := q\<rparr>)"
proof (rule chan_okI)
  let ?p = "y_pool y" and ?y = "y\<lparr>y_pool := q\<rparr>"
  let ?ws = "s_waiters (svc ?p name)"
  note chan = handed_chan [OF c h]
  have nl: "p_nlease q = p_nlease ?p + k" and nw: "p_nwait q = p_nwait ?p" and k: "k \<le> length ?ws"
    using h by (auto simp: handed_def)
  fix v w l
  show "p_chan (y_pool ?y) v = Some l \<Longrightarrow> p_chan (y_pool ?y) w = Some l \<Longrightarrow> v = w"
    using placed_unique [OF lp, of v l w] placed_chan [OF lp, of v l] placed_chan [OF lp, of w l]
      chan [of v l] chan [of w l] by auto
  assume "p_chan (y_pool ?y) w = Some l"
  then consider "p_chan ?p w = Some l" | j where "j < k" "w = ?ws ! j" "l = p_nlease ?p + j"
    using chan by auto
  then show "w < p_nwait (y_pool ?y) \<and> (y_phase ?y w = Selecting \<or> y_phase ?y w = Leaving) \<and>
      l < p_nlease (y_pool ?y) \<and> \<not> l_released (p_lease (y_pool ?y) l) \<and> l \<notin> y_held ?y \<and>
      (\<forall>v. y_phase ?y v \<noteq> Giving l)"
  proof cases
    case 1
    then show ?thesis
      using placed_chan [OF lp 1] h by (simp add: handed_def)
  next
    case 2
    have "w \<in> set ?ws" and "\<not> l_released (p_lease q l)"
      using 2 k h by (auto simp: handed_def)
    then show ?thesis
      using 2 counted_waiter [OF c] placed_queued [OF lp] placed_held [OF lp, of l]
        placed_giving [OF lp, of _ l] by (auto simp: nl nw)
  qed
qed

lemma handed_owned:
  assumes c: "counted (y_pool y)" and lp: "leases_placed y" and h: "handed name k (y_pool y) q"
  shows "owned (y\<lparr>y_pool := q\<rparr>)"
  unfolding owned_def
proof (intro conjI ballI allI impI)
  let ?p = "y_pool y" and ?y = "y\<lparr>y_pool := q\<rparr>"
  let ?ws = "s_waiters (svc ?p name)"
  note chan = handed_chan [OF c h]
  have nl: "p_nlease q = p_nlease ?p + k"
    using h by (simp add: handed_def)
  fix l
  show "l \<in> y_held ?y \<Longrightarrow> l < p_nlease (y_pool ?y)"
    using placed_held [OF lp, of l] by (simp add: nl)
  assume l: "l < p_nlease (y_pool ?y)" "\<not> l_released (p_lease (y_pool ?y) l)"
  show "placed ?y l"
  proof (cases "l < p_nlease ?p")
    case True
    then have "placed y l"
      using l h by (intro placed_live [OF lp]) (auto simp: handed_def)
    then show ?thesis
      using chan by (auto simp: placed_def)
  next
    case False
    then have "p_chan q (?ws ! (l - p_nlease ?p)) = Some l"
      unfolding chan using l nl by (intro disjI2 exI [of _ "l - p_nlease ?p"]) auto
    then show ?thesis
      by (auto simp: placed_def)
  qed
qed

lemma handed_placed:
  assumes c: "counted (y_pool y)" and lp: "leases_placed y" and h: "handed name k (y_pool y) q"
  shows "leases_placed (y\<lparr>y_pool := q\<rparr>)"
proof -
  have "p_nlease (y_pool y) \<le> p_nlease q" "p_nwait q = p_nwait (y_pool y)"
    "\<And>l. l < p_nlease (y_pool y) \<Longrightarrow> p_lease q l = p_lease (y_pool y) l"
    using h by (auto simp: handed_def)
  then have "giving_ok (y\<lparr>y_pool := q\<rparr>)"
    using placed_giving [OF lp] placed_giver [OF lp]
    by (intro giving_okI) (fastforce intro: less_le_trans)+
  then show ?thesis
    using handed_queue_ok [OF assms] handed_chan_ok [OF assms] handed_owned [OF assms]
    by (simp add: leases_placed_def)
qed

subsection \<open>Every step keeps the leases placed\<close>

lemma leases_placed_cong:
  assumes "\<And>n. s_waiters (svc q n) = s_waiters (svc (y_pool y) n)" "p_chan q = p_chan (y_pool y)"
    "p_nwait q = p_nwait (y_pool y)" "p_nlease q = p_nlease (y_pool y)" "p_lease q = p_lease (y_pool y)"
  shows "leases_placed (y\<lparr>y_pool := q\<rparr>) \<longleftrightarrow> leases_placed y"
  by (simp add: leases_placed_def queue_ok_def chan_ok_def giving_ok_def owned_def placed_def assms)

lemma dispatch_placed:
  assumes "counted p" "leases_placed (y\<lparr>y_pool := p\<rparr>)"
  shows "leases_placed (y\<lparr>y_pool := dispatch name p\<rparr>)"
proof -
  obtain k where "handed name k p (dispatch name p)"
    using dispatch_handed [OF assms(1)] by blast
  then show ?thesis
    using handed_placed [of "y\<lparr>y_pool := p\<rparr>" name k "dispatch name p"] assms by simp
qed

lemma add_placed:
  assumes lp: "leases_placed y" and c: "counted (y_pool y)"
    and new: "new_provider peer service slots prio target (y_pool y) = (i, q)"
  shows "leases_placed (y\<lparr>y_pool := Add i q\<rparr>)"
proof -
  note sel = new_provider_sel(2-) [OF new]
  have "leases_placed (y\<lparr>y_pool := join service i q\<rparr>)"
    using lp by (subst leases_placed_cong) (simp_all add: sel)
  then show ?thesis
    using dispatch_placed [OF join_counted [OF c new]] by (simp add: Add_def sel)
qed

lemma remove_placed:
  assumes "leases_placed y" "counted (y_pool y)" "i < p_nprov (y_pool y)"
  shows "leases_placed (y\<lparr>y_pool := Remove i (y_pool y)\<rparr>)"
  using assms by (subst leases_placed_cong) (simp_all add: Remove_sel)

lemma got_placed:
  assumes lp: "leases_placed y" and c: "counted (y_pool y)"
    and t: "take_slot name i (service_of name (y_pool y)) = (l, q)"
  shows "leases_placed (y\<lparr>y_pool := q, y_held := insert l (y_held y)\<rparr>)"
proof -
  note sel = take_slot_sel(2-) [OF t]
  have l: "p_nlease (y_pool y) = l"
    using take_slot_sel(1) [OF t] by simp
  let ?y = "y\<lparr>y_pool := q, y_held := insert l (y_held y)\<rparr>"
  have "queue_ok ?y"
    using lp by (simp add: leases_placed_def queue_ok_def sel)
  moreover have "chan_ok ?y"
    using placed_chan [OF lp] placed_unique [OF lp] by (intro chan_okI) (fastforce simp: sel l)+
  moreover have "giving_ok ?y"
    using placed_giving [OF lp] placed_giver [OF lp] by (intro giving_okI) (fastforce simp: sel l)+
  moreover have "owned ?y"
    using placed_held [OF lp] placed_live [OF lp]
    by (intro ownedI) (fastforce simp: sel l placed_def less_Suc_eq split: if_splits)+
  ultimately show ?thesis
    by (simp add: leases_placed_def)
qed

lemma enqueue_sel:
  assumes "enqueue name front p = (w, q)"
  shows "w = p_nwait p" "p_prov q = p_prov p" "p_nprov q = p_nprov p" "p_lease q = p_lease p"
    "p_nlease q = p_nlease p" "p_chan q = (p_chan p)(w := None)" "p_nwait q = Suc w"
    "\<And>n. s_waiters (svc q n) = (if n = name then (if front then w # s_waiters (svc p name)
        else s_waiters (svc p name) @ [w]) else s_waiters (svc p n))"
    "\<And>n. s_providers (svc q n) = s_providers (svc p n)"
  using assms by (auto simp: enqueue_def Let_def)

lemma queued_placed:
  assumes lp: "leases_placed y" and c: "counted (y_pool y)"
    and e: "enqueue name front (service_of name (y_pool y)) = (w, q)"
  shows "leases_placed (y\<lparr>y_pool := q, y_phase := (y_phase y)(w := Selecting),
    y_name := (y_name y)(w := name)\<rparr>)" (is "leases_placed ?y")
proof -
  note sel = enqueue_sel(2-) [OF e]
  have w: "p_nwait (y_pool y) = w"
    using enqueue_sel(1) [OF e] by simp
  have none: "p_chan (y_pool y) w = None"
    using placed_chan [OF lp, of w] w by (cases "p_chan (y_pool y) w") auto
  have nog: "y_phase y w \<noteq> Giving l" for l
    using placed_giving [OF lp, of w l] w by auto
  have old: "w \<notin> set (s_waiters (svc (y_pool y) n))" for n
    using counted_waiter [OF c, of w n] w by auto
  have "queue_ok ?y"
  proof (rule queue_okI)
    fix v n
    show "v \<in> set (s_waiters (svc (y_pool ?y) n)) \<Longrightarrow> y_phase ?y v = Selecting \<and> y_name ?y v = n"
      using placed_queued [OF lp, of v n] old [of n] by (auto simp: sel split: if_splits)
    show "v < p_nwait (y_pool ?y) \<Longrightarrow> y_phase ?y v = Selecting \<Longrightarrow>
        v \<in> set (s_waiters (svc (y_pool ?y) (y_name ?y v))) \<or> p_chan (y_pool ?y) v \<noteq> None"
      using placed_selecting [OF lp, of v] by (auto simp: sel w less_Suc_eq)
    show "v < p_nwait (y_pool ?y) \<Longrightarrow> y_phase ?y v = Leaving \<Longrightarrow> p_chan (y_pool ?y) v \<noteq> None"
      using placed_leaving [OF lp, of v] by (auto simp: sel w less_Suc_eq split: if_splits)
  qed
  moreover have "chan_ok ?y"
  proof (rule chan_okI)
    fix v u l
    show "p_chan (y_pool ?y) v = Some l \<Longrightarrow> p_chan (y_pool ?y) u = Some l \<Longrightarrow> v = u"
      using placed_unique [OF lp, of v l u] by (simp add: sel split: if_splits)
    show "p_chan (y_pool ?y) v = Some l \<Longrightarrow> v < p_nwait (y_pool ?y) \<and>
        (y_phase ?y v = Selecting \<or> y_phase ?y v = Leaving) \<and> l < p_nlease (y_pool ?y) \<and>
        \<not> l_released (p_lease (y_pool ?y) l) \<and> l \<notin> y_held ?y \<and> (\<forall>u. y_phase ?y u \<noteq> Giving l)"
      using placed_chan [OF lp, of v l] by (simp add: sel w split: if_splits)
  qed
  moreover have "giving_ok ?y"
  proof (rule giving_okI)
    fix v u l
    show "y_phase ?y v = Giving l \<Longrightarrow> v < p_nwait (y_pool ?y) \<and> l < p_nlease (y_pool ?y) \<and>
        \<not> l_released (p_lease (y_pool ?y) l) \<and> l \<notin> y_held ?y"
      using placed_giving [OF lp, of v l] by (simp add: sel w split: if_splits)
    show "y_phase ?y v = Giving l \<Longrightarrow> y_phase ?y u = Giving l \<Longrightarrow> v = u"
      using placed_giver [OF lp, of v l u] by (simp split: if_splits)
  qed
  moreover have "placed ?y l" if "placed y l" for l
    using that
  proof (cases rule: placedE)
    case (chan v)
    with none have "p_chan (y_pool ?y) v = Some l"
      by (auto simp: sel)
    then show ?thesis
      by (rule placed_by_chan)
  next
    case (giving v)
    with nog have "y_phase ?y v = Giving l"
      by auto
    then show ?thesis
      by (rule placed_by_giving)
  qed (simp add: placed_def)
  then have "owned ?y"
    using placed_held [OF lp] placed_live [OF lp] by (intro ownedI) (auto simp: sel)
  ultimately show ?thesis
    by (simp add: leases_placed_def)
qed

lemma recv_lease_sel:
  assumes "recv_lease w p = Some (l, q)"
  shows "p_chan p w = Some l" "q = p\<lparr>p_chan := (p_chan p)(w := None)\<rparr>"
  using assms by (auto simp: recv_lease_def split: option.splits)

text \<open>A lease leaves its channel for the holder's hands, or for those of a job giving up.\<close>

lemma moved_placed:
  assumes lp: "leases_placed y" and c: "counted (y_pool y)"
    and r: "recv_lease w (y_pool y) = Some (l, q)"
    and to: "ph = Left \<and> H = insert l (y_held y) \<or> ph = Giving l \<and> H = y_held y"
  shows "leases_placed (y\<lparr>y_pool := q, y_phase := (y_phase y)(w := ph), y_held := H\<rparr>)"
    (is "leases_placed ?y")
proof -
  note sel = recv_lease_sel [OF r]
  note here = placed_chan [OF lp sel(1)]
  have only: "v = w" if "p_chan (y_pool y) v = Some l" for v
    using placed_unique [OF lp that sel(1)] .
  have out: "w \<notin> set (s_waiters (svc (y_pool y) n))" for n
    using counted_waiter [OF c, of w n] sel(1) by auto
  have ph: "ph \<noteq> Selecting" "ph \<noteq> Leaving" "ph = Giving m \<Longrightarrow> m = l \<and> H = y_held y" for m
    using to by auto
  have H: "m \<in> H \<Longrightarrow> m = l \<and> ph = Left \<or> m \<in> y_held y" for m
    using to by auto
  have "queue_ok ?y"
  proof (rule queue_okI)
    fix v n
    show "v \<in> set (s_waiters (svc (y_pool ?y) n)) \<Longrightarrow> y_phase ?y v = Selecting \<and> y_name ?y v = n"
      using placed_queued [OF lp, of v n] out [of n] by (auto simp: sel)
    show "v < p_nwait (y_pool ?y) \<Longrightarrow> y_phase ?y v = Selecting \<Longrightarrow>
        v \<in> set (s_waiters (svc (y_pool ?y) (y_name ?y v))) \<or> p_chan (y_pool ?y) v \<noteq> None"
      using placed_selecting [OF lp, of v] ph by (auto simp: sel split: if_splits)
    show "v < p_nwait (y_pool ?y) \<Longrightarrow> y_phase ?y v = Leaving \<Longrightarrow> p_chan (y_pool ?y) v \<noteq> None"
      using placed_leaving [OF lp, of v] ph by (auto simp: sel split: if_splits)
  qed
  moreover have "chan_ok ?y"
  proof (rule chan_okI)
    fix v u m
    show "p_chan (y_pool ?y) v = Some m \<Longrightarrow> p_chan (y_pool ?y) u = Some m \<Longrightarrow> v = u"
      using placed_unique [OF lp, of v m u] by (simp add: sel split: if_splits)
    assume "p_chan (y_pool ?y) v = Some m"
    then have v: "v \<noteq> w" "p_chan (y_pool y) v = Some m"
      by (auto simp: sel split: if_splits)
    then have "m \<noteq> l"
      using only by blast
    then have "m \<notin> H" "ph \<noteq> Giving m"
      using H [of m] ph(3) [of m] placed_chan [OF lp v(2)] by blast+
    with v placed_chan [OF lp v(2)] show "v < p_nwait (y_pool ?y) \<and>
        (y_phase ?y v = Selecting \<or> y_phase ?y v = Leaving) \<and> m < p_nlease (y_pool ?y) \<and>
        \<not> l_released (p_lease (y_pool ?y) m) \<and> m \<notin> y_held ?y \<and> (\<forall>u. y_phase ?y u \<noteq> Giving m)"
      by (simp add: sel(2))
  qed
  moreover have "giving_ok ?y"
  proof (rule giving_okI)
    fix v u m
    show "y_phase ?y v = Giving m \<Longrightarrow> v < p_nwait (y_pool ?y) \<and> m < p_nlease (y_pool ?y) \<and>
        \<not> l_released (p_lease (y_pool ?y) m) \<and> m \<notin> y_held ?y"
      using placed_giving [OF lp, of v m] here ph(3) [of m] H [of m]
      by (auto simp: sel split: if_splits)
    show "y_phase ?y v = Giving m \<Longrightarrow> y_phase ?y u = Giving m \<Longrightarrow> v = u"
      using placed_giver [OF lp, of v m u] here ph(3) [of m] by (auto split: if_splits)
  qed
  moreover have "placed ?y m" if "placed y m" for m
  proof (cases "m = l")
    case True
    then show ?thesis
      using to placed_by_held [of l ?y] placed_by_giving [of ?y w l] by auto
  next
    case False
    from that show ?thesis
    proof (cases rule: placedE)
      case held
      then show ?thesis using to by (intro placed_by_held) auto
    next
      case (chan v)
      then show ?thesis using False sel by (intro placed_by_chan [of _ v]) auto
    next
      case (giving v)
      then show ?thesis using here by (intro placed_by_giving [of _ v]) auto
    qed
  qed
  then have "owned ?y"
    using placed_held [OF lp] placed_live [OF lp] here H by (intro ownedI) (auto simp: sel)
  ultimately show ?thesis
    by (simp add: leases_placed_def)
qed

text \<open>A job that gives up is either still queued, and leaves, or already has its lease.\<close>

lemma abandoned_placed:
  assumes lp: "leases_placed y" and c: "counted (y_pool y)"
    and w: "w < p_nwait (y_pool y)" "y_phase y w = Selecting"
    and a: "abandon_search (y_name y w) w (y_pool y) = (b, q)"
  shows "leases_placed (y\<lparr>y_pool := q, y_phase := (y_phase y)(w := if b then Left else Leaving)\<rparr>)"
    (is "leases_placed ?y")
proof -
  let ?n = "y_name y w"
  have b: "b \<longleftrightarrow> w \<in> set (s_waiters (svc (y_pool y) ?n))"
    and sv: "s_waiters (svc q n) = (if n = ?n then remove1 w (s_waiters (svc (y_pool y) n))
      else s_waiters (svc (y_pool y) n))"
    and [simp]: "p_chan q = p_chan (y_pool y)" "p_nwait q = p_nwait (y_pool y)"
      "p_nlease q = p_nlease (y_pool y)" "p_lease q = p_lease (y_pool y)" for n
    using a by (auto simp: abandon_search_def remove1_idem split: if_splits)
  have mem: "v \<in> set (s_waiters (svc q n)) \<longleftrightarrow> v \<in> set (s_waiters (svc (y_pool y) n)) \<and> v \<noteq> w" for v n
    using counted_waiters [OF c, of n] placed_queued [OF lp, of w n] by (auto simp: sv)
  have none: "b \<Longrightarrow> p_chan (y_pool y) w = None"
    using counted_waiter [OF c, of w ?n] b by simp
  have "queue_ok ?y"
  proof (rule queue_okI)
    fix v n
    show "v \<in> set (s_waiters (svc (y_pool ?y) n)) \<Longrightarrow> y_phase ?y v = Selecting \<and> y_name ?y v = n"
      using placed_queued [OF lp, of v n] by (simp add: mem)
    show "v < p_nwait (y_pool ?y) \<Longrightarrow> y_phase ?y v = Selecting \<Longrightarrow>
        v \<in> set (s_waiters (svc (y_pool ?y) (y_name ?y v))) \<or> p_chan (y_pool ?y) v \<noteq> None"
      using placed_selecting [OF lp, of v] by (auto simp: mem split: if_splits)
    show "v < p_nwait (y_pool ?y) \<Longrightarrow> y_phase ?y v = Leaving \<Longrightarrow> p_chan (y_pool ?y) v \<noteq> None"
      using placed_leaving [OF lp, of v] placed_selecting [OF lp w] b by (auto split: if_splits)
  qed
  moreover have "chan_ok ?y"
    using placed_chan [OF lp] placed_unique [OF lp] none
    by (intro chan_okI) (auto split: if_splits)
  moreover have "giving_ok ?y"
    using placed_giving [OF lp] placed_giver [OF lp]
    by (intro giving_okI) (auto split: if_splits)
  moreover have "placed ?y l" if "placed y l" for l
    using that
  proof (cases rule: placedE)
    case (giving v)
    then show ?thesis
      using w by (intro placed_by_giving [of _ v]) auto
  qed (auto simp: placed_def)
  then have "owned ?y"
    using placed_held [OF lp] placed_live [OF lp] by (intro ownedI) auto
  ultimately show ?thesis
    by (simp add: leases_placed_def)
qed

text \<open>A lease is given back by its holder, or by the job that gave up after getting it.\<close>

lemma unlease_placed:
  assumes lp: "leases_placed y"
    and how: "l \<in> y_held y \<and> Ph = y_phase y \<or> y_phase y w = Giving l \<and> Ph = (y_phase y)(w := Left)"
  shows "leases_placed (y\<lparr>y_pool := unlease l (y_pool y), y_phase := Ph\<rparr>)" (is "leases_placed ?y")
proof -
  have sel: "Ph v = Selecting \<longleftrightarrow> y_phase y v = Selecting" "Ph v = Leaving \<longleftrightarrow> y_phase y v = Leaving" for v
    using how by (auto split: if_splits)
  have giv: "Ph v = Giving m \<longleftrightarrow> y_phase y v = Giving m \<and> m \<noteq> l" for v m
    using how
  proof
    assume "l \<in> y_held y \<and> Ph = y_phase y"
    then show ?thesis
      using placed_giving [OF lp, of v m] by auto
  next
    assume *: "y_phase y w = Giving l \<and> Ph = (y_phase y)(w := Left)"
    show ?thesis
      using * placed_giver [OF lp, of v l w] by (cases "v = w") auto
  qed
  have chan: "p_chan (y_pool y) v \<noteq> Some l" for v
    using placed_chan [OF lp, of v l] how by auto
  have "queue_ok ?y"
    using lp by (simp add: leases_placed_def queue_ok_def unlease_sel sel)
  moreover have "chan_ok ?y"
  proof (rule chan_okI)
    fix v u m
    show "p_chan (y_pool ?y) v = Some m \<Longrightarrow> p_chan (y_pool ?y) u = Some m \<Longrightarrow> v = u"
      using placed_unique [OF lp, of v m u] by (simp add: unlease_sel)
    show "p_chan (y_pool ?y) v = Some m \<Longrightarrow> v < p_nwait (y_pool ?y) \<and>
        (y_phase ?y v = Selecting \<or> y_phase ?y v = Leaving) \<and> m < p_nlease (y_pool ?y) \<and>
        \<not> l_released (p_lease (y_pool ?y) m) \<and> m \<notin> y_held ?y \<and> (\<forall>u. y_phase ?y u \<noteq> Giving m)"
      using placed_chan [OF lp, of v m] chan [of v] by (cases "m = l") (simp_all add: unlease_sel sel giv)
  qed
  moreover have "giving_ok ?y"
    using placed_giving [OF lp] placed_giver [OF lp] giv
    by (intro giving_okI) (auto simp: unlease_sel)
  moreover have "owned ?y"
    using placed_held [OF lp] placed_live [OF lp]
    by (intro ownedI) (auto simp: unlease_sel placed_def giv split: if_splits)
  ultimately show ?thesis
    by (simp add: leases_placed_def)
qed

lemma release_placed:
  assumes lp: "leases_placed y" and c: "counted (y_pool y)"
    and how: "l \<in> y_held y \<and> Ph = y_phase y \<or> y_phase y w = Giving l \<and> Ph = (y_phase y)(w := Left)"
  shows "leases_placed (y\<lparr>y_pool := Release l (y_pool y), y_phase := Ph\<rparr>)"
proof (cases "l_released (p_lease (y_pool y) l)")
  case True
  with how placed_giving [OF lp, of w l] lp show ?thesis
    by (auto simp: Release_def)
next
  case False
  have "l < p_nlease (y_pool y)"
    using how placed_held [OF lp, of l] placed_giving [OF lp, of w l] by blast
  note cu = unlease_counted [OF c this False]
  have eq: "y\<lparr>y_pool := p, y_phase := Ph\<rparr> = y\<lparr>y_phase := Ph, y_pool := p\<rparr>" for p
    by simp
  show ?thesis
    using dispatch_placed [OF cu] unlease_placed [OF lp how] False
    unfolding eq by (simp add: Release_def)
qed

lemma pool_inv_counted: "pool_inv p \<Longrightarrow> counted p"
  by (simp add: pool_inv_def)

lemma pool_step_inv:
  assumes "pool_step y z" "sys_inv y"
  shows "sys_inv z"
  using assms
proof (induction rule: pool_step.induct)
  case (add peer service slots prio target y i q)
  then show ?case
    using add_placed [of y peer service slots prio target i q]
      Add_inv [of "y_pool y" peer service slots prio target i q] by (simp add: sys_inv_def pool_inv_counted)
next
  case (remove i y)
  then show ?case
    using remove_placed [of y i] Remove_inv [of "y_pool y" i] by (simp add: sys_inv_def pool_inv_counted)
next
  case (got name front y l q)
  from got(1) obtain i where "take_slot name i (service_of name (y_pool y)) = (l, q)"
    by (cases rule: Acquire_enter_cases) auto
  with got show ?case
    using got_placed [of y name i l q] Acquire_enter_inv [OF _ got(1)]
    by (simp add: sys_inv_def pool_inv_counted)
next
  case (queued name front y w q)
  from queued(1) have "enqueue name front (service_of name (y_pool y)) = (w, q)"
    by (cases rule: Acquire_enter_cases) auto
  with queued show ?case
    using queued_placed [of y name front w q] Acquire_enter_inv [OF _ queued(1)]
    by (simp add: sys_inv_def pool_inv_counted)
next
  case (recv w y l q)
  then show ?case
    using moved_placed [of y w l q Left "insert l (y_held y)"] recv_lease_inv [of "y_pool y" w l q]
    by (simp add: sys_inv_def pool_inv_counted)
next
  case (give_up w y b q)
  then show ?case
    using abandoned_placed [of y w b q] abandon_search_inv [of "y_pool y" "y_name y w" w b q]
    by (simp add: sys_inv_def pool_inv_counted)
next
  case (drain w y l q)
  then show ?case
    using moved_placed [of y w l q "Giving l" "y_held y"] recv_lease_inv [of "y_pool y" w l q]
    by (simp add: sys_inv_def pool_inv_counted)
next
  case (drain_none w y)
  then show ?case
    using placed_leaving [of y w] by (auto simp: sys_inv_def recv_lease_def split: option.splits)
next
  case (give y w l)
  then show ?case
    using release_placed [of y l "(y_phase y)(w := Left)" w] placed_giving [of y w l] Release_inv [of "y_pool y" l]
    by (simp add: sys_inv_def pool_inv_counted)
next
  case (release l y)
  then show ?case
    using release_placed [of y l "y_phase y"] placed_held [of y l] Release_inv [of "y_pool y" l]
    by (simp add: sys_inv_def pool_inv_counted)
qed

interpretation pool_sys: transition_system "\<lambda>y. y = init_sys t" pool_step sys_inv
  by unfold_locales (auto simp: init_sys_inv intro: pool_step_inv)

text \<open>The states the pool can be in when its queue timeout is \<open>t\<close>.\<close>

definition reachable :: "int \<Rightarrow> 't psys \<Rightarrow> bool" where
  "reachable t y \<longleftrightarrow> pool_step\<^sup>*\<^sup>* (init_sys t) y"

lemma reachable_sys_inv: "reachable t y \<Longrightarrow> sys_inv y"
  unfolding reachable_def by (rule pool_sys.reachable_inv [OF refl])

lemma reachable_step: "reachable t y \<Longrightarrow> pool_step y z \<Longrightarrow> reachable t z"
  unfolding reachable_def by (rule rtranclp.rtrancl_into_rtrancl)

lemma reachable_counted: "reachable t y \<Longrightarrow> counted (y_pool y)"
  using reachable_sys_inv by (auto simp: sys_inv_def pool_inv_def)

lemma reachable_conserving: "reachable t y \<Longrightarrow> conserving (y_pool y) n"
  using reachable_sys_inv by (auto simp: sys_inv_def pool_inv_def)

lemma reachable_placed: "reachable t y \<Longrightarrow> leases_placed y"
  using reachable_sys_inv by (auto simp: sys_inv_def)

subsection \<open>A run\<close>

text \<open>
  A provider of one slot joins, the first job takes the slot and two more wait: the state the
  theorems below are tried on.
\<close>

definition run_provider :: "unit psys" where
  "run_provider = (init_sys 9)\<lparr>y_pool := Add 0 (snd (new_provider ''p'' ''s'' 1 0 () (New 9)))\<rparr>"

definition run_got :: "unit psys" where
  "run_got = run_provider\<lparr>y_pool := snd (Acquire_enter ''s'' False (y_pool run_provider)),
     y_held := insert 0 (y_held run_provider)\<rparr>"

definition run_wait :: "unit psys \<Rightarrow> nat \<Rightarrow> unit psys" where
  "run_wait y w = y\<lparr>y_pool := snd (Acquire_enter ''s'' False (y_pool y)),
     y_phase := (y_phase y)(w := Selecting), y_name := (y_name y)(w := ''s'')\<rparr>"

definition run_full :: "unit psys" where
  "run_full = run_wait (run_wait run_got 0) 1"

lemma run_facts:
  "fst (Acquire_enter ''s'' False (y_pool run_provider)) = Got 0"
  "fst (Acquire_enter ''s'' False (y_pool run_got)) = Queued 0"
  "fst (Acquire_enter ''s'' False (y_pool (run_wait run_got 0))) = Queued 1"
  "s_waiters (svc (y_pool run_full) ''s'') = [0, 1]"
  "s_providers (svc (y_pool run_full) ''s'') = [0]"
  "p_nprov (y_pool run_full) = 1" "p_nlease (y_pool run_full) = 1"
  "busy (p_prov (y_pool run_full) 0) = 1"
  by code_simp+

lemma run_reachable: "reachable 9 run_full"
proof -
  have "reachable 9 (init_sys 9 :: unit psys)"
    by (simp add: reachable_def)
  moreover have "pool_step (init_sys 9) run_provider"
    unfolding run_provider_def
    by (rule pool_step.add [of "''p''" "''s''" 1 0 "()"]) (simp add: init_sys_def new_provider_def New_def)
  moreover have "pool_step run_provider run_got"
    unfolding run_got_def by (rule pool_step.got [of "''s''" False]) (simp add: run_facts(1) prod_eq_iff)
  moreover have "pool_step run_got (run_wait run_got 0)"
    unfolding run_wait_def by (rule pool_step.queued [of "''s''" False]) (simp add: run_facts(2) prod_eq_iff)
  moreover have "pool_step (run_wait run_got 0) run_full"
    unfolding run_full_def run_wait_def [of "run_wait run_got 0"]
    by (rule pool_step.queued [of "''s''" False]) (simp add: run_facts(3) prod_eq_iff)
  ultimately show ?thesis
    by (blast intro: reachable_step)
qed
end
