(* ===== verification/Pool_Theorems.thy ===== *)
theory Pool_Theorems
  imports Pool_System
begin

text \<open>
  The properties of \<^verbatim>\<open>internal/pool\<close>, over the states its goroutines can reach: the choice of a
  provider, slot accounting, queue order, work conservation, and what becomes of a lease when its
  job gives up.
\<close>

text \<open>
  \<open>best\<close> returns a provider of the service that is connected and has a free slot, with the
  smallest priority number among those, and among equal priorities the most free slots; it
  returns nothing exactly when no provider of the service has a free slot.
\<close>

theorem best_choice:
  "case best p name of
     None \<Rightarrow> \<forall>i \<in> set (s_providers (svc p name)). \<not> eligible (p_prov p i)
   | Some i \<Rightarrow> i \<in> set (s_providers (svc p name)) \<and> eligible (p_prov p i) \<and>
       (\<forall>j \<in> set (s_providers (svc p name)). eligible (p_prov p j) \<longrightarrow>
          Priority (p_prov p i) < Priority (p_prov p j) \<or>
          Priority (p_prov p i) = Priority (p_prov p j) \<and> free (p_prov p j) \<le> free (p_prov p i))"
proof (cases "best p name")
  case None
  then show ?thesis
    using best_None_iff [of p name] by simp
next
  case (Some i)
  have "\<not> beats (p_prov p j) (p_prov p i)"
    if "j \<in> set (s_providers (svc p name))" "eligible (p_prov p j)" for j
    using best_from_max [of "p_prov p" None _ i j] Some that by (simp add: best_def)
  with best_Some [OF Some] Some show ?thesis
    by (fastforce simp: beats_def)
qed

theorem best_choice_witness:
  "best (Add 1 (snd (new_provider ''b'' ''s'' 2 0 () (Add 0 (snd (new_provider ''a'' ''s'' 9 1 () (New 9))))))) ''s'' = Some 1 \<and>
   Priority (p_prov (Add 1 (snd (new_provider ''b'' ''s'' 2 0 () (Add 0 (snd (new_provider ''a'' ''s'' 9 1 () (New 9))))))) 1) \<le> 1"
proof -
  let ?p = "Add 1 (snd (new_provider ''b'' ''s'' 2 0 () (Add 0 (snd (new_provider ''a'' ''s'' 9 1 () (New 9))))))"
  have b: "best ?p ''s'' = Some 1" and "0 \<in> set (s_providers (svc ?p ''s''))"
    "busy (p_prov ?p 0) < uint (Slots (p_prov ?p 0))" "\<not> gone (p_prov ?p 0)" "Priority (p_prov ?p 0) = 1"
    by code_simp+
  then show ?thesis
    using best_choice [of ?p "''s''"] by (fastforce simp: eligible_def)
qed

text \<open>
  C2. Slots are counted exactly and never over-subscribed: in every reachable state, for every
  provider, \<open>busy\<close> is the number of its leases that have not been released, and that number is at
  most the slots it advertised.
\<close>

theorem slots_never_oversubscribed:
  assumes "reachable t y" "i < p_nprov (y_pool y)"
  shows "busy (p_prov (y_pool y) i) = int (card (live (y_pool y) i)) \<and>
    card (live (y_pool y) i) \<le> unat (Slots (p_prov (y_pool y) i))"
  using counted_slots [OF reachable_counted [OF assms(1)] assms(2)] .

theorem slots_never_oversubscribed_witness:
  "busy (p_prov (y_pool run_full) 0) = 1 \<and> card (live (y_pool run_full) 0) \<le> unat (1 :: u16)"
proof -
  have "Slots (p_prov (y_pool run_full) 0) = 1"
    by code_simp
  then show ?thesis
    using slots_never_oversubscribed [OF run_reachable, of 0] run_facts by simp
qed

text \<open>
  C4. No slot idles while a job waits for it: in every reachable state, if a service has jobs
  queued then every one of its providers has all its slots in use.
\<close>

theorem no_idle_slot:
  assumes "reachable t y" "s_waiters (svc (y_pool y) name) \<noteq> []"
    "i \<in> set (s_providers (svc (y_pool y) name))"
  shows "busy (p_prov (y_pool y) i) = int (unat (Slots (p_prov (y_pool y) i)))"
proof -
  note c = reachable_counted [OF assms(1)]
  have "best (y_pool y) name = None"
    using reachable_conserving [OF assms(1), of name] assms(2) by (simp add: conserving_def)
  with assms(3) have "\<not> eligible (p_prov (y_pool y) i)"
    by (simp add: best_None_iff)
  with counted_provider [OF c assms(3)] counted_slots [OF c, of i] show ?thesis
    by (simp add: eligible_def del: of_nat_unat)
qed

theorem no_idle_slot_witness:
  "busy (p_prov (y_pool run_full) 0) = int (unat (Slots (p_prov (y_pool run_full) 0)))"
  using no_idle_slot [OF run_reachable, of "''s''" 0] run_facts by simp

text \<open>
  C11. Jobs are served oldest first: on a state whose slots are counted, \<open>dispatch\<close> takes exactly
  the first \<open>k\<close> jobs from the head of the queue, gives the \<open>j\<close>-th of them a new lease on a
  provider of this service, and stops only when the queue is empty or no provider has a free slot.
\<close>

theorem dispatch_oldest_first:
  assumes "counted p"
  shows "\<exists>k \<le> length (s_waiters (svc p name)).
    s_waiters (svc (dispatch name p) name) = drop k (s_waiters (svc p name)) \<and>
    (k = length (s_waiters (svc p name)) \<or> best (dispatch name p) name = None) \<and>
    (\<forall>j < k. \<exists>l. p_chan (dispatch name p) (s_waiters (svc p name) ! j) = Some l \<and>
       l = p_nlease p + j \<and> \<not> l_released (p_lease (dispatch name p) l) \<and>
       l_provider (p_lease (dispatch name p) l) \<in> set (s_providers (svc p name)))"
proof -
  obtain k where h: "handed name k p (dispatch name p)"
    using dispatch_handed [OF assms] by blast
  moreover have "conserving (dispatch name p) name"
    by (rule dispatch_conserving)
  ultimately show ?thesis
    by (intro exI [of _ k]) (auto simp: handed_def conserving_def)
qed

definition freed :: "unit pool" where
  "freed = unlease 0 (y_pool run_full)"

theorem dispatch_oldest_first_witness:
  "s_waiters (svc (dispatch ''s'' freed) ''s'') = [1] \<and> (\<exists>l. p_chan (dispatch ''s'' freed) 0 = Some l)"
proof -
  have "\<not> l_released (p_lease (y_pool run_full) 0)"
    by code_simp
  then have c: "counted freed"
    unfolding freed_def by (intro unlease_counted reachable_counted [OF run_reachable]) (simp_all add: run_facts)
  have sw: "s_waiters (svc freed ''s'') = [0, 1]" "s_waiters (svc (dispatch ''s'' freed) ''s'') = [1]"
    by code_simp+
  obtain k where "s_waiters (svc (dispatch ''s'' freed) ''s'') = drop k (s_waiters (svc freed ''s''))"
      "\<forall>j < k. \<exists>l. p_chan (dispatch ''s'' freed) (s_waiters (svc freed ''s'') ! j) = Some l"
    using dispatch_oldest_first [OF c, of "''s''"] by blast
  moreover from this(1) sw have "0 < k"
    by (cases k) auto
  ultimately show ?thesis
    using sw by auto
qed

text \<open>
  C3. No lease is lost or shared: in every reachable state a lease that has not been released is
  in exactly one of three places, the hands of a caller of \<open>Acquire\<close>, the channel of one waiting
  job, or the hands of one job that is giving up and is about to release it.
\<close>

theorem lease_in_one_place:
  assumes "reachable t y" "l < p_nlease (y_pool y)" "\<not> l_released (p_lease (y_pool y) l)"
  shows "(l \<in> y_held y \<and> (\<forall>w. p_chan (y_pool y) w \<noteq> Some l) \<and> (\<forall>w. y_phase y w \<noteq> Giving l)) \<or>
    (l \<notin> y_held y \<and> (\<exists>!w. p_chan (y_pool y) w = Some l) \<and> (\<forall>w. y_phase y w \<noteq> Giving l)) \<or>
    (l \<notin> y_held y \<and> (\<forall>w. p_chan (y_pool y) w \<noteq> Some l) \<and> (\<exists>!w. y_phase y w = Giving l))"
proof -
  note lp = reachable_placed [OF assms(1)]
  from placed_live [OF lp assms(2,3)] show ?thesis
  proof (cases rule: placedE)
    case held
    then show ?thesis
      using placed_chan [OF lp] placed_giving [OF lp] by blast
  next
    case (chan w)
    then show ?thesis
      using placed_chan [OF lp chan] placed_unique [OF lp] by blast
  next
    case (giving w)
    then show ?thesis
      using placed_giving [OF lp giving] placed_giver [OF lp] placed_chan [OF lp] by blast
  qed
qed

theorem lease_in_one_place_witness:
  "\<not> l_released (p_lease (y_pool run_full) 0) \<and> 0 \<in> y_held run_full \<and> (\<forall>w. p_chan (y_pool run_full) w \<noteq> Some 0)"
proof -
  have "0 \<in> y_held run_full" "\<not> l_released (p_lease (y_pool run_full) 0)"
    by code_simp+
  then show ?thesis
    using lease_in_one_place [OF run_reachable, of 0] run_facts by auto
qed

text \<open>
  Handing over never blocks while the pool is locked: in every reachable state the channel of
  a queued job is empty, so the send of \<open>dispatch\<close> finds room in its buffer of one; and a job
  that gives up and is no longer queued always finds its lease in the channel.
\<close>

theorem handover_never_blocks:
  assumes "reachable t y" "w < p_nwait (y_pool y)"
  shows "(w \<in> set (s_waiters (svc (y_pool y) name)) \<longrightarrow> p_chan (y_pool y) w = None) \<and>
    (y_phase y w = Leaving \<longrightarrow> p_chan (y_pool y) w \<noteq> None)"
  using counted_waiter [OF reachable_counted [OF assms(1)]]
    placed_leaving [OF reachable_placed [OF assms(1)] assms(2)] by blast

theorem handover_never_blocks_witness: "0 \<in> set (s_waiters (svc (y_pool run_full) ''s'')) \<and> p_chan (y_pool run_full) 0 = None"
proof -
  have "0 < p_nwait (y_pool run_full)"
    by code_simp
  then show ?thesis
    using handover_never_blocks [OF run_reachable, of 0 "''s''"] run_facts by simp
qed

text \<open>
  A job that gives up leaves nothing behind. After the timer or the job's own end wakes
  \<open>Acquire\<close> and \<open>abandon\<close> has run, the job is in no queue, its channel is empty, and a lease that
  had been handed to it at the same moment is released.
\<close>

theorem abandon_leaves_nothing:
  assumes r: "reachable t y" and w: "w < p_nwait (y_pool y)" "y_phase y w = Selecting"
  shows "Acquire_select (y_name y w) w TimerFired (y_pool y) =
      Some (Inl (TimeoutError (y_name y w) (p_timeout (y_pool y))), abandon (y_name y w) w (y_pool y)) \<and>
    (\<forall>n. w \<notin> set (s_waiters (svc (abandon (y_name y w) w (y_pool y)) n))) \<and>
    p_chan (abandon (y_name y w) w (y_pool y)) w = None \<and>
    (\<forall>l. p_chan (y_pool y) w = Some l \<longrightarrow> l_released (p_lease (abandon (y_name y w) w (y_pool y)) l))"
proof -
  let ?p = "y_pool y" and ?n = "y_name y w"
  note inv = reachable_sys_inv [OF r] and c = reachable_counted [OF r] and lp = reachable_placed [OF r]
  show ?thesis
  proof (cases "w \<in> set (s_waiters (svc ?p ?n))")
    case True
    then have a: "abandon ?n w ?p = upd_svc ?n (\<lambda>s. s\<lparr>s_waiters := remove1 w (s_waiters s)\<rparr>) ?p"
      by (simp add: abandon_def abandon_search_def)
    have "w \<notin> set (s_waiters (svc ?p n))" if "n \<noteq> ?n" for n
      using placed_queued [OF lp, of w n] that by auto
    with True counted_waiters [OF c, of ?n] counted_waiter [OF c True] show ?thesis
      by (simp add: a Acquire_select_def)
  next
    case False
    then obtain l where l: "p_chan ?p w = Some l"
      using placed_selecting [OF lp w] by auto
    define q where "q = ?p\<lparr>p_chan := (p_chan ?p)(w := None)\<rparr>"
    have rq: "recv_lease w ?p = Some (l, q)"
      by (simp add: recv_lease_def l q_def)
    then have a: "abandon ?n w ?p = Release l q"
      using False by (simp add: abandon_def abandon_search_def)
    have cq: "counted q"
      using recv_lease_inv [OF _ rq] inv by (simp add: sys_inv_def pool_inv_counted)
    have lq: "l < p_nlease q"
      using placed_chan [OF lp l] by (simp add: q_def)
    have out: "w \<notin> set (s_waiters (svc q n))" for n
      using counted_waiter [OF c, of w n] l by (auto simp: q_def)
    show ?thesis
      using Release_waiters [OF cq lq] Release_released [OF cq lq] Release_chan [OF cq lq out] out l
      by (auto simp: a Acquire_select_def) (simp add: q_def)
  qed
qed

theorem abandon_leaves_nothing_witness:
  "y_phase run_full 1 = Selecting \<and> (\<forall>n. 1 \<notin> set (s_waiters (svc (abandon ''s'' 1 (y_pool run_full)) n)))"
proof -
  have "1 < p_nwait (y_pool run_full)" "y_phase run_full 1 = Selecting" "y_name run_full 1 = ''s''"
    by code_simp+
  then show ?thesis
    using abandon_leaves_nothing [OF run_reachable, of 1] by simp
qed

text \<open>
  Releasing a lease twice is releasing it once: \<open>Release\<close> of any lease the pool has made marks
  it released, and a second \<open>Release\<close> changes nothing.
\<close>

theorem release_idempotent:
  assumes "reachable t y" "l < p_nlease (y_pool y)"
  shows "Release l (Release l (y_pool y)) = Release l (y_pool y)"
  using Release_released [OF reachable_counted [OF assms(1)] assms(2)]
  by (subst Release_def) simp

theorem release_idempotent_witness:
  "busy (p_prov (Release 0 (Release 0 (y_pool run_full))) 0) = 1 \<and>
   s_waiters (svc (Release 0 (Release 0 (y_pool run_full))) ''s'') = [1]"
proof -
  have "busy (p_prov (Release 0 (y_pool run_full)) 0) = 1"
    "s_waiters (svc (Release 0 (y_pool run_full)) ''s'') = [1]"
    by code_simp+
  then show ?thesis
    using release_idempotent [OF run_reachable, of 0] run_facts by simp
qed

text \<open>
  What \<open>Acquire\<close> does on arrival, in every reachable state. A free slot is taken at once only
  when nobody is queued for it; otherwise the job gets an address no job had before and joins its
  queue, a requeued job (\<open>front\<close>) ahead of every job there and any other job behind them all.
\<close>

theorem acquire_order:
  assumes "reachable t y"
  shows "case Acquire_enter name front (y_pool y) of
     (Got l, q) \<Rightarrow> s_waiters (svc (y_pool y) name) = [] \<and> l = p_nlease (y_pool y) \<and>
       best (y_pool y) name = Some (l_provider (p_lease q l)) \<and> s_waiters (svc q name) = []
   | (Queued w, q) \<Rightarrow> best (y_pool y) name = None \<and>
       (\<forall>n. w \<notin> set (s_waiters (svc (y_pool y) n))) \<and>
       s_waiters (svc q name) = (if front then w # s_waiters (svc (y_pool y) name)
                                 else s_waiters (svc (y_pool y) name) @ [w])"
proof -
  let ?p = "y_pool y"
  obtain a q where a: "Acquire_enter name front ?p = (a, q)"
    by fastforce
  from a show ?thesis
  proof (cases rule: Acquire_enter_cases)
    case (got i l)
    then show ?thesis
      using take_slot_sel [OF got(4)] by (simp add: a)
  next
    case (queued w)
    have "best ?p name = None"
      using queued(1) reachable_conserving [OF assms, of name] by (auto simp: conserving_def)
    moreover have "w \<notin> set (s_waiters (svc ?p n))" for n
      using counted_waiter [OF reachable_counted [OF assms], of w n] enqueue_sel(1) [OF queued(3)] by auto
    ultimately show ?thesis
      using enqueue_sel(8) [OF queued(3), of name] by (simp add: a queued(2))
  qed
qed

theorem acquire_order_witness:
  "fst (Acquire_enter ''s'' True (y_pool run_full)) = Queued 2 \<and>
   s_waiters (svc (snd (Acquire_enter ''s'' True (y_pool run_full))) ''s'') = [2, 0, 1]"
proof -
  have "fst (Acquire_enter ''s'' True (y_pool run_full)) = Queued 2"
    by code_simp
  then show ?thesis
    using acquire_order [OF run_reachable, of "''s''" True] run_facts
    by (cases "Acquire_enter ''s'' True (y_pool run_full)") auto
qed

text \<open>
  What the status log says is consistent: in every reachable state \<open>Snapshot\<close> lists the
  services in ascending order of their names, shows no provider with more busy slots than it has,
  and shows jobs waiting only where every provider listed has all of its slots busy.
\<close>

theorem snapshot_consistent:
  assumes "reachable t y"
  shows "sorted (map ss_Name (Snapshot (y_pool y))) \<and>
    (\<forall>s \<in> set (Snapshot (y_pool y)). \<forall>pv \<in> set (ss_Providers s).
       0 \<le> ps_Busy pv \<and> ps_Busy pv \<le> uint (ps_Slots pv) \<and>
       (0 < ss_Waiting s \<longrightarrow> ps_Busy pv = uint (ps_Slots pv)))"
proof -
  let ?p = "y_pool y"
  note c = reachable_counted [OF assms]
  have "busy (p_prov ?p i) \<ge> 0 \<and> busy (p_prov ?p i) \<le> uint (Slots (p_prov ?p i)) \<and>
      (s_waiters (svc ?p n) \<noteq> [] \<longrightarrow> busy (p_prov ?p i) = uint (Slots (p_prov ?p i)))"
    if "i \<in> set (s_providers (svc ?p n))" for i n
  proof -
    have "\<not> eligible (p_prov ?p i)" if "s_waiters (svc ?p n) \<noteq> []"
      using reachable_conserving [OF assms, of n] that \<open>i \<in> _\<close> by (simp add: conserving_def best_None_iff)
    then show ?thesis
      using counted_provider [OF c that] counted_busy [OF c, of i] by (auto simp: eligible_def)
  qed
  moreover have "map ss_Name (Snapshot ?p) = sort (map fst (p_services ?p))"
    by (simp add: Snapshot_def comp_def)
  ultimately show ?thesis
    by (auto simp: Snapshot_def)
qed

theorem snapshot_consistent_witness:
  "ss_Waiting (hd (Snapshot (y_pool run_full))) = 2 \<and>
   ps_Busy (hd (ss_Providers (hd (Snapshot (y_pool run_full))))) =
   uint (ps_Slots (hd (ss_Providers (hd (Snapshot (y_pool run_full))))))"
proof -
  have w: "ss_Waiting (hd (Snapshot (y_pool run_full))) = 2" "length (Snapshot (y_pool run_full)) = 1"
    "length (ss_Providers (hd (Snapshot (y_pool run_full)))) = 1"
    by code_simp+
  then have "hd (Snapshot (y_pool run_full)) \<in> set (Snapshot (y_pool run_full))"
    "hd (ss_Providers (hd (Snapshot (y_pool run_full)))) \<in> set (ss_Providers (hd (Snapshot (y_pool run_full))))"
    by (auto intro!: hd_in_set)
  with w show ?thesis
    using snapshot_consistent [OF run_reachable] by auto
qed

end
