(* ===== verification/Wire_Message.thy ===== *)
theory Wire_Message
  imports Prelude
begin

text \<open>
  Layer 3 of the protocol as data: \<^verbatim>\<open>internal/wire/message.go\<close>. The nine message kinds,
  their kind bytes, the job a message belongs to and the two ends of a connection.
\<close>

subsection \<open>Kinds\<close>

type_synonym kind = byte

definition KindHello :: kind where "KindHello = 0x01"
definition KindPing :: kind where "KindPing = 0x02"
definition KindPong :: kind where "KindPong = 0x03"
definition KindRequest :: kind where "KindRequest = 0x10"
definition KindResponse :: kind where "KindResponse = 0x11"
definition KindBody :: kind where "KindBody = 0x12"
definition KindEnd :: kind where "KindEnd = 0x13"
definition KindCancel :: kind where "KindCancel = 0x14"
definition KindFail :: kind where "KindFail = 0x15"

lemmas kind_defs = KindHello_def KindPing_def KindPong_def KindRequest_def KindResponse_def
  KindBody_def KindEnd_def KindCancel_def KindFail_def

text \<open>\<open>%02x\<close> of a byte.\<close>

definition hex_digit :: "nat \<Rightarrow> char" where
  "hex_digit n = ''0123456789abcdef'' ! n"

definition hex2 :: "byte \<Rightarrow> string" where
  "hex2 b = [hex_digit (unat b div 16), hex_digit (unat b mod 16)]"

definition Kind_String :: "kind \<Rightarrow> string" where
  "Kind_String k =
     (if k = KindHello then ''HELLO''
      else if k = KindPing then ''PING''
      else if k = KindPong then ''PONG''
      else if k = KindRequest then ''REQUEST''
      else if k = KindResponse then ''RESPONSE''
      else if k = KindBody then ''BODY''
      else if k = KindEnd then ''END''
      else if k = KindCancel then ''CANCEL''
      else if k = KindFail then ''FAIL''
      else ''kind 0x'' @ hex2 k)"

subsection \<open>Roles, headers and messages\<close>

datatype role = RoleServer | RoleClient

record header =
  h_Name :: string
  h_Value :: string

record provider_info =
  pi_Service :: string
  pi_MaxConcurrent :: u16
  pi_Priority :: u16

datatype message =
  Hello (hello_Name: string) (hello_Providers: "provider_info list")
| Ping
| Pong
| Request (req_Job: u64) (req_Service: string) (req_Method: string) (req_Target: string)
    (req_Headers: "header list")
| Response (resp_Job: u64) (resp_Status: u16) (resp_Headers: "header list")
| Body (body_Job: u64) (body_Bytes: bytes)
| End (end_Job: u64) (end_Trailers: "header list")
| Cancel (cancel_Job: u64)
| Fail (fail_Job: u64) (fail_Reason: string)

fun Kind :: "message \<Rightarrow> kind" where
  "Kind (Hello _ _) = KindHello"
| "Kind Ping = KindPing"
| "Kind Pong = KindPong"
| "Kind (Request _ _ _ _ _) = KindRequest"
| "Kind (Response _ _ _) = KindResponse"
| "Kind (Body _ _) = KindBody"
| "Kind (End _ _) = KindEnd"
| "Kind (Cancel _) = KindCancel"
| "Kind (Fail _ _) = KindFail"

text \<open>The interface \<open>Jobbed\<close>: \<^const>\<open>None\<close> for the three kinds that belong to no job.\<close>

fun JobID :: "message \<Rightarrow> u64 option" where
  "JobID (Request j _ _ _ _) = Some j"
| "JobID (Response j _ _) = Some j"
| "JobID (Body j _) = Some j"
| "JobID (End j _) = Some j"
| "JobID (Cancel j) = Some j"
| "JobID (Fail j _) = Some j"
| "JobID _ = None"

definition minStatus :: u16 where "minStatus = 100"
definition maxStatus :: u16 where "maxStatus = 599"

fun is_hello :: "message \<Rightarrow> bool" where
  "is_hello (Hello _ _) = True"
| "is_hello _ = False"

lemma Kind_hello_iff [simp]: "Kind m = KindHello \<longleftrightarrow> is_hello m"
  by (cases m) (simp_all add: kind_defs)

lemma Kind_hello_iff' [simp]: "KindHello = Kind m \<longleftrightarrow> is_hello m"
  using Kind_hello_iff [of m] by metis

text \<open>A job message carries its job, and the others are exactly HELLO, PING and PONG.\<close>

lemma JobID_None_iff: "JobID m = None \<longleftrightarrow> is_hello m \<or> m = Ping \<or> m = Pong"
  by (cases m) simp_all

end
