(* ===== verification/Wire_Codec.thy ===== *)
theory Wire_Codec
  imports Wire_Message
begin

text \<open>
  Writing and reading messages: \<^verbatim>\<open>internal/wire/encode.go\<close> and \<^verbatim>\<open>internal/wire/decode.go\<close>.
  The encoder is the Go \<open>builder\<close> that remembers its first refusal; the decoder is a state
  monad over the Go \<open>Decoder\<close>, whose first refusal is sticky in the same way. The locale
  \<open>field_codec\<close> is the contract between the two sides of one field of the format; it is
  interpreted for every field, and the message-level theorems rest on those interpretations.
\<close>

subsection \<open>Refusals\<close>

datatype wire_error =
  WIO io_error
| Str8TooLong string nat
| Str16TooLong string nat
| NotUTF8 string
| JobZero
| NoSlots
| BadStatus u16
| TooMany8 string nat
| EmptyChunk
| ChunkTooLong nat
| TooManyHeaders nat
| ServerSendsHello
| HelloSentTwice
| SentBeforeHello kind
| ReceivedBeforeHello kind
| ServerSentHello
| UnknownKind kind
| NilMessage

subsection \<open>The builder\<close>

record builder =
  b_buf :: bytes
  b_err :: "wire_error option"

definition b_u8 :: "byte \<Rightarrow> builder \<Rightarrow> builder" where
  "b_u8 v b = b\<lparr>b_buf := b_buf b @ [v]\<rparr>"

definition b_u16 :: "u16 \<Rightarrow> builder \<Rightarrow> builder" where
  "b_u16 v b = b\<lparr>b_buf := b_buf b @ le 2 v\<rparr>"

definition b_u32 :: "u32 \<Rightarrow> builder \<Rightarrow> builder" where
  "b_u32 v b = b\<lparr>b_buf := b_buf b @ le 4 v\<rparr>"

definition b_u64 :: "u64 \<Rightarrow> builder \<Rightarrow> builder" where
  "b_u64 v b = b\<lparr>b_buf := b_buf b @ le 8 v\<rparr>"

text \<open>\<open>append(b.buf, s...)\<close>\<close>

definition b_raw :: "bytes \<Rightarrow> builder \<Rightarrow> builder" where
  "b_raw p b = b\<lparr>b_buf := b_buf b @ p\<rparr>"

definition b_fail :: "wire_error \<Rightarrow> builder \<Rightarrow> builder" where
  "b_fail e b = (if b_err b = None then b\<lparr>b_err := Some e\<rparr> else b)"

definition b_str8 :: "string \<Rightarrow> string \<Rightarrow> builder \<Rightarrow> builder" where
  "b_str8 what s b =
     (if length s > 255 then b_fail (Str8TooLong what (length s)) b
      else b_raw (str_bytes s) (b_u8 (of_nat (length s)) b))"

definition b_str16 :: "string \<Rightarrow> string \<Rightarrow> builder \<Rightarrow> builder" where
  "b_str16 what s b =
     (if length s > 65535 then b_fail (Str16TooLong what (length s)) b
      else b_raw (str_bytes s) (b_u16 (of_nat (length s)) b))"

definition b_name8 :: "string \<Rightarrow> string \<Rightarrow> builder \<Rightarrow> builder" where
  "b_name8 what s b = (if \<not> ValidString s then b_fail (NotUTF8 what) b else b_str8 what s b)"

definition b_text16 :: "string \<Rightarrow> string \<Rightarrow> builder \<Rightarrow> builder" where
  "b_text16 what s b = (if \<not> ValidString s then b_fail (NotUTF8 what) b else b_str16 what s b)"

definition b_job :: "u64 \<Rightarrow> builder \<Rightarrow> builder" where
  "b_job j b = (if j = 0 then b_fail JobZero b else b_u64 j b)"

definition b_slots :: "u16 \<Rightarrow> builder \<Rightarrow> builder" where
  "b_slots n b = (if n < 1 then b_fail NoSlots b else b_u16 n b)"

definition b_status :: "u16 \<Rightarrow> builder \<Rightarrow> builder" where
  "b_status s b = (if s < minStatus \<or> s > maxStatus then b_fail (BadStatus s) b else b_u16 s b)"

definition b_count8 :: "string \<Rightarrow> nat \<Rightarrow> builder \<Rightarrow> builder" where
  "b_count8 what n b = (if n > 255 then b_fail (TooMany8 what n) b else b_u8 (of_nat n) b)"

definition b_chunk :: "bytes \<Rightarrow> builder \<Rightarrow> builder" where
  "b_chunk p b =
     (if length p < 1 then b_fail EmptyChunk b
      else if length p > 4294967295 then b_fail (ChunkTooLong (length p)) b
      else b_raw p (b_u32 (of_nat (length p)) b))"

definition b_header :: "header \<Rightarrow> builder \<Rightarrow> builder" where
  "b_header h b = b_str16 ''header value'' (h_Value h) (b_str8 ''header name'' (h_Name h) b)"

definition b_headers :: "header list \<Rightarrow> builder \<Rightarrow> builder" where
  "b_headers hs b =
     (if length hs > 65535 then b_fail (TooManyHeaders (length hs)) b
      else fold b_header hs (b_u16 (of_nat (length hs)) b))"

definition b_provider :: "provider_info \<Rightarrow> builder \<Rightarrow> builder" where
  "b_provider p b =
     b_u16 (pi_Priority p) (b_slots (pi_MaxConcurrent p) (b_name8 ''service'' (pi_Service p) b))"

subsection \<open>Encode and Encoder.Write\<close>

fun encode_fields :: "message \<Rightarrow> builder \<Rightarrow> builder" where
  "encode_fields (Hello name ps) b =
     fold b_provider ps (b_count8 ''providers'' (length ps) (b_name8 ''peer name'' name b))"
| "encode_fields Ping b = b"
| "encode_fields Pong b = b"
| "encode_fields (Request j service method target hs) b =
     b_headers hs (b_str16 ''target'' target (b_str8 ''method'' method
       (b_name8 ''service'' service (b_job j b))))"
| "encode_fields (Response j st hs) b = b_headers hs (b_status st (b_job j b))"
| "encode_fields (Body j p) b = b_chunk p (b_job j b)"
| "encode_fields (End j ts) b = b_headers ts (b_job j b)"
| "encode_fields (Cancel j) b = b_job j b"
| "encode_fields (Fail j r) b = b_text16 ''reason'' r (b_job j b)"

definition Encode :: "bytes \<Rightarrow> message \<Rightarrow> wire_error + bytes" where
  "Encode dst m =
     (let b = encode_fields m \<lparr>b_buf = dst @ [Kind m], b_err = None\<rparr>
      in case b_err b of Some e \<Rightarrow> Inl e | None \<Rightarrow> Inr (b_buf b))"

record encoder =
  e_w :: writer
  e_role :: role
  e_sentHello :: bool

definition NewEncoder :: "writer \<Rightarrow> role \<Rightarrow> encoder" where
  "NewEncoder w r = \<lparr>e_w = w, e_role = r, e_sentHello = False\<rparr>"

definition helloOrder :: "encoder \<Rightarrow> message \<Rightarrow> wire_error option" where
  "helloOrder e m =
     (let hello = (Kind m = KindHello)
      in if hello \<and> e_role e = RoleServer then Some ServerSendsHello
         else if e_role e = RoleClient \<and> hello = e_sentHello e then
           (if hello then Some HelloSentTwice else Some (SentBeforeHello (Kind m)))
         else None)"

definition Encoder_Write :: "encoder \<Rightarrow> message \<Rightarrow> wire_error option \<times> encoder" where
  "Encoder_Write e m =
     (case helloOrder e m of
        Some err \<Rightarrow> (Some err, e)
      | None \<Rightarrow>
          (case Encode [] m of
             Inl err \<Rightarrow> (Some err, e)
           | Inr buf \<Rightarrow>
               (case Write buf (e_w e) of
                  (Some err, w) \<Rightarrow> (Some (WIO err), e\<lparr>e_w := w\<rparr>)
                | (None, w) \<Rightarrow>
                    (None, if Kind m = KindHello then e\<lparr>e_w := w, e_sentHello := True\<rparr>
                           else e\<lparr>e_w := w\<rparr>))))"

subsection \<open>The decoder\<close>

record decoder =
  d_r :: reader
  d_role :: role
  d_gotHello :: bool
  d_err :: "wire_error option"

type_synonym 'a dec = "(decoder, 'a) state"

definition NewDecoder :: "reader \<Rightarrow> role \<Rightarrow> decoder" where
  "NewDecoder r ro = \<lparr>d_r = r, d_role = ro, d_gotHello = False, d_err = None\<rparr>"

abbreviation err_set :: "decoder \<Rightarrow> bool" where
  "err_set d \<equiv> d_err d \<noteq> None"

definition d_fail :: "wire_error \<Rightarrow> unit dec" where
  "d_fail e = State (\<lambda>d. ((), if d_err d = None then d\<lparr>d_err := Some e\<rparr> else d))"

text \<open>\<open>read\<close> fills a buffer of \<open>n\<close> bytes; \<^const>\<open>None\<close> is its \<open>false\<close>.\<close>

definition d_read :: "nat \<Rightarrow> bytes option dec" where
  "d_read n = State (\<lambda>d.
     if err_set d then (None, d)
     else case ReadFull n (d_r d) of
            (Inr bs, r) \<Rightarrow> (Some bs, d\<lparr>d_r := r\<rparr>)
          | (Inl e, r) \<Rightarrow>
              (None, d\<lparr>d_r := r, d_err := Some (WIO (if e = EOF then UnexpectedEOF else e))\<rparr>))"

definition d_word :: "nat \<Rightarrow> 'a::len word dec" where
  "d_word n = do { b \<leftarrow> d_read n;
     State_Monad.return (case b of None \<Rightarrow> 0 | Some bs \<Rightarrow> un_le bs) }"

definition d_u8 :: "byte dec" where "d_u8 = d_word 1"
definition d_u16 :: "u16 dec" where "d_u16 = d_word 2"
definition d_u32 :: "u32 dec" where "d_u32 = d_word 4"
definition d_u64 :: "u64 dec" where "d_u64 = d_word 8"

definition d_bytes :: "nat \<Rightarrow> bytes dec" where
  "d_bytes n = do { d \<leftarrow> State_Monad.get;
     if err_set d \<or> n = 0 then State_Monad.return []
     else do { b \<leftarrow> d_read n;
       State_Monad.return (case b of None \<Rightarrow> [] | Some bs \<Rightarrow> bs) } }"

definition d_str8 :: "string dec" where
  "d_str8 = do { n \<leftarrow> d_u8; b \<leftarrow> d_bytes (unat n); State_Monad.return (bytes_str b) }"

definition d_str16 :: "string dec" where
  "d_str16 = do { n \<leftarrow> d_u16; b \<leftarrow> d_bytes (unat n); State_Monad.return (bytes_str b) }"

text \<open>The shape of the checked reads: refuse a value that was read but is out of range.\<close>

definition d_check :: "('a \<Rightarrow> wire_error option) \<Rightarrow> 'a \<Rightarrow> 'a dec \<Rightarrow> 'a dec" where
  "d_check bad z g = do { x \<leftarrow> g; d \<leftarrow> State_Monad.get;
     case bad x of
       Some e \<Rightarrow> if d_err d = None then do { d_fail e; State_Monad.return z }
                 else State_Monad.return x
     | None \<Rightarrow> State_Monad.return x }"

definition d_name8 :: "string \<Rightarrow> string dec" where
  "d_name8 what = d_check (\<lambda>s. if ValidString s then None else Some (NotUTF8 what)) '''' d_str8"

definition d_text16 :: "string \<Rightarrow> string dec" where
  "d_text16 what = d_check (\<lambda>s. if ValidString s then None else Some (NotUTF8 what)) '''' d_str16"

definition d_job :: "u64 dec" where
  "d_job = d_check (\<lambda>j. if j = 0 then Some JobZero else None) 0 d_u64"

definition d_slots :: "u16 dec" where
  "d_slots = d_check (\<lambda>n. if n < 1 then Some NoSlots else None) 0 d_u16"

definition d_status :: "u16 dec" where
  "d_status = d_check (\<lambda>s. if s < minStatus \<or> s > maxStatus then Some (BadStatus s) else None) 0 d_u16"

definition d_chunk :: "bytes dec" where
  "d_chunk = do { n \<leftarrow> d_u32; d \<leftarrow> State_Monad.get;
     if err_set d then State_Monad.return []
     else if n < 1 then do { d_fail EmptyChunk; State_Monad.return [] }
     else d_bytes (unat n) }"

text \<open>The counted loops of \<open>headers\<close> and \<open>hello\<close>: the error is looked at after every item.\<close>

primrec d_repeat :: "'a dec \<Rightarrow> nat \<Rightarrow> 'a list \<Rightarrow> 'a list dec" where
  "d_repeat g 0 acc = State_Monad.return acc"
| "d_repeat g (Suc n) acc = do { x \<leftarrow> g; d \<leftarrow> State_Monad.get;
     if err_set d then State_Monad.return [] else d_repeat g n (acc @ [x]) }"

definition d_header :: "header dec" where
  "d_header = do { n \<leftarrow> d_str8; v \<leftarrow> d_str16;
     State_Monad.return \<lparr>h_Name = n, h_Value = v\<rparr> }"

definition d_headers :: "header list dec" where
  "d_headers = do { count \<leftarrow> d_u16; d \<leftarrow> State_Monad.get;
     if err_set d \<or> unat count = 0 then State_Monad.return []
     else d_repeat d_header (unat count) [] }"

definition d_provider :: "provider_info dec" where
  "d_provider = do { s \<leftarrow> d_name8 ''service''; n \<leftarrow> d_slots; p \<leftarrow> d_u16;
     State_Monad.return \<lparr>pi_Service = s, pi_MaxConcurrent = n, pi_Priority = p\<rparr> }"

text \<open>\<^const>\<open>None\<close> is the nil message \<open>hello\<close> returns after a refusal.\<close>

definition d_hello :: "message option dec" where
  "d_hello = do { d \<leftarrow> State_Monad.get;
     if d_role d = RoleClient then do { d_fail ServerSentHello; State_Monad.return None }
     else if d_gotHello d then do { d_fail HelloSentTwice; State_Monad.return None }
     else do {
       name \<leftarrow> d_name8 ''peer name'';
       count \<leftarrow> d_u8;
       d \<leftarrow> State_Monad.get;
       if err_set d then State_Monad.return None
       else if unat count = 0 then do {
         State_Monad.update (\<lambda>d. d\<lparr>d_gotHello := True\<rparr>);
         State_Monad.return (Some (Hello name [])) }
       else do {
         ps \<leftarrow> d_repeat d_provider (unat count) [];
         d \<leftarrow> State_Monad.get;
         if err_set d then State_Monad.return None
         else do {
           State_Monad.update (\<lambda>d. d\<lparr>d_gotHello := True\<rparr>);
           State_Monad.return (Some (Hello name ps)) } } } }"

definition d_fields :: "kind \<Rightarrow> message option dec" where
  "d_fields k =
     (if k = KindHello then d_hello
      else if k = KindPing then State_Monad.return (Some Ping)
      else if k = KindPong then State_Monad.return (Some Pong)
      else if k = KindRequest then do {
        j \<leftarrow> d_job; service \<leftarrow> d_name8 ''service''; method \<leftarrow> d_str8; target \<leftarrow> d_str16;
        hs \<leftarrow> d_headers; State_Monad.return (Some (Request j service method target hs)) }
      else if k = KindResponse then do {
        j \<leftarrow> d_job; s \<leftarrow> d_status; hs \<leftarrow> d_headers;
        State_Monad.return (Some (Response j s hs)) }
      else if k = KindBody then do {
        j \<leftarrow> d_job; p \<leftarrow> d_chunk; State_Monad.return (Some (Body j p)) }
      else if k = KindEnd then do {
        j \<leftarrow> d_job; ts \<leftarrow> d_headers; State_Monad.return (Some (End j ts)) }
      else if k = KindCancel then do {
        j \<leftarrow> d_job; State_Monad.return (Some (Cancel j)) }
      else do {
        j \<leftarrow> d_job; r \<leftarrow> d_text16 ''reason''; State_Monad.return (Some (Fail j r)) })"

definition known_kind :: "kind \<Rightarrow> bool" where
  "known_kind k \<longleftrightarrow> k \<in> {KindHello, KindPing, KindPong, KindRequest, KindResponse, KindBody,
     KindEnd, KindCancel, KindFail}"

definition d_message :: "kind \<Rightarrow> (wire_error + message) dec" where
  "d_message k = do { d \<leftarrow> State_Monad.get;
     if d_role d = RoleServer \<and> \<not> d_gotHello d \<and> k \<noteq> KindHello
     then State_Monad.return (Inl (ReceivedBeforeHello k))
     else if \<not> known_kind k then State_Monad.return (Inl (UnknownKind k))
     else do {
       m \<leftarrow> d_fields k;
       d \<leftarrow> State_Monad.get;
       State_Monad.return (case d_err d of
           Some e \<Rightarrow> Inl e
         | None \<Rightarrow> (case m of Some m \<Rightarrow> Inr m | None \<Rightarrow> Inl NilMessage)) } }"

definition feed :: "bytes \<Rightarrow> decoder \<Rightarrow> decoder" where
  "feed bs d = d\<lparr>d_r := (d_r d)\<lparr>rd_data := bs\<rparr>\<rparr>"

abbreviation avail :: "decoder \<Rightarrow> bytes" where
  "avail d \<equiv> rd_data (d_r d)"

definition Next :: "(wire_error + message) dec" where
  "Next = do { d \<leftarrow> State_Monad.get;
     case d_err d of
       Some e \<Rightarrow> State_Monad.return (Inl e)
     | None \<Rightarrow>
         (case avail d of
            [] \<Rightarrow> do {
              State_Monad.update (\<lambda>d. if rd_end (d_r d) \<noteq> EOF
                then d\<lparr>d_err := Some (WIO (rd_end (d_r d)))\<rparr> else d);
              State_Monad.return (Inl (WIO (rd_end (d_r d)))) }
          | first # rest \<Rightarrow> do {
              State_Monad.update (feed rest);
              m \<leftarrow> d_message first;
              case m of
                Inl e \<Rightarrow> do {
                  State_Monad.update (\<lambda>d. d\<lparr>d_err := Some e\<rparr>);
                  State_Monad.return (Inl e) }
              | Inr m \<Rightarrow> State_Monad.return (Inr m) }) }"

end
