(* ===== verification/Job_Queue.thy ===== *)
theory Job_Queue
  imports Wire_Codec
begin

text \<open>
  \<^verbatim>\<open>internal/peer/queue.go\<close> and \<^verbatim>\<open>internal/peer/job.go\<close>: a job's inbox, and the two loops that
  read it. A goroutine that waits is modelled by the events it waits for: the messages pushed, the
  close and the end of its context, in the order they happen. A result of \<^const>\<open>None\<close> means that
  the events ran out while it was still waiting.
\<close>

subsection \<open>Errors of the package\<close>

datatype peer_error =
    ErrCancelled | ErrJobEnded | ErrProviderGone | ErrNetClosed | ErrCtx
  | ErrWire wire_error | ErrSetDeadline io_error
  | ErrBodyOutOfStep kind | ErrNotHello kind | ErrHelloAgain | ErrNoJob kind
  | ErrWrongParity u64 | ErrAlreadyRunning u64 | ErrTooManyJobs u16 string
  | ErrNotAnAnswer kind | ErrProviderFail string | ErrTwoProviders string
  | ErrNoService string | ErrNotAPath string | ErrUpstream string | ErrUpstreamStatus int | ErrUpstreamRead io_error

subsection \<open>The queue (\<^verbatim>\<open>queue.go\<close>)\<close>

text \<open>\<open>jq_ready\<close> counts the channels \<open>wake\<close> has closed: the number is the channel that is now current.\<close>

record jobQueue =
  jq_items :: "message list"
  jq_err :: "peer_error option"
  jq_ready :: nat

definition newJobQueue :: jobQueue where
  "newJobQueue = \<lparr>jq_items = [], jq_err = None, jq_ready = 0\<rparr>"

definition jq_wake :: "jobQueue \<Rightarrow> jobQueue" where
  "jq_wake q = q\<lparr>jq_ready := Suc (jq_ready q)\<rparr>"

definition jq_push :: "message \<Rightarrow> jobQueue \<Rightarrow> jobQueue" where
  "jq_push m q = (if jq_err q \<noteq> None then q else jq_wake (q\<lparr>jq_items := jq_items q @ [m]\<rparr>))"

definition jq_close :: "peer_error \<Rightarrow> jobQueue \<Rightarrow> jobQueue" where
  "jq_close e q = (if jq_err q \<noteq> None then q else jq_wake (q\<lparr>jq_err := Some e\<rparr>))"

text \<open>One turn of the loop of \<open>next\<close>, under the lock.\<close>

datatype looked = Took message | Ended peer_error | Wait nat

definition jq_look :: "jobQueue \<Rightarrow> looked \<times> jobQueue" where
  "jq_look q =
     (case jq_items q of
        m # ms \<Rightarrow> (Took m, q\<lparr>jq_items := ms\<rparr>)
      | [] \<Rightarrow> (case jq_err q of Some e \<Rightarrow> (Ended e, q) | None \<Rightarrow> (Wait (jq_ready q), q)))"

datatype qevent = Pushed message | Closed peer_error | CtxDone peer_error

fun jq_next :: "qevent list \<Rightarrow> jobQueue \<Rightarrow> ((peer_error + message) \<times> jobQueue \<times> qevent list) option" where
  "jq_next evs q =
     (case jq_look q of
        (Took m, q') \<Rightarrow> Some (Inr m, q', evs)
      | (Ended e, q') \<Rightarrow> Some (Inl e, q', evs)
      | (Wait _, _) \<Rightarrow>
          (case evs of
             [] \<Rightarrow> None
           | Pushed m # evs \<Rightarrow> jq_next evs (jq_push m q)
           | Closed e # evs \<Rightarrow> jq_next evs (jq_close e q)
           | CtxDone e # evs \<Rightarrow> Some (Inl e, q, evs)))"

declare jq_next.simps [simp del]

subsection \<open>Reading a body and watching for a CANCEL (\<^verbatim>\<open>job.go\<close>)\<close>

definition pending :: "qevent list \<Rightarrow> jobQueue \<Rightarrow> nat" where
  "pending evs q = length (jq_items q) + length evs"

lemma jq_next_items: "jq_items q = m # ms \<Longrightarrow> jq_next evs q = Some (Inr m, q\<lparr>jq_items := ms\<rparr>, evs)"
  by (simp add: jq_next.simps [of evs q] jq_look_def)

lemma jq_next_ended: "jq_items q = [] \<Longrightarrow> jq_err q = Some e \<Longrightarrow> jq_next evs q = Some (Inl e, q, evs)"
  by (simp add: jq_next.simps [of evs q] jq_look_def)

lemma jq_next_waiting:
  assumes "jq_items q = []" "jq_err q = None"
  shows "jq_next [] q = None"
    and "jq_next (CtxDone e # evs) q = Some (Inl e, q, evs)"
    and "jq_next (Closed e # evs) q = Some (Inl e, q\<lparr>jq_err := Some e, jq_ready := Suc (jq_ready q)\<rparr>, evs)"
    and "jq_next (Pushed m # evs) q = Some (Inr m, q\<lparr>jq_ready := Suc (jq_ready q)\<rparr>, evs)"
  using assms
  by (simp_all add: jq_next.simps [of _ q] jq_look_def jq_push_def jq_close_def jq_wake_def
      jq_next_items jq_next_ended)

lemmas jq_next_simps = jq_next_items jq_next_ended jq_next_waiting

lemma jq_next_pending:
  assumes "jq_next evs q = Some (Inr m, q', evs')"
  shows "pending evs' q' < pending evs q"
proof (cases "jq_items q")
  case Nil
  show ?thesis
  proof (cases "jq_err q")
    case None
    with Nil assms show ?thesis
    proof (cases evs)
      case (Cons ev evs1)
      with None Nil assms show ?thesis
        by (cases ev) (auto simp: jq_next_waiting pending_def)
    qed (simp add: jq_next_waiting)
  qed (use Nil assms in \<open>simp add: jq_next_ended\<close>)
qed (use assms in \<open>auto simp: jq_next_items pending_def\<close>)

function collect :: "bytes \<Rightarrow> qevent list \<Rightarrow> jobQueue \<Rightarrow>
    ((peer_error + bytes \<times> header list) \<times> jobQueue \<times> qevent list) option" where
  "collect body evs q =
     (case jq_next evs q of
        None \<Rightarrow> None
      | Some (Inl e, q', evs') \<Rightarrow> Some (Inl e, q', evs')
      | Some (Inr m, q', evs') \<Rightarrow>
          (case m of
             Body _ bs \<Rightarrow> collect (body @ bs) evs' q'
           | End _ trailers \<Rightarrow> Some (Inr (body, trailers), q', evs')
           | Cancel _ \<Rightarrow> Some (Inl ErrCancelled, q', evs')
           | _ \<Rightarrow> Some (Inl (ErrBodyOutOfStep (Kind m)), q', evs')))"
  by pat_completeness auto
termination
  by (relation "measure (\<lambda>(body, evs, q). pending evs q)") (auto intro: jq_next_pending)

declare collect.simps [simp del]

text \<open>The cause \<open>watchCancel\<close> cancels the job's context with.\<close>

function watchCancel :: "qevent list \<Rightarrow> jobQueue \<Rightarrow> peer_error option" where
  "watchCancel evs q =
     (case jq_next evs q of
        None \<Rightarrow> None
      | Some (Inl e, q', evs') \<Rightarrow> Some e
      | Some (Inr m, q', evs') \<Rightarrow>
          (case m of Cancel _ \<Rightarrow> Some ErrCancelled | _ \<Rightarrow> watchCancel evs' q'))"
  by pat_completeness auto
termination
  by (relation "measure (\<lambda>(evs, q). pending evs q)") (auto intro: jq_next_pending)

declare watchCancel.simps [simp del]

text \<open>\<open>reason\<close>: the text of an error is a parameter; \<open>cause\<close> is that of the job's context.\<close>

definition reason :: "(peer_error \<Rightarrow> string) \<Rightarrow> peer_error option \<Rightarrow> peer_error \<Rightarrow> string" where
  "reason error_text cause e =
     (if e = ErrCancelled then ''cancelled''
      else if cause = Some ErrCancelled then ''cancelled''
      else error_text e)"

end
