(* ===== verification/Wire_Laws.thy ===== *)
theory Wire_Laws
  imports Wire_Codec "HOL-Library.Sublist"
begin

text \<open>
  What the two sides of the wire format promise each other. The locale \<open>field_codec\<close> is the
  contract of one field between the builder that writes it and the decoder that reads it;
  its combinators (checked, counted, paired and repeated fields) are proved once inside it,
  and every field of \<^verbatim>\<open>encode.go\<close> and \<^verbatim>\<open>decode.go\<close> is an interpretation.
\<close>

subsection \<open>Feeding a decoder\<close>

lemma feed_simps [simp]:
  "avail (feed bs d) = bs" "d_err (feed bs d) = d_err d" "d_role (feed bs d) = d_role d"
  "d_gotHello (feed bs d) = d_gotHello d" "rd_end (d_r (feed bs d)) = rd_end (d_r d)"
  "feed bs (feed cs d) = feed bs d" "feed (avail d) d = d"
  by (simp_all add: feed_def)

lemma strict_prefix_append_cases:
  assumes "strict_prefix p (xs @ ys)" and "\<not> strict_prefix p xs"
  obtains q where "p = xs @ q" and "strict_prefix q ys"
proof -
  from assms have "p = xs \<or> (\<exists>us. p = xs @ us \<and> prefix us ys)" and "p \<noteq> xs @ ys"
    by (auto simp: strict_prefix_def prefix_append)
  then show ?thesis
    by (metis append.right_neutral prefix_bot.extremum_strict same_append_eq strict_prefixI
        prefix_bot.not_eq_extremum that)
qed

lemma feed_trans: "e = feed (avail e) d \<Longrightarrow> d' = feed (avail d') e \<Longrightarrow> d' = feed (avail d') d"
  by (metis feed_simps(6))

lemma feed_same: "e = feed (avail e) d \<Longrightarrow> feed bs e = feed bs d"
  by (metis feed_simps(6))

lemma b_raw_simps [simp]:
  "b_raw p (b_raw q b) = b_raw (q @ p) b" "b_buf (b_raw p b) = b_buf b @ p"
  "b_err (b_raw p b) = b_err b" "b_raw [] b = b"
  by (simp_all add: b_raw_def)

lemma b_fail_err [simp]: "b_err (b_fail e b) = (if b_err b = None then Some e else b_err b)"
  by (simp add: b_fail_def)

subsection \<open>The contract of a field\<close>

locale field_codec =
  fixes put :: "'a \<Rightarrow> builder \<Rightarrow> builder"
    and getf :: "'a dec"
    and enc :: "'a \<Rightarrow> bytes"
    and ok :: "'a \<Rightarrow> bool"
  assumes put_ok: "ok x \<Longrightarrow> put x b = b_raw (enc x) b"
    and put_bad: "\<not> ok x \<Longrightarrow> b_err (put x b) \<noteq> None"
    and put_err: "b_err b \<noteq> None \<Longrightarrow> b_err (put x b) = b_err b"
    and get_ok: "d_err d = None \<Longrightarrow> ok x \<Longrightarrow>
      run_state getf (feed (enc x @ rest) d) = (x, feed rest d)"
    and get_sound: "d_err d = None \<Longrightarrow> run_state getf d = (x, d') \<Longrightarrow> d_err d' = None \<Longrightarrow>
      ok x \<and> avail d = enc x @ avail d' \<and> d' = feed (avail d') d"
    and get_err: "err_set d \<Longrightarrow> d_err (snd (run_state getf d)) = d_err d"
    and get_short: "d_err d = None \<Longrightarrow> ok x \<Longrightarrow> strict_prefix p (enc x) \<Longrightarrow>
      rd_end (d_r d) = EOF \<Longrightarrow>
      d_err (snd (run_state getf (feed p d))) = Some (WIO UnexpectedEOF)"
begin

lemma put_none_iff: "b_err (put x b) = None \<longleftrightarrow> b_err b = None \<and> ok x"
  using put_ok [of x b] put_bad [of x b] put_err [of b x] by (cases "ok x") auto

lemma checked:
  assumes bad: "\<And>x. bad x = None \<longleftrightarrow> P x"
    and put': "\<And>x b. put' x b = (if P x then put x b else b_fail (f x) b)"
  shows "field_codec put' (d_check bad z getf) enc (\<lambda>x. ok x \<and> P x)"
proof
  fix x and b :: builder
  show "ok x \<and> P x \<Longrightarrow> put' x b = b_raw (enc x) b"
    by (simp add: put' put_ok)
  show "\<not> (ok x \<and> P x) \<Longrightarrow> b_err (put' x b) \<noteq> None"
    using put_bad [of x b] by (auto simp: put')
  show "b_err b \<noteq> None \<Longrightarrow> b_err (put' x b) = b_err b"
    by (auto simp: put' put_err)
next
  fix d :: decoder and x rest
  assume "d_err d = None" and "ok x \<and> P x"
  then show "run_state (d_check bad z getf) (feed (enc x @ rest) d) = (x, feed rest d)"
    using bad [of x] by (simp add: d_check_def get_ok)
next
  fix d x d'
  assume d: "d_err d = None" "run_state (d_check bad z getf) d = (x, d')" "d_err d' = None"
  obtain y e where y: "run_state getf d = (y, e)"
    by (cases "run_state getf d")
  with d bad [of y] have "x = y \<and> d' = e \<and> P y"
    by (auto simp: d_check_def d_fail_def split: option.splits if_splits)
  with d y get_sound [of d y e]
  show "(ok x \<and> P x) \<and> avail d = enc x @ avail d' \<and> d' = feed (avail d') d"
    by auto
next
  fix d :: decoder
  assume "err_set d"
  then show "d_err (snd (run_state (d_check bad z getf) d)) = d_err d"
    using get_err [of d]
    by (auto simp: d_check_def d_fail_def split: option.splits prod.splits)
next
  fix d :: decoder and x p
  assume "d_err d = None" and "ok x \<and> P x" and "strict_prefix p (enc x)" and "rd_end (d_r d) = EOF"
  then have "d_err (snd (run_state getf (feed p d))) = Some (WIO UnexpectedEOF)"
    by (auto intro: get_short)
  then show "d_err (snd (run_state (d_check bad z getf) (feed p d))) = Some (WIO UnexpectedEOF)"
    by (auto simp: d_check_def d_fail_def split: option.splits prod.splits)
qed

lemma mapped:
  assumes fg: "\<And>y. f (g y) = y" and gf: "\<And>x. g (f x) = x"
  shows "field_codec (\<lambda>x. put (f x)) (do { y \<leftarrow> getf; State_Monad.return (g y) })
    (\<lambda>x. enc (f x)) (\<lambda>x. ok (f x))"
proof
  fix d x d'
  assume d: "d_err d = None" "d_err d' = None"
    and r: "run_state (do { y \<leftarrow> getf; State_Monad.return (g y) }) d = (x, d')"
  then obtain y where "run_state getf d = (y, d')" and "x = g y"
    by (auto split: prod.splits)
  with d get_sound [of d y d']
  show "ok (f x) \<and> avail d = enc (f x) @ avail d' \<and> d' = feed (avail d') d"
    by (simp add: fg)
next
  fix d :: decoder and x p
  assume "d_err d = None" "ok (f x)" "strict_prefix p (enc (f x))" "rd_end (d_r d) = EOF"
  then have "d_err (snd (run_state getf (feed p d))) = Some (WIO UnexpectedEOF)"
    by (rule get_short)
  then show "d_err (snd (run_state (do { y \<leftarrow> getf; State_Monad.return (g y) }) (feed p d)))
      = Some (WIO UnexpectedEOF)"
    by (auto split: prod.splits)
next
  fix d :: decoder
  assume "err_set d"
  then show "d_err (snd (run_state (do { y \<leftarrow> getf; State_Monad.return (g y) }) d)) = d_err d"
    using get_err [of d] by (auto split: prod.splits)
qed (simp_all add: put_ok put_bad put_err get_ok gf)

lemma paired:
  assumes "field_codec put2 get2 enc2 ok2"
  shows "field_codec (\<lambda>(x, y) b. put2 y (put x b))
    (do { x \<leftarrow> getf; y \<leftarrow> get2; State_Monad.return (x, y) })
    (\<lambda>(x, y). enc x @ enc2 y) (\<lambda>(x, y). ok x \<and> ok2 y)"
    (is "field_codec ?put ?get ?enc ?ok")
proof -
  note b = assms
  show ?thesis
  proof
    fix xy and c :: builder
    show "?ok xy \<Longrightarrow> ?put xy c = b_raw (?enc xy) c"
      by (auto simp: put_ok field_codec.put_ok [OF b])
    show "\<not> ?ok xy \<Longrightarrow> b_err (?put xy c) \<noteq> None"
      using put_bad field_codec.put_none_iff [OF b] by (cases xy) auto
    show "b_err c \<noteq> None \<Longrightarrow> b_err (?put xy c) = b_err c"
      by (cases xy) (simp add: put_err field_codec.put_err [OF b])
  next
    fix d :: decoder and xy rest
    assume "d_err d = None" and "?ok xy"
    then show "run_state ?get (feed (?enc xy @ rest) d) = (xy, feed rest d)"
      by (cases xy) (simp add: get_ok field_codec.get_ok [OF b])
  next
    fix d xy d'
    assume d: "d_err d = None" "run_state ?get d = (xy, d')" "d_err d' = None"
    then obtain x e y where xe: "run_state getf d = (x, e)" "run_state get2 e = (y, d')" "xy = (x, y)"
      by (auto split: prod.splits)
    have e: "d_err e = None"
      using field_codec.get_err [OF b, of e] xe d by (metis snd_conv)
    show "?ok xy \<and> avail d = ?enc xy @ avail d' \<and> d' = feed (avail d') d"
      using get_sound [OF d(1) xe(1) e] field_codec.get_sound [OF b e xe(2) d(3)] xe(3)
      by (auto intro: feed_trans)
  next
    fix d :: decoder
    assume "err_set d"
    then show "d_err (snd (run_state ?get d)) = d_err d"
      using get_err [of d] field_codec.get_err [OF b]
      by (auto split: prod.splits) (metis snd_conv)
  next
    fix d :: decoder and xy p
    assume d: "d_err d = None" "?ok xy" "strict_prefix p (?enc xy)" "rd_end (d_r d) = EOF"
    obtain x y where xy: "xy = (x, y)" by (cases xy)
    show "d_err (snd (run_state ?get (feed p d))) = Some (WIO UnexpectedEOF)"
    proof (cases "strict_prefix p (enc x)")
      case True
      with d xy have "d_err (snd (run_state getf (feed p d))) = Some (WIO UnexpectedEOF)"
        by (auto intro: get_short)
      then show ?thesis
        using field_codec.get_err [OF b, of "snd (run_state getf (feed p d))"]
        by (auto split: prod.splits)
    next
      case False
      with d(3) xy obtain q where q: "p = enc x @ q" "strict_prefix q (enc2 y)"
        by (auto elim: strict_prefix_append_cases)
      with d xy show ?thesis
        using field_codec.get_short [OF b, of d y q]
        by (auto simp: get_ok split: prod.splits)
    qed
  qed
qed

lemma fold_put_ok: "\<forall>x \<in> set xs. ok x \<Longrightarrow> fold put xs b = b_raw (concat (map enc xs)) b"
  by (induction xs arbitrary: b) (simp_all add: put_ok)

lemma fold_put_err: "b_err b \<noteq> None \<Longrightarrow> b_err (fold put xs b) = b_err b"
proof (induction xs arbitrary: b)
  case (Cons x xs)
  have "b_err (put x b) = b_err b"
    using Cons.prems by (rule put_err)
  with Cons.IH [of "put x b"] Cons.prems show ?case
    by simp
qed simp

lemma fold_put_none_iff:
  "b_err (fold put xs b) = None \<longleftrightarrow> b_err b = None \<and> (\<forall>x \<in> set xs. ok x)"
  by (induction xs arbitrary: b) (auto simp: put_none_iff)

lemma repeat_ok:
  "d_err d = None \<Longrightarrow> \<forall>x \<in> set xs. ok x \<Longrightarrow>
   run_state (d_repeat getf (length xs) acc) (feed (concat (map enc xs) @ rest) d)
     = (acc @ xs, feed rest d)"
  by (induction xs arbitrary: acc) (simp_all add: get_ok)

lemma repeat_err: "err_set d \<Longrightarrow> d_err (snd (run_state (d_repeat getf n acc) d)) = d_err d"
proof (cases n)
  case (Suc m)
  assume "err_set d"
  with get_err [of d] Suc show ?thesis
    by (auto split: prod.splits)
qed simp

lemma repeat_sound:
  "d_err d = None \<Longrightarrow> run_state (d_repeat getf n acc) d = (ys, d') \<Longrightarrow> d_err d' = None \<Longrightarrow>
   \<exists>xs. ys = acc @ xs \<and> length xs = n \<and> (\<forall>x \<in> set xs. ok x) \<and>
     avail d = concat (map enc xs) @ avail d' \<and> d' = feed (avail d') d"
proof (induction n arbitrary: acc d)
  case (Suc n)
  obtain x e where x: "run_state getf d = (x, e)"
    by (cases "run_state getf d")
  with Suc.prems have e: "d_err e = None"
    and r: "run_state (d_repeat getf n (acc @ [x])) e = (ys, d')"
    by (auto split: if_splits)
  from Suc.IH [OF e r Suc.prems(3)] obtain xs where
    xs: "ys = (acc @ [x]) @ xs" "length xs = n" "\<forall>x \<in> set xs. ok x"
      "avail e = concat (map enc xs) @ avail d'" "d' = feed (avail d') e"
    by blast
  from get_sound [OF Suc.prems(1) x e]
  have "ok x" "avail d = enc x @ avail e" and "d' = feed (avail d') d"
    using xs(5) by (auto intro: feed_trans)
  with xs(1-4) show ?case
    by (intro exI [of _ "x # xs"]) simp
qed simp

lemma repeat_short:
  "d_err d = None \<Longrightarrow> \<forall>x \<in> set xs. ok x \<Longrightarrow> strict_prefix p (concat (map enc xs)) \<Longrightarrow>
   rd_end (d_r d) = EOF \<Longrightarrow>
   d_err (snd (run_state (d_repeat getf (length xs) acc) (feed p d))) = Some (WIO UnexpectedEOF)"
proof (induction xs arbitrary: p acc)
  case (Cons x xs)
  show ?case
  proof (cases "strict_prefix p (enc x)")
    case True
    with Cons.prems get_short [of d x p] show ?thesis
      by (auto split: prod.splits)
  next
    case False
    with Cons.prems(3) obtain q where "p = enc x @ q" "strict_prefix q (concat (map enc xs))"
      by (auto elim: strict_prefix_append_cases simp del: concat_eq_Nil_conv)
    with Cons show ?thesis
      by (simp add: get_ok)
  qed
qed simp

end

subsection \<open>Fixed-width integers\<close>

lemma run_d_read:
  "run_state (d_read n) d =
     (if err_set d then (None, d)
      else if n \<le> length (avail d) then (Some (take n (avail d)), feed (drop n (avail d)) d)
      else (None, (feed [] d)\<lparr>d_err := Some (WIO (if rd_end (d_r d) = EOF then UnexpectedEOF
              else rd_end (d_r d)))\<rparr>))"
  by (auto simp: d_read_def ReadFull_def feed_def)

lemma d_word_codec:
  assumes n: "LENGTH('a::len) = 8 * n"
  shows "field_codec (\<lambda>v. b_raw (le n v)) (d_word n :: 'a word dec) (le n) (\<lambda>_. True)"
proof
  fix d :: decoder and x :: "'a word" and d'
  assume d: "d_err d = None" "run_state (d_word n) d = (x, d')" "d_err d' = None"
  then have l: "n \<le> length (avail d)" and "d' = feed (drop n (avail d)) d"
    and x: "x = un_le (take n (avail d))"
    by (auto simp: d_word_def run_d_read split: if_splits)
  moreover have "le (length (take n (avail d))) x = take n (avail d)"
    unfolding x using n by (intro le_un_le) simp
  ultimately show "True \<and> avail d = le n x @ avail d' \<and> d' = feed (avail d') d"
    by simp
qed (use n in \<open>auto simp: d_word_def run_d_read dest: prefix_length_less\<close>)

interpretation u8: field_codec b_u8 d_u8 "\<lambda>v. [v]" "\<lambda>_. True"
proof -
  have "le (Suc 0) = (\<lambda>v :: byte. [v])"
    by (rule ext) simp
  then show "field_codec b_u8 d_u8 (\<lambda>v. [v]) (\<lambda>_. True)"
    using d_word_codec [where 'a = 8 and n = 1]
    by (simp add: b_u8_def [abs_def] d_u8_def b_raw_def [abs_def])
qed

interpretation u16: field_codec b_u16 d_u16 "le 2" "\<lambda>_. True"
  using d_word_codec [where 'a = 16 and n = 2]
  by (simp add: b_u16_def [abs_def] d_u16_def b_raw_def [abs_def])

interpretation u32: field_codec b_u32 d_u32 "le 4" "\<lambda>_. True"
  using d_word_codec [where 'a = 32 and n = 4]
  by (simp add: b_u32_def [abs_def] d_u32_def b_raw_def [abs_def])

interpretation u64: field_codec b_u64 d_u64 "le 8" "\<lambda>_. True"
  using d_word_codec [where 'a = 64 and n = 8]
  by (simp add: b_u64_def [abs_def] d_u64_def b_raw_def [abs_def])

lemmas u8_get_ok = u8.get_ok [simplified]

subsection \<open>Counted bytes and strings\<close>

lemma run_d_bytes:
  "run_state (d_bytes n) d =
     (if err_set d \<or> n = 0 then ([], d)
      else if n \<le> length (avail d) then (take n (avail d), feed (drop n (avail d)) d)
      else ([], (feed [] d)\<lparr>d_err := Some (WIO (if rd_end (d_r d) = EOF then UnexpectedEOF
              else rd_end (d_r d)))\<rparr>))"
  by (simp add: d_bytes_def run_d_read)

locale count_codec = field_codec put getf enc "\<lambda>_. True"
  for put :: "'n::len word \<Rightarrow> builder \<Rightarrow> builder" and getf enc
begin

lemma in_range:
  assumes "\<And>x. bad x = None \<longleftrightarrow> P x"
    and "\<And>x b. put' x b = (if P x then put x b else b_fail (f x) b)"
  shows "field_codec put' (d_check bad z getf) enc P"
  using checked [OF assms] by simp

lemma counted:
  assumes put': "\<And>s b. put' s b =
      (if length s < 2 ^ LENGTH('n) then b_raw s (put (of_nat (length s)) b) else b_fail (f s) b)"
  shows "field_codec put' (do { n \<leftarrow> getf; d_bytes (unat n) })
    (\<lambda>s. enc (of_nat (length s)) @ s) (\<lambda>s. length s < 2 ^ LENGTH('n))"
    (is "field_codec _ ?get ?enc ?ok")
proof
  fix s and b :: builder
  show "?ok s \<Longrightarrow> put' s b = b_raw (?enc s) b"
    by (simp add: put' put_ok)
  show "\<not> ?ok s \<Longrightarrow> b_err (put' s b) \<noteq> None"
    by (simp add: put')
  show "b_err b \<noteq> None \<Longrightarrow> b_err (put' s b) = b_err b"
    by (auto simp: put' put_err)
next
  fix d :: decoder and s rest
  assume "d_err d = None" and "?ok s"
  then show "run_state ?get (feed (?enc s @ rest) d) = (s, feed rest d)"
    by (simp add: get_ok run_d_bytes)
next
  fix d s d'
  assume d: "d_err d = None" "run_state ?get d = (s, d')" "d_err d' = None"
  obtain n e where n: "run_state getf d = (n, e)" by (cases "run_state getf d")
  with d have e: "d_err e = None" and l: "unat n \<le> length (avail e)"
    and s: "s = take (unat n) (avail e)" and d': "d' = feed (drop (unat n) (avail e)) e"
    by (auto simp: run_d_bytes split: if_splits)
  then have "length s = unat n"
    by simp
  with get_sound [OF d(1) n e] s d' show "?ok s \<and> avail d = ?enc s @ avail d' \<and> d' = feed (avail d') d"
    using unsigned_less [of n, where ?'a = nat] by (auto intro: feed_same)
next
  fix d :: decoder
  assume "err_set d"
  then show "d_err (snd (run_state ?get d)) = d_err d"
    using get_err [of d] by (auto simp: run_d_bytes split: prod.splits)
next
  fix d :: decoder and s p
  assume d: "d_err d = None" "?ok s" "strict_prefix p (?enc s)" "rd_end (d_r d) = EOF"
  show "d_err (snd (run_state ?get (feed p d))) = Some (WIO UnexpectedEOF)"
  proof (cases "strict_prefix p (enc (of_nat (length s)))")
    case True
    with d get_short [where x = "of_nat (length s)" and p = p and d = d] show ?thesis
      by (auto simp: run_d_bytes split: prod.splits)
  next
    case False
    with d(3) obtain q where "p = enc (of_nat (length s)) @ q" "strict_prefix q s"
      by (rule strict_prefix_append_cases)
    with d show ?thesis
      using prefix_length_less [of q s]
      by (auto simp: get_ok run_d_bytes)
  qed
qed

end

interpretation u8c: count_codec b_u8 d_u8 "\<lambda>v. [v]"
  by unfold_locales

interpretation u16c: count_codec b_u16 d_u16 "le 2"
  by unfold_locales

interpretation u32c: count_codec b_u32 d_u32 "le 4"
  by unfold_locales

interpretation u64c: count_codec b_u64 d_u64 "le 8"
  by unfold_locales

definition enc_str8 :: "string \<Rightarrow> bytes" where
  "enc_str8 s = of_nat (length s) # str_bytes s"

definition enc_str16 :: "string \<Rightarrow> bytes" where
  "enc_str16 s = le 2 (of_nat (length s) :: u16) @ str_bytes s"

definition enc_chunk :: "bytes \<Rightarrow> bytes" where
  "enc_chunk p = le 4 (of_nat (length p) :: u32) @ p"

interpretation str8: field_codec "b_str8 what" d_str8 enc_str8 "\<lambda>s. length s < 256" for what
proof -
  have "field_codec (\<lambda>s b. if length s > 255 then b_fail (Str8TooLong what (length s)) b
      else b_raw s (b_u8 (of_nat (length s)) b))
    (do { n \<leftarrow> d_u8; d_bytes (unat n) }) (\<lambda>s. [of_nat (length s)] @ s)
    (\<lambda>s. length s < 256)"
    using u8c.counted [of "\<lambda>s b. if length s > 255 then b_fail (Str8TooLong what (length s)) b
      else b_raw s (b_u8 (of_nat (length s)) b)" "\<lambda>s. Str8TooLong what (length s)"] by auto
  from field_codec.mapped [OF this, of str_bytes bytes_str]
  show "field_codec (b_str8 what) d_str8 enc_str8 (\<lambda>s. length s < 256)"
    by (simp add: b_str8_def [abs_def] d_str8_def enc_str8_def [abs_def] cong: if_cong)
qed

interpretation str16: field_codec "b_str16 what" d_str16 enc_str16 "\<lambda>s. length s < 65536" for what
proof -
  have "field_codec (\<lambda>s b. if length s > 65535 then b_fail (Str16TooLong what (length s)) b
      else b_raw s (b_u16 (of_nat (length s)) b))
    (do { n \<leftarrow> d_u16; d_bytes (unat n) }) (\<lambda>s. le 2 (of_nat (length s) :: u16) @ s)
    (\<lambda>s. length s < 65536)"
    using u16c.counted [of "\<lambda>s b. if length s > 65535 then b_fail (Str16TooLong what (length s)) b
      else b_raw s (b_u16 (of_nat (length s)) b)" "\<lambda>s. Str16TooLong what (length s)"] by auto
  from field_codec.mapped [OF this, of str_bytes bytes_str]
  show "field_codec (b_str16 what) d_str16 enc_str16 (\<lambda>s. length s < 65536)"
    by (simp add: b_str16_def [abs_def] d_str16_def enc_str16_def [abs_def] cong: if_cong)
qed

subsection \<open>Checked fields\<close>

interpretation name8: field_codec "b_name8 what" "d_name8 what" enc_str8
  "\<lambda>s. length s < 256 \<and> ValidString s" for what
  unfolding d_name8_def
  by (rule str8.checked [where f = "\<lambda>_. NotUTF8 what"]) (auto simp: b_name8_def)

interpretation text16: field_codec "b_text16 what" "d_text16 what" enc_str16
  "\<lambda>s. length s < 65536 \<and> ValidString s" for what
  unfolding d_text16_def
  by (rule str16.checked [where f = "\<lambda>_. NotUTF8 what"]) (auto simp: b_text16_def)

interpretation job: field_codec b_job d_job "le 8" "\<lambda>j. j \<noteq> 0"
  unfolding d_job_def
  by (rule u64c.in_range [where f = "\<lambda>_. JobZero"]) (auto simp: b_job_def)

interpretation slots: field_codec b_slots d_slots "le 2" "\<lambda>n. \<not> n < 1"
  unfolding d_slots_def
  by (rule u16c.in_range [where f = "\<lambda>_. NoSlots"]) (auto simp: b_slots_def)

interpretation status: field_codec b_status d_status "le 2"
  "\<lambda>s. \<not> (s < minStatus \<or> s > maxStatus)"
  unfolding d_status_def
  by (rule u16c.in_range [where f = BadStatus]) (auto simp: b_status_def)

lemma d_chunk_alt:
  "d_chunk = d_check (\<lambda>p. if p = [] then Some EmptyChunk else None) []
     (do { n \<leftarrow> d_u32; d_bytes (unat n) })"
  by (rule state_ext)
    (auto simp: d_chunk_def d_check_def run_d_bytes d_fail_def unsigned_eq_0_iff split: prod.splits)

interpretation chunk: field_codec b_chunk d_chunk enc_chunk
  "\<lambda>p. length p < 4294967296 \<and> p \<noteq> []"
proof -
  let ?put = "\<lambda>s b. if length s < 4294967296 then b_raw s (b_u32 (of_nat (length s)) b)
    else b_fail (ChunkTooLong (length s)) b"
  have "field_codec ?put (do { n \<leftarrow> d_u32; d_bytes (unat n) }) enc_chunk (\<lambda>p. length p < 4294967296)"
    using u32c.counted [of ?put "\<lambda>s. ChunkTooLong (length s)"]
    by (simp add: enc_chunk_def [abs_def])
  from field_codec.checked [OF this, of "\<lambda>p. if p = [] then Some EmptyChunk else None"
      "\<lambda>p. p \<noteq> []" b_chunk "\<lambda>_. EmptyChunk" "[]"]
  show "field_codec b_chunk d_chunk enc_chunk (\<lambda>p. length p < 4294967296 \<and> p \<noteq> [])"
    by (simp add: b_chunk_def d_chunk_alt not_less Suc_le_eq)
qed

subsection \<open>Composite fields\<close>

definition enc_header :: "header \<Rightarrow> bytes" where
  "enc_header h = enc_str8 (h_Name h) @ enc_str16 (h_Value h)"

definition ok_header :: "header \<Rightarrow> bool" where
  "ok_header h \<longleftrightarrow> length (h_Name h) < 256 \<and> length (h_Value h) < 65536"

interpretation header: field_codec b_header d_header enc_header ok_header
proof -
  from field_codec.mapped [OF str8.paired [OF str16.field_codec_axioms],
      of "\<lambda>h. (h_Name h, h_Value h)" "\<lambda>(n, v). \<lparr>h_Name = n, h_Value = v\<rparr>"]
  show "field_codec b_header d_header enc_header ok_header"
    by (simp add: b_header_def [abs_def] d_header_def enc_header_def [abs_def] ok_header_def [abs_def]
        case_prod_beta)
qed

definition enc_provider :: "provider_info \<Rightarrow> bytes" where
  "enc_provider p =
     enc_str8 (pi_Service p) @ le 2 (pi_MaxConcurrent p) @ le 2 (pi_Priority p)"

definition ok_provider :: "provider_info \<Rightarrow> bool" where
  "ok_provider p \<longleftrightarrow> (length (pi_Service p) < 256 \<and> ValidString (pi_Service p)) \<and>
     \<not> pi_MaxConcurrent p < 1"

interpretation provider: field_codec b_provider d_provider enc_provider ok_provider
proof -
  from field_codec.mapped [OF name8.paired [OF slots.paired [OF u16.field_codec_axioms]],
      of "\<lambda>p. (pi_Service p, pi_MaxConcurrent p, pi_Priority p)"
        "\<lambda>(s, n, p). \<lparr>pi_Service = s, pi_MaxConcurrent = n, pi_Priority = p\<rparr>"]
  show "field_codec b_provider d_provider enc_provider ok_provider"
    by (simp add: b_provider_def [abs_def] d_provider_def enc_provider_def [abs_def]
        ok_provider_def [abs_def] case_prod_beta)
qed

definition enc_headers :: "header list \<Rightarrow> bytes" where
  "enc_headers hs = le 2 (of_nat (length hs) :: u16) @ concat (map enc_header hs)"

definition ok_headers :: "header list \<Rightarrow> bool" where
  "ok_headers hs \<longleftrightarrow> length hs < 65536 \<and> (\<forall>h \<in> set hs. ok_header h)"

lemma run_d_headers:
  "run_state d_headers d = (case run_state d_u16 d of (n, e) \<Rightarrow>
     if err_set e then ([], e) else run_state (d_repeat d_header (unat n) []) e)"
  by (simp add: d_headers_def split: prod.splits)

interpretation headers: field_codec b_headers d_headers enc_headers ok_headers
proof
  fix hs and b :: builder
  show "ok_headers hs \<Longrightarrow> b_headers hs b = b_raw (enc_headers hs) b"
    by (simp add: ok_headers_def b_headers_def enc_headers_def header.fold_put_ok u16.put_ok)
  show "\<not> ok_headers hs \<Longrightarrow> b_err (b_headers hs b) \<noteq> None"
    using header.fold_put_none_iff [of hs "b_u16 (of_nat (length hs)) b"]
    by (auto simp: ok_headers_def b_headers_def)
  show "b_err b \<noteq> None \<Longrightarrow> b_err (b_headers hs b) = b_err b"
    using header.fold_put_err [of "b_u16 (of_nat (length hs)) b" hs]
    by (auto simp: b_headers_def u16.put_err)
next
  fix d :: decoder and hs rest
  assume "d_err d = None" and "ok_headers hs"
  then show "run_state d_headers (feed (enc_headers hs @ rest) d) = (hs, feed rest d)"
    using header.repeat_ok [of d hs "[]" rest]
    by (simp add: run_d_headers enc_headers_def ok_headers_def u16.get_ok)
next
  fix d hs d'
  assume d: "d_err d = None" "run_state d_headers d = (hs, d')" "d_err d' = None"
  obtain n e where n: "run_state d_u16 d = (n, e)" by (cases "run_state d_u16 d")
  with d have e: "d_err e = None" and r: "run_state (d_repeat d_header (unat n) []) e = (hs, d')"
    by (auto simp: run_d_headers split: if_splits)
  have "length hs = unat n" "\<forall>h \<in> set hs. ok_header h"
    "avail e = concat (map enc_header hs) @ avail d'" "d' = feed (avail d') e"
    using header.repeat_sound [OF e r d(3)] by auto
  moreover have "length hs < 65536"
    using \<open>length hs = unat n\<close> unsigned_less [of n, where ?'a = nat] by simp
  ultimately show "ok_headers hs \<and> avail d = enc_headers hs @ avail d' \<and> d' = feed (avail d') d"
    using u16.get_sound [OF d(1) n e]
    by (auto simp: ok_headers_def enc_headers_def intro: feed_trans)
next
  fix d :: decoder
  assume "err_set d"
  then show "d_err (snd (run_state d_headers d)) = d_err d"
    using u16.get_err [of d] by (auto simp: run_d_headers split: prod.splits)
next
  fix d :: decoder and hs p
  assume d: "d_err d = None" "ok_headers hs" "strict_prefix p (enc_headers hs)"
    "rd_end (d_r d) = EOF"
  show "d_err (snd (run_state d_headers (feed p d))) = Some (WIO UnexpectedEOF)"
  proof (cases "strict_prefix p (le 2 (of_nat (length hs) :: u16))")
    case True
    with d u16.get_short [where x = "of_nat (length hs)" and p = p and d = d] show ?thesis
      by (auto simp: run_d_headers split: prod.splits)
  next
    case False
    with d(3) obtain q where "p = le 2 (of_nat (length hs) :: u16) @ q"
      "strict_prefix q (concat (map enc_header hs))"
      unfolding enc_headers_def by (rule strict_prefix_append_cases)
    with d header.repeat_short [of d hs q "[]"] show ?thesis
      by (simp add: run_d_headers ok_headers_def u16.get_ok)
  qed
qed

end
