(* ===== verification/Wire_Stream.thy ===== *)
theory Wire_Stream
  imports Wire_Laws
begin

text \<open>
  Whole messages and whole streams: what \<^const>\<open>Encode\<close> writes, what \<^const>\<open>Next\<close> reads,
  the HELLO order both ends keep, and that a stream of messages arrives as it was sent.
\<close>

subsection \<open>The format, message by message\<close>

fun enc_fields :: "message \<Rightarrow> bytes" where
  "enc_fields (Hello name ps) =
     enc_str8 name @ of_nat (length ps) # concat (map enc_provider ps)"
| "enc_fields Ping = []"
| "enc_fields Pong = []"
| "enc_fields (Request j service method target hs) =
     le 8 j @ enc_str8 service @ enc_str8 method @ enc_str16 target @ enc_headers hs"
| "enc_fields (Response j st hs) = le 8 j @ le 2 st @ enc_headers hs"
| "enc_fields (Body j p) = le 8 j @ enc_chunk p"
| "enc_fields (End j ts) = le 8 j @ enc_headers ts"
| "enc_fields (Cancel j) = le 8 j"
| "enc_fields (Fail j r) = le 8 j @ enc_str16 r"

fun ok_msg :: "message \<Rightarrow> bool" where
  "ok_msg (Hello name ps) \<longleftrightarrow> (length name < 256 \<and> ValidString name) \<and> length ps < 256 \<and>
     (\<forall>p \<in> set ps. ok_provider p)"
| "ok_msg Ping \<longleftrightarrow> True"
| "ok_msg Pong \<longleftrightarrow> True"
| "ok_msg (Request j service method target hs) \<longleftrightarrow>
     j \<noteq> 0 \<and> (length service < 256 \<and> ValidString service) \<and> length method < 256 \<and>
     length target < 65536 \<and> ok_headers hs"
| "ok_msg (Response j st hs) \<longleftrightarrow>
     j \<noteq> 0 \<and> \<not> (st < minStatus \<or> st > maxStatus) \<and> ok_headers hs"
| "ok_msg (Body j p) \<longleftrightarrow> j \<noteq> 0 \<and> length p < 4294967296 \<and> p \<noteq> []"
| "ok_msg (End j ts) \<longleftrightarrow> j \<noteq> 0 \<and> ok_headers ts"
| "ok_msg (Cancel j) \<longleftrightarrow> j \<noteq> 0"
| "ok_msg (Fail j r) \<longleftrightarrow> j \<noteq> 0 \<and> length r < 65536 \<and> ValidString r"

lemmas put_oks = job.put_ok str8.put_ok str16.put_ok name8.put_ok text16.put_ok status.put_ok
  chunk.put_ok headers.put_ok u8.put_ok

lemmas put_none_iffs = job.put_none_iff str8.put_none_iff str16.put_none_iff name8.put_none_iff
  text16.put_none_iff status.put_none_iff chunk.put_none_iff headers.put_none_iff
  provider.fold_put_none_iff

lemma encode_fields_ok: "ok_msg m \<Longrightarrow> encode_fields m b = b_raw (enc_fields m) b"
  by (cases m) (simp_all add: put_oks b_count8_def provider.fold_put_ok)

lemma b_count8_none_iff: "b_err (b_count8 what n b) = None \<longleftrightarrow> b_err b = None \<and> n < 256"
  by (auto simp: b_count8_def u8.put_ok)

lemma encode_fields_none_iff: "b_err (encode_fields m b) = None \<longleftrightarrow> b_err b = None \<and> ok_msg m"
  by (cases m) (auto simp: put_none_iffs b_count8_none_iff)

text \<open>\<^const>\<open>Encode\<close> accepts exactly the messages in range, and writes exactly the format.\<close>

lemma Encode_ok: "ok_msg m \<Longrightarrow> Encode dst m = Inr (dst @ Kind m # enc_fields m)"
  by (simp add: Encode_def encode_fields_ok)

lemma Encode_Inr_iff: "Encode dst m = Inr bs \<longleftrightarrow> ok_msg m \<and> bs = dst @ Kind m # enc_fields m"
proof (cases "ok_msg m")
  case False
  then have "b_err (encode_fields m \<lparr>b_buf = dst @ [Kind m], b_err = None\<rparr>) \<noteq> None"
    by (simp add: encode_fields_none_iff)
  with False show ?thesis
    by (auto simp: Encode_def)
qed (auto simp: Encode_ok)

subsection \<open>Reading the fields of a message\<close>

lemma d_fields_kinds:
  "d_fields KindHello = d_hello"
  "d_fields KindPing = State_Monad.return (Some Ping)"
  "d_fields KindPong = State_Monad.return (Some Pong)"
  "d_fields KindRequest = do {
     j \<leftarrow> d_job; service \<leftarrow> d_name8 ''service''; method \<leftarrow> d_str8; target \<leftarrow> d_str16;
     hs \<leftarrow> d_headers; State_Monad.return (Some (Request j service method target hs)) }"
  "d_fields KindResponse = do {
     j \<leftarrow> d_job; s \<leftarrow> d_status; hs \<leftarrow> d_headers; State_Monad.return (Some (Response j s hs)) }"
  "d_fields KindBody = do { j \<leftarrow> d_job; p \<leftarrow> d_chunk; State_Monad.return (Some (Body j p)) }"
  "d_fields KindEnd = do { j \<leftarrow> d_job; ts \<leftarrow> d_headers; State_Monad.return (Some (End j ts)) }"
  "d_fields KindCancel = do { j \<leftarrow> d_job; State_Monad.return (Some (Cancel j)) }"
  "d_fields KindFail = do {
     j \<leftarrow> d_job; r \<leftarrow> d_text16 ''reason''; State_Monad.return (Some (Fail j r)) }"
  by (simp_all add: d_fields_def kind_defs)

lemmas get_oks = job.get_ok str8.get_ok str16.get_ok name8.get_ok text16.get_ok status.get_ok
  chunk.get_ok headers.get_ok u8_get_ok

context field_codec
begin

lemma wrapped_sound:
  assumes "d_err d = None" "d_err d' = None"
    and "run_state (do { t \<leftarrow> getf; State_Monad.return (Some (f t)) }) d = (m, d')"
  shows "\<exists>t. m = Some (f t) \<and> ok t \<and> avail d = enc t @ avail d' \<and> d' = feed (avail d') d"
proof -
  from assms(3) obtain t where t: "run_state getf d = (t, d')" and m: "m = Some (f t)"
    by (auto split: prod.splits)
  show ?thesis
    using get_sound [OF assms(1) t assms(2)] m by auto
qed

lemma wrapped_short:
  assumes "d_err d = None" "ok t" "strict_prefix p (enc t)" "rd_end (d_r d) = EOF"
  shows "d_err (snd (run_state (do { t \<leftarrow> getf; State_Monad.return (Some (f t)) }) (feed p d)))
    = Some (WIO UnexpectedEOF)"
  using get_short [OF assms] by (auto split: prod.splits)

end

lemmas req_codec = job.paired [OF name8.paired [of _ _ _ _ "''service''",
    OF str8.paired [OF str16.paired [OF headers.field_codec_axioms]]]]
lemmas resp_codec = job.paired [OF status.paired [OF headers.field_codec_axioms]]
lemmas body_codec = job.paired [OF chunk.field_codec_axioms]
lemmas end_codec = job.paired [OF headers.field_codec_axioms]
lemmas fail_codec = job.paired [OF text16.field_codec_axioms [of "''reason''"]]

lemma d_fields_ok:
  "\<not> is_hello m \<Longrightarrow> ok_msg m \<Longrightarrow> d_err d = None \<Longrightarrow>
   run_state (d_fields (Kind m)) (feed (enc_fields m @ rest) d) = (Some m, feed rest d)"
  by (cases m) (simp_all add: d_fields_kinds get_oks)

definition reads_message :: "kind \<Rightarrow> decoder \<Rightarrow> message option \<Rightarrow> decoder \<Rightarrow> bool" where
  "reads_message k d mo d' \<longleftrightarrow> (\<exists>m. mo = Some m \<and> Kind m = k \<and> ok_msg m \<and>
     avail d = enc_fields m @ avail d' \<and> d' = feed (avail d') d)"

lemma d_fields_sound:
  assumes "known_kind k" "k \<noteq> KindHello" "d_err d = None" "d_err d' = None"
    and r: "run_state (d_fields k) d = (mo, d')"
  shows "reads_message k d mo d'"
proof -
  note s = assms(3,4)
  consider "k = KindPing" | "k = KindPong" | "k = KindRequest" | "k = KindResponse" | "k = KindBody"
    | "k = KindEnd" | "k = KindCancel" | "k = KindFail"
    using assms(1,2) by (auto simp: known_kind_def)
  then show ?thesis
  proof cases
    case 3
    with r field_codec.wrapped_sound [OF req_codec s,
        of "\<lambda>(j, service, method, target, hs). Request j service method target hs" mo]
    show ?thesis
      by (auto simp: d_fields_kinds reads_message_def case_prod_beta)
  next
    case 4
    with r field_codec.wrapped_sound [OF resp_codec s, of "\<lambda>(j, st, hs). Response j st hs" mo]
    show ?thesis
      by (auto simp: d_fields_kinds reads_message_def case_prod_beta)
  next
    case 5
    with r field_codec.wrapped_sound [OF body_codec s, of "\<lambda>(j, p). Body j p" mo]
    show ?thesis
      by (auto simp: d_fields_kinds reads_message_def case_prod_beta)
  next
    case 6
    with r field_codec.wrapped_sound [OF end_codec s, of "\<lambda>(j, p). End j p" mo]
    show ?thesis
      by (auto simp: d_fields_kinds reads_message_def case_prod_beta)
  next
    case 7
    with r job.wrapped_sound [OF s, of Cancel mo] show ?thesis
      by (auto simp: d_fields_kinds reads_message_def)
  next
    case 8
    with r field_codec.wrapped_sound [OF fail_codec s, of "\<lambda>(j, p). Fail j p" mo]
    show ?thesis
      by (auto simp: d_fields_kinds reads_message_def case_prod_beta)
  qed (use r in \<open>auto simp: d_fields_kinds reads_message_def\<close>)
qed

lemma d_fields_short:
  assumes "\<not> is_hello m" "ok_msg m" "d_err d = None" "strict_prefix p (enc_fields m)"
    "rd_end (d_r d) = EOF"
  shows "d_err (snd (run_state (d_fields (Kind m)) (feed p d))) = Some (WIO UnexpectedEOF)"
proof (cases m)
  case (Request j service meth target hs)
  with assms field_codec.wrapped_short [OF req_codec, of d "(j, service, meth, target, hs)" p
      "\<lambda>(j, service, meth, target, hs). Request j service meth target hs"]
  show ?thesis
    by (simp add: d_fields_kinds case_prod_beta)
next
  case (Response j st hs)
  with assms field_codec.wrapped_short [OF resp_codec, of d "(j, st, hs)" p
      "\<lambda>(j, st, hs). Response j st hs"]
  show ?thesis
    by (simp add: d_fields_kinds case_prod_beta)
next
  case (Body j q)
  with assms field_codec.wrapped_short [OF body_codec, of d "(j, q)" p "\<lambda>(j, p). Body j p"]
  show ?thesis
    by (simp add: d_fields_kinds case_prod_beta)
next
  case (End j q)
  with assms field_codec.wrapped_short [OF end_codec, of d "(j, q)" p "\<lambda>(j, p). End j p"]
  show ?thesis
    by (simp add: d_fields_kinds case_prod_beta)
next
  case (Cancel j)
  with assms job.wrapped_short [of d j p Cancel] show ?thesis
    by (simp add: d_fields_kinds)
next
  case (Fail j q)
  with assms field_codec.wrapped_short [OF fail_codec, of d "(j, q)" p "\<lambda>(j, p). Fail j p"]
  show ?thesis
    by (simp add: d_fields_kinds case_prod_beta)
qed (use assms in auto)

subsection \<open>HELLO\<close>

definition d_said_hello :: "decoder \<Rightarrow> decoder" where
  "d_said_hello d = d\<lparr>d_gotHello := True\<rparr>"

lemma run_d_hello:
  "run_state d_hello d =
     (if d_role d = RoleClient then run_state (do { d_fail ServerSentHello; State_Monad.return None }) d
      else if d_gotHello d then run_state (do { d_fail HelloSentTwice; State_Monad.return None }) d
      else case run_state (d_name8 ''peer name'') d of (name, d1) \<Rightarrow>
        case run_state d_u8 d1 of (n, d2) \<Rightarrow>
          if err_set d2 then (None, d2)
          else case run_state (d_repeat d_provider (unat n) []) d2 of (ps, d3) \<Rightarrow>
            if err_set d3 then (None, d3) else (Some (Hello name ps), d_said_hello d3))"
  by (auto simp: d_hello_def d_said_hello_def split: prod.splits)

lemma d_hello_ok:
  assumes "ok_msg (Hello name ps)" "d_err d = None" "d_role d = RoleServer" "\<not> d_gotHello d"
  shows "run_state d_hello (feed (enc_fields (Hello name ps) @ rest) d)
    = (Some (Hello name ps), d_said_hello (feed rest d))"
  using assms provider.repeat_ok [of d ps "[]" rest]
  by (simp add: run_d_hello get_oks)

lemma d_hello_sound:
  assumes d: "d_err d = None" "run_state d_hello d = (mo, d')" "d_err d' = None"
  shows "d_role d = RoleServer \<and> \<not> d_gotHello d \<and> (\<exists>m. mo = Some m \<and> is_hello m \<and> ok_msg m \<and>
    avail d = enc_fields m @ avail d' \<and> d' = d_said_hello (feed (avail d') d))"
proof -
  have ro: "d_role d = RoleServer" and gh: "\<not> d_gotHello d"
    using d by (cases "d_role d"; auto simp: run_d_hello d_fail_def split: if_splits)+
  obtain name d1 where 1: "run_state (d_name8 ''peer name'') d = (name, d1)" by fastforce
  obtain n d2 where 2: "run_state d_u8 d1 = (n, d2)" by fastforce
  obtain ps d3 where 3: "run_state (d_repeat d_provider (unat n) []) d2 = (ps, d3)" by fastforce
  from d ro gh 1 2 3 have e2: "d_err d2 = None" and e3: "d_err d3 = None"
    and mo: "mo = Some (Hello name ps)" and d': "d' = d_said_hello d3"
    by (auto simp: run_d_hello split: if_splits)
  have e1: "d_err d1 = None"
    using u8.get_err [of d1] 2 e2 by (metis snd_conv)
  note s1 = name8.get_sound [OF d(1) 1 e1] and s2 = u8.get_sound [OF e1 2 e2]
  have s3: "length ps = unat n" "\<forall>p \<in> set ps. ok_provider p"
    "avail d2 = concat (map enc_provider ps) @ avail d3" "d3 = feed (avail d3) d2"
    using provider.repeat_sound [OF e2 3 e3] by auto
  have "length ps < 256" and "(of_nat (length ps) :: byte) = n"
    using s3(1) unsigned_less [of n, where ?'a = nat] by simp_all
  moreover have "d3 = feed (avail d3) d"
    using s1 s2 s3(4) by (blast intro: feed_trans)
  moreover have "avail d' = avail d3"
    by (simp add: d' d_said_hello_def)
  ultimately show ?thesis
    using ro gh s1 s2 s3 mo d' by auto
qed

lemma d_hello_short:
  assumes "ok_msg (Hello name ps)" "d_err d = None" "d_role d = RoleServer" "\<not> d_gotHello d"
    and p: "strict_prefix p (enc_fields (Hello name ps))" and eof: "rd_end (d_r d) = EOF"
  shows "d_err (snd (run_state d_hello (feed p d))) = Some (WIO UnexpectedEOF)"
proof (cases "strict_prefix p (enc_str8 name)")
  case True
  with assms name8.get_short [of d name p]
  have "d_err (snd (run_state (d_name8 ''peer name'') (feed p d))) = Some (WIO UnexpectedEOF)"
    by simp
  with assms u8.get_err [of "snd (run_state (d_name8 ''peer name'') (feed p d))"] show ?thesis
    by (auto simp: run_d_hello split: prod.splits)
next
  case False
  with p obtain q where q: "p = enc_str8 name @ q"
    "strict_prefix q ([of_nat (length ps)] @ concat (map enc_provider ps))"
    by (auto elim: strict_prefix_append_cases)
  show ?thesis
  proof (cases "strict_prefix q [of_nat (length ps)]")
    case True
    with assms q u8.get_short [where d = d and p = q and x = "of_nat (length ps)"] show ?thesis
      by (auto simp: run_d_hello get_oks split: prod.splits)
  next
    case False
    with q(2) obtain r where r: "q = [of_nat (length ps)] @ r"
      "strict_prefix r (concat (map enc_provider ps))"
      by (rule strict_prefix_append_cases)
    with assms provider.repeat_short [of d ps r "[]"]
    have "d_err (snd (run_state (d_repeat d_provider (length ps) []) (feed r d)))
        = Some (WIO UnexpectedEOF)"
      by simp
    with assms q(1) r(1) show ?thesis
      by (auto simp: run_d_hello get_oks split: prod.splits)
  qed
qed

subsection \<open>Next\<close>

text \<open>Which messages the HELLO rule lets through, and what a message does to it.\<close>

definition d_admits :: "decoder \<Rightarrow> message \<Rightarrow> bool" where
  "d_admits d m \<longleftrightarrow>
     (if d_role d = RoleServer then is_hello m = (\<not> d_gotHello d) else \<not> is_hello m)"

definition d_after :: "message \<Rightarrow> decoder \<Rightarrow> decoder" where
  "d_after m d = (if is_hello m then d_said_hello d else d)"

lemma run_Next:
  "run_state Next d =
     (case d_err d of
        Some e \<Rightarrow> (Inl e, d)
      | None \<Rightarrow>
          (case avail d of
             [] \<Rightarrow> (Inl (WIO (rd_end (d_r d))),
                    if rd_end (d_r d) \<noteq> EOF then d\<lparr>d_err := Some (WIO (rd_end (d_r d)))\<rparr> else d)
           | k # rest \<Rightarrow>
               (case run_state (d_message k) (feed rest d) of
                  (Inl e, d') \<Rightarrow> (Inl e, d'\<lparr>d_err := Some e\<rparr>)
                | (Inr m, d') \<Rightarrow> (Inr m, d'))))"
  by (simp add: Next_def split: option.split list.split prod.split sum.split)

lemma run_d_message:
  "run_state (d_message k) d =
     (if d_role d = RoleServer \<and> \<not> d_gotHello d \<and> k \<noteq> KindHello
      then (Inl (ReceivedBeforeHello k), d)
      else if \<not> known_kind k then (Inl (UnknownKind k), d)
      else case run_state (d_fields k) d of (m, d') \<Rightarrow>
        (case d_err d' of Some e \<Rightarrow> Inl e
         | None \<Rightarrow> (case m of Some m \<Rightarrow> Inr m | None \<Rightarrow> Inl NilMessage), d'))"
  by (simp add: d_message_def)

lemma known_kind_Kind [simp]: "known_kind (Kind m)"
  by (cases m) (simp_all add: known_kind_def)

lemma Next_ok:
  assumes "ok_msg m" "d_err d = None" "d_admits d m"
  shows "run_state Next (feed (Kind m # enc_fields m @ rest) d) = (Inr m, d_after m (feed rest d))"
proof (cases "is_hello m")
  case True
  then obtain name ps where m: "m = Hello name ps"
    by (cases m) auto
  with assms have "d_role d = RoleServer" "\<not> d_gotHello d"
    by (auto simp: d_admits_def split: if_splits)
  with m assms d_hello_ok [of name ps d rest] show ?thesis
    using known_kind_Kind [of m]
    by (simp add: run_Next run_d_message d_fields_kinds d_after_def d_said_hello_def del: known_kind_Kind)
next
  case False
  with assms d_fields_ok [of m d rest] show ?thesis
    by (auto simp: run_Next run_d_message d_after_def d_admits_def split: if_splits)
qed

lemma Next_sound:
  assumes d: "d_err d = None" "run_state Next d = (Inr m, d')"
  shows "ok_msg m \<and> d_admits d m \<and> avail d = Kind m # enc_fields m @ avail d' \<and>
    d' = d_after m (feed (avail d') d)"
proof -
  obtain k rest where k: "avail d = k # rest"
    using d by (cases "avail d") (auto simp: run_Next)
  let ?d = "feed rest d"
  from d k have msg: "run_state (d_message k) ?d = (Inr m, d')"
    by (auto simp: run_Next split: prod.splits sum.splits)
  then have kk: "known_kind k" and fields: "run_state (d_fields k) ?d = (Some m, d')"
    and e: "d_err d' = None" and first: "d_role d = RoleServer \<and> \<not> d_gotHello d \<Longrightarrow> k = KindHello"
    by (auto simp: run_d_message split: if_splits prod.splits option.splits)
  show ?thesis
  proof (cases "k = KindHello")
    case True
    with d_hello_sound [of ?d "Some m" d'] fields d(1) e k show ?thesis
      by (auto simp: d_fields_kinds d_admits_def d_after_def)
  next
    case False
    with d_fields_sound [OF kk False _ e fields] d(1) k first show ?thesis
      by (cases "d_role d") (auto simp: reads_message_def d_admits_def d_after_def)
  qed
qed

lemma Next_short:
  assumes m: "ok_msg m" "d_err d = None" "d_admits d m" "rd_end (d_r d) = EOF"
    and p: "strict_prefix p (Kind m # enc_fields m)" "p \<noteq> []"
  shows "fst (run_state Next (feed p d)) = Inl (WIO UnexpectedEOF)"
proof -
  obtain q where q: "p = Kind m # q" "strict_prefix q (enc_fields m)"
    using p by (cases p) (auto simp: strict_prefix_def)
  have "d_err (snd (run_state (d_fields (Kind m)) (feed q d))) = Some (WIO UnexpectedEOF)"
  proof (cases "is_hello m")
    case True
    then obtain name ps where "m = Hello name ps"
      by (cases m) auto
    with m q d_hello_short [of name ps d q] show ?thesis
      by (auto simp: d_admits_def d_fields_kinds split: if_splits)
  next
    case False
    with m q show ?thesis
      by (simp add: d_fields_short)
  qed
  with m q show ?thesis
    by (auto simp: run_Next run_d_message d_admits_def split: prod.splits sum.splits if_splits)
qed

subsection \<open>Streams of messages\<close>

fun send_all :: "encoder \<Rightarrow> message list \<Rightarrow> wire_error option \<times> encoder" where
  "send_all e [] = (None, e)"
| "send_all e (m # ms) =
     (case Encoder_Write e m of
        (Some err, e') \<Rightarrow> (Some err, e')
      | (None, e') \<Rightarrow> send_all e' ms)"

fun recv_n :: "nat \<Rightarrow> decoder \<Rightarrow> message list \<times> decoder" where
  "recv_n 0 d = ([], d)"
| "recv_n (Suc n) d =
     (case run_state Next d of
        (Inl e, d') \<Rightarrow> ([], d')
      | (Inr m, d') \<Rightarrow> (case recv_n n d' of (ms, d'') \<Rightarrow> (m # ms, d'')))"

text \<open>The two ends of one direction agree about HELLO.\<close>

definition ends_agree :: "encoder \<Rightarrow> decoder \<Rightarrow> bool" where
  "ends_agree e d \<longleftrightarrow> d_err d = None \<and> e_role e \<noteq> d_role d \<and>
     (e_role e = RoleClient \<longrightarrow> e_sentHello e = d_gotHello d)"

lemma helloOrder_admits: "ends_agree e d \<Longrightarrow> helloOrder e m = None \<longleftrightarrow> d_admits d m"
  by (cases "e_role e"; cases "d_role d")
    (auto simp: ends_agree_def helloOrder_def d_admits_def Let_def split: if_splits)

lemma Encoder_Write_ok:
  assumes "Encoder_Write e m = (None, e')"
  shows "ok_msg m \<and> helloOrder e m = None \<and> wr_data (e_w e') = wr_data (e_w e) @ Kind m # enc_fields m \<and>
    e_role e' = e_role e \<and> e_sentHello e' = (e_sentHello e \<or> is_hello m)"
proof -
  have ho: "helloOrder e m = None"
    using assms by (auto simp: Encoder_Write_def split: option.splits)
  obtain bs where bs: "Encode [] m = Inr bs"
    using assms ho by (cases "Encode [] m") (auto simp: Encoder_Write_def)
  obtain o1 w where w: "Write bs (e_w e) = (o1, w)"
    by (cases "Write bs (e_w e)")
  with assms ho bs have "o1 = None"
    and e': "e' = (if is_hello m then e\<lparr>e_w := w, e_sentHello := True\<rparr> else e\<lparr>e_w := w\<rparr>)"
    by (auto simp: Encoder_Write_def split: option.splits)
  with w bs ho show ?thesis
    using Write_None [of bs "e_w e" w] by (simp add: Encode_Inr_iff)
qed

lemma d_after_simps [simp]:
  "d_err (d_after m d) = d_err d" "d_role (d_after m d) = d_role d"
  "d_gotHello (d_after m d) = (d_gotHello d \<or> is_hello m)" "avail (d_after m d) = avail d"
  "feed bs (d_after m d) = d_after m (feed bs d)" "rd_end (d_r (d_after m d)) = rd_end (d_r d)"
  by (simp_all add: d_after_def d_said_hello_def feed_def)

lemma send_recv:
  assumes "send_all e ms = (None, e')" "ends_agree e d"
  shows "\<exists>bs. wr_data (e_w e') = wr_data (e_w e) @ bs \<and>
    (\<forall>rest. fst (recv_n (length ms) (feed (bs @ rest) d)) = ms \<and>
      avail (snd (recv_n (length ms) (feed (bs @ rest) d))) = rest)"
  using assms
proof (induction ms arbitrary: e d)
  case (Cons m ms)
  then obtain f where f: "Encoder_Write e m = (None, f)" "send_all f ms = (None, e')"
    by (auto split: prod.splits option.splits)
  note w = Encoder_Write_ok [OF f(1)]
  have adm: "d_admits d m"
    using w helloOrder_admits [OF Cons.prems(2)] by blast
  have "ends_agree f (d_after m d)"
    using Cons.prems(2) w by (auto simp: ends_agree_def)
  from Cons.IH [OF f(2) this] obtain bs where bs:
    "wr_data (e_w e') = wr_data (e_w f) @ bs"
    "\<And>rest. fst (recv_n (length ms) (feed (bs @ rest) (d_after m d))) = ms"
    "\<And>rest. avail (snd (recv_n (length ms) (feed (bs @ rest) (d_after m d)))) = rest"
    by blast
  have "run_state Next (feed ((Kind m # enc_fields m @ bs) @ rest) d)
      = (Inr m, feed (bs @ rest) (d_after m d))" for rest
    using Next_ok [of m d "bs @ rest"] w adm Cons.prems(2) by (simp add: ends_agree_def)
  with bs w show ?case
    by (intro exI [of _ "Kind m # enc_fields m @ bs"]) (simp add: case_prod_beta)
qed simp

subsection \<open>Properties\<close>

text \<open>Every message the encoder accepts is read back by the decoder as the same message,
  consuming exactly its own bytes, whatever follows it on the stream.\<close>

theorem decode_encode:
  assumes "Encode [] m = Inr bs" and "d_err d = None" and "d_admits d m"
  shows "run_state Next (feed (bs @ rest) d) = (Inr m, d_after m (feed rest d))"
  using assms Next_ok [of m d rest] by (simp add: Encode_Inr_iff)

theorem decode_encode_witness:
  "run_state Next (feed ([0x14, 7, 0, 0, 0, 0, 0, 0, 0] @ [0x02])
      (NewDecoder \<lparr>rd_data = [], rd_end = EOF\<rparr> RoleClient))
   = (Inr (Cancel 7), d_after (Cancel 7) (feed [0x02] (NewDecoder \<lparr>rd_data = [], rd_end = EOF\<rparr> RoleClient)))"
  by (rule decode_encode)
    (simp_all add: Encode_def b_job_def b_u64_def KindCancel_def NewDecoder_def d_admits_def
      le_numeral)

text \<open>C14. The format is canonical: a message the decoder accepts is in range, and the bytes it
  consumed are exactly the bytes the encoder writes for it; no byte is skipped.\<close>

theorem decode_canonical:
  assumes "d_err d = None" and "run_state Next d = (Inr m, d')"
  shows "\<exists>bs. Encode [] m = Inr bs \<and> avail d = bs @ avail d' \<and> d' = d_after m (feed (avail d') d)"
  using Next_sound [OF assms] by (auto simp: Encode_Inr_iff)

theorem decode_canonical_witness:
  "\<exists>bs. Encode [] (Cancel 7) = Inr bs \<and> [0x14, 7, 0, 0, 0, 0, 0, 0, 0, 0x02] = bs @ [0x02]"
proof -
  let ?d = "NewDecoder \<lparr>rd_data = [0x14, 7, 0, 0, 0, 0, 0, 0, 0, 0x02], rd_end = EOF\<rparr> RoleClient"
  have "run_state Next ?d = (Inr (Cancel 7), feed [0x02] ?d)"
    by code_simp
  from decode_canonical [OF _ this] show ?thesis
    by (simp add: NewDecoder_def)
qed

text \<open>C15. A stream that ends inside a message is refused: after any proper, non-empty part of a
  message's encoding the decoder reports the unexpected end and no message.\<close>

theorem decode_truncated:
  assumes "Encode [] m = Inr bs" and "d_err d = None" and "d_admits d m"
    and "rd_end (d_r d) = EOF" and "0 < k" and "k < length bs"
  shows "fst (run_state Next (feed (take k bs) d)) = Inl (WIO UnexpectedEOF)"
proof -
  have "strict_prefix (take k bs) bs"
    using assms(6) by (metis append_take_drop_id length_take min.absorb4 nat_less_le prefixI
        strict_prefixI)
  moreover have "take k bs \<noteq> []"
    using assms(5,6) by auto
  ultimately show ?thesis
    using Next_short [of m d "take k bs"] assms by (simp add: Encode_Inr_iff)
qed

theorem decode_truncated_witness:
  "fst (run_state Next (feed (take 5 [0x14, 7, 0, 0, 0, 0, 0, 0, 0])
      (NewDecoder \<lparr>rd_data = [], rd_end = EOF\<rparr> RoleClient))) = Inl (WIO UnexpectedEOF)"
  by (rule decode_truncated [where m = "Cancel 7"])
    (simp_all add: Encode_def b_job_def b_u64_def KindCancel_def NewDecoder_def d_admits_def
      le_numeral)

lemma stream_decodes:
  assumes "send_all (NewEncoder \<lparr>wr_data = [], wr_script = script\<rparr> r) ms = (None, e)"
    and "r' \<noteq> r"
  shows "fst (recv_n (length ms) (NewDecoder \<lparr>rd_data = wr_data (e_w e), rd_end = fin\<rparr> r')) = ms"
proof -
  let ?d = "NewDecoder \<lparr>rd_data = [], rd_end = fin\<rparr> r'"
  have "ends_agree (NewEncoder \<lparr>wr_data = [], wr_script = script\<rparr> r) ?d"
    using assms(2) by (auto simp: ends_agree_def NewEncoder_def NewDecoder_def)
  from send_recv [OF assms(1) this] obtain bs where "wr_data (e_w e) = bs"
    and "\<forall>rest. fst (recv_n (length ms) (feed (bs @ rest) ?d)) = ms"
    by (auto simp: NewEncoder_def)
  from this(1) spec [OF this(2), of "[]"] show ?thesis
    by (simp add: feed_def NewDecoder_def)
qed

text \<open>C8. Messages sent on a connection arrive at the other end as the same messages in the same
  order: whatever sequence the encoder of one role wrote, the decoder of the other role reads.\<close>

theorem stream_roundtrip:
  assumes "send_all (NewEncoder \<lparr>wr_data = [], wr_script = script\<rparr> r) ms = (None, e)"
    and "r' \<noteq> r"
  shows "fst (recv_n (length ms) (NewDecoder \<lparr>rd_data = wr_data (e_w e), rd_end = fin\<rparr> r')) = ms"
  using assms by (rule stream_decodes)

theorem stream_roundtrip_witness:
  "fst (recv_n 2 (NewDecoder \<lparr>rd_data = [0x01, 1, 0x61, 0, 0x14, 7, 0, 0, 0, 0, 0, 0, 0],
     rd_end = EOF\<rparr> RoleServer)) = [Hello ''a'' [], Cancel 7]"
proof -
  let ?e = "\<lparr>e_w = \<lparr>wr_data = [0x01, 1, 0x61, 0, 0x14, 7, 0, 0, 0, 0, 0, 0, 0], wr_script = []\<rparr>,
    e_role = RoleClient, e_sentHello = True\<rparr>"
  have "send_all (NewEncoder \<lparr>wr_data = [], wr_script = [None]\<rparr> RoleClient)
      [Hello ''a'' [], Cancel 7] = (None, ?e)"
    by code_simp
  from stream_roundtrip [OF this, of RoleServer EOF] show ?thesis
    by (simp add: numeral_2_eq_2)
qed

text \<open>The server takes nothing before HELLO and takes it once: whatever a stream holds, the
  messages a server's decoder accepts from it are a HELLO followed by other kinds only.\<close>

fun hello_first :: "message list \<Rightarrow> bool" where
  "hello_first [] = True"
| "hello_first (m # ms) = (is_hello m \<and> (\<forall>n \<in> set ms. \<not> is_hello n))"

lemma recv_after_hello:
  "d_role d = RoleServer \<Longrightarrow> d_gotHello d \<Longrightarrow> d_err d = None \<Longrightarrow> m \<in> set (fst (recv_n n d)) \<Longrightarrow>
   \<not> is_hello m"
proof (induction n arbitrary: d)
  case (Suc n)
  obtain r d' where r: "run_state Next d = (r, d')" by fastforce
  show ?case
  proof (cases r)
    case (Inr m')
    with Next_sound [of d m' d'] r Suc.prems have "\<not> is_hello m'" and "d' = feed (avail d') d"
      by (auto simp: d_admits_def d_after_def)
    then have "d_role d' = RoleServer" "d_gotHello d'" "d_err d' = None"
      using Suc.prems(1-3) by (metis feed_simps(2-4))+
    with Suc.IH [of d'] Suc.prems(4) r Inr \<open>\<not> is_hello m'\<close> show ?thesis
      by (auto split: prod.splits)
  qed (use Suc.prems r in auto)
qed simp

theorem server_hello_first: "hello_first (fst (recv_n n (NewDecoder r RoleServer)))"
proof (cases n)
  case (Suc k)
  let ?d = "NewDecoder r RoleServer"
  obtain x d' where x: "run_state Next ?d = (x, d')" by fastforce
  show ?thesis
  proof (cases x)
    case (Inr m)
    from Next_sound [of ?d m d'] x Inr have "is_hello m" and "d' = d_after m (feed (avail d') ?d)"
      by (auto simp: d_admits_def NewDecoder_def)
    then have "d_role d' = RoleServer" "d_gotHello d'" "d_err d' = None"
      by (metis d_after_simps feed_simps NewDecoder_def decoder.select_convs)+
    with recv_after_hello [of d' _ k] x Inr Suc \<open>is_hello m\<close> show ?thesis
      by (auto split: prod.splits)
  qed (use x Suc in auto)
qed simp

text \<open>A decoder that has refused anything refuses everything after it, with the same error and
  without touching the stream; only a clean end between messages leaves it usable.\<close>

theorem decoder_refusal_is_final:
  assumes "run_state Next d = (Inl e, d')" and "e \<noteq> WIO EOF"
  shows "run_state Next d' = (Inl e, d')"
proof -
  have "d_err d' = Some e"
    using assms by (auto simp: run_Next split: option.splits list.splits prod.splits sum.splits if_splits)
  then show ?thesis
    by (simp add: run_Next)
qed

theorem decoder_refusal_is_final_witness:
  "\<exists>d'. run_state Next (NewDecoder \<lparr>rd_data = [0x99, 0x02], rd_end = EOF\<rparr> RoleClient)
     = (Inl (UnknownKind 0x99), d') \<and> run_state Next d' = (Inl (UnknownKind 0x99), d')"
proof -
  let ?d = "NewDecoder \<lparr>rd_data = [0x99, 0x02], rd_end = EOF\<rparr> RoleClient"
  have "run_state Next ?d = (Inl (UnknownKind 0x99), (feed [0x02] ?d)\<lparr>d_err := Some (UnknownKind 0x99)\<rparr>)"
    by code_simp
  from this decoder_refusal_is_final [OF this] show ?thesis
    by blast
qed

end
