(* ===== verification/Conn.thy ===== *)
theory Conn
  imports Job_Queue Wire_Stream
begin

text \<open>
  \<^verbatim>\<open>internal/peer/conn.go\<close>: one live session with one peer. The queues of its jobs are addresses
  into a store, because the goroutine of a job keeps its queue after the connection has forgotten
  the job. \<open>cn_started\<close> lists the jobs the read loop has put a goroutine on; \<open>cn_sent\<close> is history, the
  messages that went out.
\<close>

definition pingEvery :: int where "pingEvery = 30"
definition idleTimeout :: int where "idleTimeout = 90"
definition bodyChunk :: nat where "bodyChunk = 32 * 1024"

record conn =
  cn_enc :: encoder
  cn_dec :: decoder
  cn_role :: role
  cn_peer :: string
  cn_pongs :: bool
  cn_nextJob :: u64
  cn_jobs :: "u64 \<rightharpoonup> nat"
  cn_err :: "peer_error option"
  cn_closed :: bool
  cn_queues :: "nat \<Rightarrow> jobQueue"
  cn_nq :: nat
  cn_started :: "(message \<times> nat) list"
  cn_sent :: "message list"

definition newConn :: "reader \<Rightarrow> writer \<Rightarrow> role \<Rightarrow> string \<Rightarrow> conn" where
  "newConn r w role peer =
     \<lparr>cn_enc = NewEncoder w role, cn_dec = NewDecoder r role, cn_role = role, cn_peer = peer,
      cn_pongs = False, cn_nextJob = (if role = RoleServer then 2 else 1), cn_jobs = Map.empty,
      cn_err = None, cn_closed = False, cn_queues = (\<lambda>_. newJobQueue), cn_nq = 0, cn_started = [],
      cn_sent = []\<rparr>"

definition cn_Peer :: "conn \<Rightarrow> string" where
  "cn_Peer c = cn_peer c"

definition setPeer :: "string \<Rightarrow> conn \<Rightarrow> conn" where
  "setPeer name c = c\<lparr>cn_peer := name\<rparr>"

text \<open>A deadline can be set on a connection until it is closed.\<close>

definition SetDeadline :: "conn \<Rightarrow> peer_error option" where
  "SetDeadline c = (if cn_closed c then Some ErrNetClosed else None)"

definition cn_receive :: "(conn, peer_error, message) op" where
  "cn_receive c =
     (case SetDeadline c of
        Some e \<Rightarrow> (Inl e, c)
      | None \<Rightarrow>
          (case run_state Next (cn_dec c) of
             (Inl e, d) \<Rightarrow> (Inl (ErrWire e), c\<lparr>cn_dec := d\<rparr>)
           | (Inr m, d) \<Rightarrow> (Inr m, c\<lparr>cn_dec := d\<rparr>)))"

definition cn_hello :: "(conn, peer_error, string \<times> provider_info list) op" where
  "cn_hello = bindE cn_receive (\<lambda>m.
     case m of Hello name ps \<Rightarrow> returnE (name, ps) | _ \<Rightarrow> failE (ErrNotHello (Kind m)))"

definition send :: "message \<Rightarrow> (conn, peer_error, unit) op" where
  "send m c =
     (case SetDeadline c of
        Some e \<Rightarrow> (Inl e, c)
      | None \<Rightarrow>
          (case Encoder_Write (cn_enc c) m of
             (Some e, enc) \<Rightarrow> (Inl (ErrWire e), c\<lparr>cn_enc := enc\<rparr>)
           | (None, enc) \<Rightarrow> (Inr (), c\<lparr>cn_enc := enc, cn_sent := cn_sent c @ [m]\<rparr>)))"

text \<open>The messages \<open>sendBodyEnd\<close> sends, and the loop that stops at the first that fails.\<close>

function body_messages :: "u64 \<Rightarrow> bytes \<Rightarrow> header list \<Rightarrow> message list" where
  "body_messages job body trailers =
     (if body = [] then [End job trailers]
      else let chunk = (if length body > bodyChunk then take bodyChunk body else body)
           in Body job chunk # body_messages job (drop (length chunk) body) trailers)"
  by pat_completeness auto
termination
  by (relation "measure (\<lambda>(job, body, trailers). length body)") (auto simp: bodyChunk_def)

declare body_messages.simps [simp del]

fun send_each :: "message list \<Rightarrow> (conn, peer_error, unit) op" where
  "send_each [] = returnE ()"
| "send_each (m # ms) = bindE (send m) (\<lambda>_. send_each ms)"

definition sendBodyEnd :: "u64 \<Rightarrow> bytes \<Rightarrow> header list \<Rightarrow> (conn, peer_error, unit) op" where
  "sendBodyEnd job body trailers = send_each (body_messages job body trailers)"

subsection \<open>Jobs\<close>

definition open_queue :: "u64 \<Rightarrow> conn \<Rightarrow> nat \<times> conn" where
  "open_queue job c =
     (cn_nq c, c\<lparr>cn_queues := (cn_queues c)(cn_nq c := newJobQueue),
        cn_jobs := (cn_jobs c)(job \<mapsto> cn_nq c), cn_nq := Suc (cn_nq c)\<rparr>)"

definition newJob :: "(conn, peer_error, u64 \<times> nat) op" where
  "newJob c =
     (case cn_err c of
        Some e \<Rightarrow> (Inl e, c)
      | None \<Rightarrow>
          (let job = cn_nextJob c
           in case open_queue job (c\<lparr>cn_nextJob := cn_nextJob c + 2\<rparr>) of (q, c') \<Rightarrow> (Inr (job, q), c')))"

definition openJob :: "u64 \<Rightarrow> (conn, peer_error, nat) op" where
  "openJob job c =
     (case cn_err c of
        Some e \<Rightarrow> (Inl e, c)
      | None \<Rightarrow>
          (if cn_jobs c job \<noteq> None then (Inl (ErrAlreadyRunning job), c)
           else case open_queue job c of (q, c') \<Rightarrow> (Inr q, c')))"

definition on_queue :: "nat \<Rightarrow> (jobQueue \<Rightarrow> jobQueue) \<Rightarrow> conn \<Rightarrow> conn" where
  "on_queue q f c = c\<lparr>cn_queues := (cn_queues c)(q := f (cn_queues c q))\<rparr>"

text \<open>
  \<open>endJob\<close> and \<open>fail\<close> take jobs out under the lock and close their queues after it. What either does
  under the lock is a function of its own, which gives the queues that are then to be closed.
\<close>

definition close_all :: "peer_error \<Rightarrow> nat set \<Rightarrow> conn \<Rightarrow> conn" where
  "close_all e qs c = c\<lparr>cn_queues := (\<lambda>q. if q \<in> qs then jq_close e (cn_queues c q) else cn_queues c q)\<rparr>"

definition forget :: "u64 \<Rightarrow> conn \<Rightarrow> conn" where
  "forget job c = c\<lparr>cn_jobs := (cn_jobs c)(job := None)\<rparr>"

definition endJob_lock :: "u64 \<Rightarrow> conn \<Rightarrow> nat set \<times> conn" where
  "endJob_lock job c = (set_option (cn_jobs c job), forget job c)"

definition endJob :: "u64 \<Rightarrow> conn \<Rightarrow> conn" where
  "endJob job c = (case endJob_lock job c of (qs, c') \<Rightarrow> close_all ErrJobEnded qs c')"

definition mine :: "conn \<Rightarrow> u64 \<Rightarrow> bool" where
  "mine c job \<longleftrightarrow> (job mod 2 = 0) = (cn_role c = RoleServer)"

definition fail_mark :: "peer_error \<Rightarrow> conn \<Rightarrow> conn" where
  "fail_mark e c = c\<lparr>cn_err := Some e, cn_jobs := Map.empty\<rparr>"

definition fail_lock :: "peer_error \<Rightarrow> conn \<Rightarrow> (nat set \<times> conn) option" where
  "fail_lock e c = (if cn_err c \<noteq> None then None else Some (ran (cn_jobs c), fail_mark e c))"

definition cn_fail :: "peer_error \<Rightarrow> conn \<Rightarrow> conn" where
  "cn_fail e c =
     (case fail_lock e c of
        None \<Rightarrow> c
      | Some (qs, c') \<Rightarrow> (close_all e qs c')\<lparr>cn_closed := True\<rparr>)"

definition cn_Close :: "conn \<Rightarrow> conn" where
  "cn_Close c = cn_fail ErrNetClosed c"

lemma close_all_one [simp]: "close_all e {q} c = on_queue q (jq_close e) c" "close_all e {} c = c"
  by (simp_all add: close_all_def on_queue_def fun_upd_def cong: if_cong)

lemma endJob_eq:
  "endJob job c =
     (case cn_jobs c job of
        None \<Rightarrow> forget job c
      | Some q \<Rightarrow> on_queue q (jq_close ErrJobEnded) (forget job c))"
  by (simp add: endJob_def endJob_lock_def split: option.split)

lemma cn_fail_eq:
  "cn_fail e c =
     (if cn_err c \<noteq> None then c else (close_all e (ran (cn_jobs c)) (fail_mark e c))\<lparr>cn_closed := True\<rparr>)"
  by (simp add: cn_fail_def fail_lock_def)

subsection \<open>The read loop\<close>

definition cn_start :: "message \<Rightarrow> u64 \<Rightarrow> (conn, peer_error, unit) op" where
  "cn_start req job c =
     (if mine c job then (Inl (ErrWrongParity job), c)
      else case openJob job c of
             (Inl e, c') \<Rightarrow> (Inl e, c')
           | (Inr q, c') \<Rightarrow> (Inr (), c'\<lparr>cn_started := cn_started c' @ [(req, q)]\<rparr>))"

text \<open>
  \<open>dispatch\<close> up to its last unlock: the error, or the queue the message is then pushed to, if any. The
  push is after the lock.
\<close>

definition dispatch_lock :: "message \<Rightarrow> (conn, peer_error, nat option) op" where
  "dispatch_lock m c =
     (case m of
        Ping \<Rightarrow> (Inr None, c\<lparr>cn_pongs := True\<rparr>)
      | Pong \<Rightarrow> (Inr None, c)
      | Hello _ _ \<Rightarrow> (Inl ErrHelloAgain, c)
      | Request job _ _ _ _ \<Rightarrow>
          (case cn_start m job c of
             (Inl e, c') \<Rightarrow> (Inl e, c')
           | (Inr _, c') \<Rightarrow> (Inr None, c'))
      | _ \<Rightarrow>
          (case JobID m of
             None \<Rightarrow> (Inl (ErrNoJob (Kind m)), c)
           | Some job \<Rightarrow> (Inr (cn_jobs c job), c)))"

definition cn_dispatch :: "message \<Rightarrow> (conn, peer_error, unit) op" where
  "cn_dispatch m c =
     (case dispatch_lock m c of
        (Inl e, c') \<Rightarrow> (Inl e, c')
      | (Inr None, c') \<Rightarrow> (Inr (), c')
      | (Inr (Some q), c') \<Rightarrow> (Inr (), on_queue q (jq_push m) c'))"

lemma cn_dispatch_eq:
  "cn_dispatch m c =
     (case m of
        Ping \<Rightarrow> (Inr (), c\<lparr>cn_pongs := True\<rparr>)
      | Pong \<Rightarrow> (Inr (), c)
      | Hello _ _ \<Rightarrow> (Inl ErrHelloAgain, c)
      | Request job _ _ _ _ \<Rightarrow> cn_start m job c
      | _ \<Rightarrow>
          (case JobID m of
             None \<Rightarrow> (Inl (ErrNoJob (Kind m)), c)
           | Some job \<Rightarrow>
               (case cn_jobs c job of
                  None \<Rightarrow> (Inr (), c)
                | Some q \<Rightarrow> (Inr (), on_queue q (jq_push m) c))))"
  by (auto simp: cn_dispatch_def dispatch_lock_def split: message.split option.split sum.split prod.split)

text \<open>\<open>run\<close>: what the loop does with everything that arrives, and the error that ends it.\<close>

lemma cn_receive_shorter:
  assumes "cn_receive c = (Inr m, c')"
  shows "length (avail (cn_dec c')) < length (avail (cn_dec c))"
proof -
  from assms obtain d where d: "run_state Next (cn_dec c) = (Inr m, d)" "c' = c\<lparr>cn_dec := d\<rparr>"
    by (auto simp: cn_receive_def split: option.splits prod.splits sum.splits)
  have "d_err (cn_dec c) = None"
    using d(1) by (cases "d_err (cn_dec c)") (auto simp: run_Next)
  from Next_sound [OF this d(1)] d(2) show ?thesis
    by simp
qed

lemma cn_dispatch_dec: "cn_dispatch m c = (r, c') \<Longrightarrow> cn_dec c' = cn_dec c"
  by (auto simp: cn_dispatch_eq cn_start_def openJob_def open_queue_def on_queue_def
      split: message.splits option.splits if_splits)

function cn_run :: "conn \<Rightarrow> peer_error \<times> conn" where
  "cn_run c =
     (case cn_receive c of
        (Inl e, c') \<Rightarrow> (e, cn_fail e c')
      | (Inr m, c') \<Rightarrow>
          (case cn_dispatch m c' of
             (Inl e, c'') \<Rightarrow> (e, cn_fail e c'')
           | (Inr _, c'') \<Rightarrow> cn_run c''))"
  by pat_completeness auto
termination
  by (relation "measure (\<lambda>c. length (avail (cn_dec c)))")
    (auto simp: cn_dispatch_dec [OF sym] intro: cn_receive_shorter [OF sym])

declare cn_run.simps [simp del]

text \<open>One turn of the goroutine that answers PINGs: \<^const>\<open>None\<close> while there is nothing to answer.\<close>

definition cn_pong :: "conn \<Rightarrow> ((peer_error + unit) \<times> conn) option" where
  "cn_pong c = (if cn_pongs c then Some (send Pong (c\<lparr>cn_pongs := False\<rparr>)) else None)"

definition cn_ping :: "(conn, peer_error, unit) op" where
  "cn_ping = send Ping"

end
