(* ===== verification/Go_Strings.thy ===== *)
theory Go_Strings
  imports Prelude
begin

text \<open>
  The parts of Go's \<^verbatim>\<open>strings\<close>, \<^verbatim>\<open>strconv\<close>, \<^verbatim>\<open>encoding/hex\<close> and \<^verbatim>\<open>net\<close> that the program reads and
  writes text with. A Go string is a sequence of bytes, so a character is a byte here.
\<close>

subsection \<open>\<^verbatim>\<open>strings\<close>\<close>

definition IndexByte :: "string \<Rightarrow> char \<Rightarrow> nat option" where
  "IndexByte s c = (let n = length (takeWhile (\<lambda>d. d \<noteq> c) s) in if n < length s then Some n else None)"

definition LastIndexByte :: "string \<Rightarrow> char \<Rightarrow> nat option" where
  "LastIndexByte s c = map_option (\<lambda>n. length s - 1 - n) (IndexByte (rev s) c)"

definition IndexAny :: "string \<Rightarrow> string \<Rightarrow> nat option" where
  "IndexAny s cs = (let n = length (takeWhile (\<lambda>d. d \<notin> set cs) s) in if n < length s then Some n else None)"

definition HasPrefix :: "string \<Rightarrow> string \<Rightarrow> bool" where
  "HasPrefix s p \<longleftrightarrow> take (length p) s = p"

definition HasSuffix :: "string \<Rightarrow> string \<Rightarrow> bool" where
  "HasSuffix s p \<longleftrightarrow> HasPrefix (rev s) (rev p)"

text \<open>\<open>strings.Cut\<close> and \<open>strings.Split\<close> at a separator of one byte.\<close>

definition Cut :: "string \<Rightarrow> char \<Rightarrow> string \<times> string \<times> bool" where
  "Cut s c = (case IndexByte s c of None \<Rightarrow> (s, [], False) | Some i \<Rightarrow> (take i s, drop (Suc i) s, True))"

fun Split_at :: "string \<Rightarrow> char \<Rightarrow> string list" where
  "Split_at [] c = [[]]"
| "Split_at (d # s) c =
     (if d = c then [] # Split_at s c
      else case Split_at s c of [] \<Rightarrow> [[d]] | x # xs \<Rightarrow> (d # x) # xs)"

text \<open>
  \<open>strings.TrimSpace\<close> cuts off what \<open>unicode.IsSpace\<close> accepts: the UTF-8 forms of the space
  characters, at the front and at the end.
\<close>

definition space_runes :: "string list" where
  "space_runes =
     [[CHR 0x09], [CHR 0x0A], [CHR 0x0B], [CHR 0x0C], [CHR 0x0D], [CHR 0x20],
      [CHR 0xC2, CHR 0x85], [CHR 0xC2, CHR 0xA0], [CHR 0xE1, CHR 0x9A, CHR 0x80]] @
     map (\<lambda>n. [CHR 0xE2, CHR 0x80, char_of n]) ([128..<139] @ [168, 169, 175 :: nat]) @
     [[CHR 0xE2, CHR 0x81, CHR 0x9F], [CHR 0xE3, CHR 0x80, CHR 0x80]]"

fun cut_rune :: "string list \<Rightarrow> string \<Rightarrow> string option" where
  "cut_rune [] s = None"
| "cut_rune (r # rs) s = (if r \<noteq> [] \<and> HasPrefix s r then Some (drop (length r) s) else cut_rune rs s)"

lemma cut_rune_shorter: "cut_rune rs s = Some t \<Longrightarrow> length t < length s"
proof (induction rs)
  case (Cons r rs)
  show ?case
  proof (cases "r \<noteq> [] \<and> HasPrefix s r")
    case True
    then have "t = drop (length r) s" "s \<noteq> []" "r \<noteq> []"
      using Cons.prems by (auto simp: HasPrefix_def)
    then show ?thesis
      by (cases s; cases r) auto
  qed (use Cons in auto)
qed simp

function trim_front :: "string list \<Rightarrow> string \<Rightarrow> string" where
  "trim_front rs s = (case cut_rune rs s of None \<Rightarrow> s | Some t \<Rightarrow> trim_front rs t)"
  by pat_completeness auto
termination
  by (relation "measure (\<lambda>(rs, s). length s)") (auto intro: cut_rune_shorter)

declare trim_front.simps [simp del]

definition TrimSpace :: "string \<Rightarrow> string" where
  "TrimSpace s = rev (trim_front (map rev space_runes) (rev (trim_front space_runes s)))"

text \<open>\<open>strings.EqualFold\<close> against a word of ASCII letters other than k and s.\<close>

definition to_lower :: "char \<Rightarrow> char" where
  "to_lower c = (let n = of_char c :: nat in if 65 \<le> n \<and> n \<le> 90 then char_of (n + 32) else c)"

definition to_upper :: "char \<Rightarrow> char" where
  "to_upper c = (let n = of_char c :: nat in if 97 \<le> n \<and> n \<le> 122 then char_of (n - 32) else c)"

definition EqualFold :: "string \<Rightarrow> string \<Rightarrow> bool" where
  "EqualFold s t \<longleftrightarrow> map to_lower s = map to_lower t"

subsection \<open>\<^verbatim>\<open>strconv\<close>\<close>

definition is_digit :: "char \<Rightarrow> bool" where
  "is_digit c \<longleftrightarrow> 48 \<le> (of_char c :: nat) \<and> (of_char c :: nat) \<le> 57"

definition digit_val :: "char \<Rightarrow> nat" where
  "digit_val c = of_char c - 48"

definition decimal :: "string \<Rightarrow> nat" where
  "decimal s = foldl (\<lambda>n c. n * 10 + digit_val c) 0 s"

text \<open>\<open>Atoi\<close>: \<^const>\<open>None\<close> is a syntax or a range error.\<close>

definition Atoi :: "string \<Rightarrow> int option" where
  "Atoi s =
     (let neg = HasPrefix s ''-'';
          ds = (if neg \<or> HasPrefix s ''+'' then drop 1 s else s)
      in if ds = [] \<or> \<not> list_all is_digit ds then None
         else let n = int (decimal ds); v = (if neg then - n else n)
              in if - (2 ^ 63) \<le> v \<and> v < 2 ^ 63 then Some v else None)"

text \<open>\<open>ParseUint(s, 10, bits)\<close>.\<close>

definition ParseUint :: "string \<Rightarrow> nat \<Rightarrow> nat option" where
  "ParseUint s bits =
     (if s = [] \<or> \<not> list_all is_digit s then None
      else if decimal s < 2 ^ bits then Some (decimal s) else None)"

fun dec_digits :: "nat \<Rightarrow> string" where
  "dec_digits n = (if n < 10 then [char_of (48 + n)] else dec_digits (n div 10) @ [char_of (48 + n mod 10)])"

declare dec_digits.simps [simp del]

text \<open>\<open>Itoa\<close> of a length.\<close>

definition Itoa :: "nat \<Rightarrow> string" where
  "Itoa n = dec_digits n"

subsection \<open>\<^verbatim>\<open>encoding/hex\<close>\<close>

definition hex_val :: "char \<Rightarrow> nat option" where
  "hex_val c =
     (let n = of_char c :: nat
      in if 48 \<le> n \<and> n \<le> 57 then Some (n - 48)
         else if 97 \<le> n \<and> n \<le> 102 then Some (n - 87)
         else if 65 \<le> n \<and> n \<le> 70 then Some (n - 55)
         else None)"

fun DecodeString :: "string \<Rightarrow> bytes option" where
  "DecodeString [] = Some []"
| "DecodeString [c] = None"
| "DecodeString (a # b # s) =
     (case (hex_val a, hex_val b) of
        (Some x, Some y) \<Rightarrow> map_option ((#) (of_nat (16 * x + y))) (DecodeString s)
      | _ \<Rightarrow> None)"

definition hex_char :: "nat \<Rightarrow> char" where
  "hex_char n = char_of (if n < 10 then 48 + n else 87 + n)"

definition EncodeToString :: "bytes \<Rightarrow> string" where
  "EncodeToString bs = concat (map (\<lambda>b. [hex_char (unat b div 16), hex_char (unat b mod 16)]) bs)"

subsection \<open>\<open>net.SplitHostPort\<close>\<close>

definition SplitHostPort :: "string \<Rightarrow> (string \<times> string) option" where
  "SplitHostPort hostport =
     (case LastIndexByte hostport (CHR '':'') of
        None \<Rightarrow> None
      | Some i \<Rightarrow>
          (let split = (if HasPrefix hostport ''['' then
                 (case IndexByte hostport (CHR '']'') of
                    None \<Rightarrow> None
                  | Some e \<Rightarrow> if e + 1 = i then Some (take (e - 1) (drop 1 hostport), 1, e + 1) else None)
               else
                 (let host = take i hostport
                  in if IndexByte host (CHR '':'') = None then Some (host, 0, 0) else None))
           in case split of
                None \<Rightarrow> None
              | Some (host, j, k) \<Rightarrow>
                  if IndexByte (drop j hostport) (CHR ''['') \<noteq> None then None
                  else if IndexByte (drop k hostport) (CHR '']'') \<noteq> None then None
                  else Some (host, drop (Suc i) hostport)))"

subsection \<open>\<open>time.ParseDuration\<close>\<close>

text \<open>\<open>leadingInt\<close>: the digits at the front; \<^const>\<open>None\<close> when they exceed \<open>1 << 63\<close>.\<close>

fun leadingInt :: "nat \<Rightarrow> string \<Rightarrow> (nat \<times> string) option" where
  "leadingInt x [] = Some (x, [])"
| "leadingInt x (c # s) =
     (if \<not> is_digit c then Some (x, c # s)
      else if x > 2 ^ 63 div 10 then None
      else let x = x * 10 + digit_val c in if x > 2 ^ 63 then None else leadingInt x s)"

text \<open>\<open>leadingFraction\<close>: digits that no longer fit are read and dropped. The scale is a power of ten.\<close>

fun leadingFraction :: "bool \<Rightarrow> nat \<Rightarrow> nat \<Rightarrow> string \<Rightarrow> nat \<times> nat \<times> string" where
  "leadingFraction overflow x scale [] = (x, scale, [])"
| "leadingFraction overflow x scale (c # s) =
     (if \<not> is_digit c then (x, scale, c # s)
      else if overflow \<or> x > (2 ^ 63 - 1) div 10 then leadingFraction True x scale s
      else let y = x * 10 + digit_val c
           in if y > 2 ^ 63 then leadingFraction True x scale s else leadingFraction False y (scale * 10) s)"

definition unitMap :: "(string \<times> nat) list" where
  "unitMap =
     [(''ns'', 1), (''us'', 1000), ([CHR 0xC2, CHR 0xB5, CHR ''s''], 1000),
      ([CHR 0xCE, CHR 0xBC, CHR ''s''], 1000), (''ms'', 1000000), (''s'', 1000000000),
      (''m'', 60000000000), (''h'', 3600000000000)]"

definition in_number :: "char \<Rightarrow> bool" where
  "in_number c \<longleftrightarrow> c = CHR ''.'' \<or> is_digit c"

text \<open>
  The loop over number and unit. \<open>frac f unit scale\<close> is \<open>uint64(float64(f) * (float64(unit) / scale))\<close>,
  a rounded product that is left open. The loop takes a character off in each turn.
\<close>

fun duration_term :: "(nat \<Rightarrow> nat \<Rightarrow> nat \<Rightarrow> nat) \<Rightarrow> string \<Rightarrow> (nat \<times> string) option" where
  "duration_term frac s =
     (if s = [] \<or> \<not> in_number (hd s) then None
      else case leadingInt 0 s of
             None \<Rightarrow> None
           | Some (v, s1) \<Rightarrow>
               (let pre = length s1 \<noteq> length s;
                    point = HasPrefix s1 ''.'';
                    s2 = (if point then drop 1 s1 else s1);
                    (f, scale, s3) = (if point then leadingFraction False 0 1 s2 else (0, 1, s1));
                    post = (point \<and> length s3 \<noteq> length s2);
                    u = takeWhile (\<lambda>c. \<not> in_number c) s3;
                    s4 = dropWhile (\<lambda>c. \<not> in_number c) s3
                in if \<not> pre \<and> \<not> post then None
                   else if u = [] then None
                   else case map_of unitMap u of
                          None \<Rightarrow> None
                        | Some unit \<Rightarrow>
                            if v > 2 ^ 63 div unit then None
                            else let v = v * unit + (if f > 0 then frac f unit scale else 0)
                                 in if v > 2 ^ 63 then None else Some (v, s4)))"

declare duration_term.simps [simp del]

fun duration_loop :: "(nat \<Rightarrow> nat \<Rightarrow> nat \<Rightarrow> nat) \<Rightarrow> nat \<Rightarrow> nat \<Rightarrow> string \<Rightarrow> nat option" where
  "duration_loop frac 0 d s = None"
| "duration_loop frac (Suc fuel) d s =
     (if s = [] then Some d
      else case duration_term frac s of
             None \<Rightarrow> None
           | Some (v, s') \<Rightarrow>
               (let d = (d + v) mod 2 ^ 64 in if d > 2 ^ 63 then None else duration_loop frac fuel d s'))"

definition ParseDuration :: "(nat \<Rightarrow> nat \<Rightarrow> nat \<Rightarrow> nat) \<Rightarrow> string \<Rightarrow> int option" where
  "ParseDuration frac s =
     (let neg = HasPrefix s ''-'';
          s = (if neg \<or> HasPrefix s ''+'' then drop 1 s else s)
      in if s = ''0'' then Some 0
         else if s = [] then None
         else case duration_loop frac (Suc (length s)) 0 s of
                None \<Rightarrow> None
              | Some d \<Rightarrow> if neg then Some (- int d)
                          else if d > 2 ^ 63 - 1 then None else Some (int d))"

end
