(* ===== verification/Server.thy ===== *)
theory Server
  imports Conn Pool Go_Strings
begin

text \<open>
  \<^verbatim>\<open>internal/peer/server.go\<close>: how a client's providers enter and leave the pool, and how a
  submitted job is relayed. The two connections of a job are threaded through; the answers of the
  provider arrive as the events of the job's queue. \<^const>\<open>None\<close> as a result means that the events
  ran out while the goroutine was still waiting.
\<close>

subsection \<open>Answers the server makes up (\<^verbatim>\<open>consume.go\<close>, \<open>synthMessages\<close>)\<close>

definition synthMessages :: "u64 \<Rightarrow> u16 \<Rightarrow> string \<Rightarrow> message list" where
  "synthMessages job status why =
     (let body = why @ [CHR 0x0A]
      in [Response job status
            [\<lparr>h_Name = ''Content-Type'', h_Value = ''text/plain; charset=utf-8''\<rparr>,
             \<lparr>h_Name = ''Content-Length'', h_Value = Itoa (length body)\<rparr>],
          Body job (str_bytes body),
          End job []])"

text \<open>\<open>answer\<close> stops at the first message that cannot be sent.\<close>

definition answer :: "u64 \<Rightarrow> u16 \<Rightarrow> string \<Rightarrow> conn \<Rightarrow> conn" where
  "answer job status why c = snd (send_each (synthMessages job status why) c)"

subsection \<open>One attempt at one provider\<close>

fun onward :: "u64 \<Rightarrow> message \<Rightarrow> message" where
  "onward job (Response _ status hs) = Response job status hs"
| "onward job (Body _ bs) = Body job bs"
| "onward job (End _ ts) = End job ts"
| "onward job (Fail _ why) = Fail job why"
| "onward job m = m"

fun is_answer :: "message \<Rightarrow> bool" where
  "is_answer (Response _ _ _) = True"
| "is_answer (Body _ _) = True"
| "is_answer (End _ _) = True"
| "is_answer (Fail _ _) = True"
| "is_answer _ = False"

fun is_response :: "message \<Rightarrow> bool" where
  "is_response (Response _ _ _) = True"
| "is_response _ = False"

fun is_fail :: "message \<Rightarrow> bool" where
  "is_fail (Fail _ _) = True"
| "is_fail _ = False"

fun is_last :: "message \<Rightarrow> bool" where
  "is_last (End _ _) = True"
| "is_last (Fail _ _) = True"
| "is_last _ = False"

text \<open>
  The loop of \<open>dispatch\<close>. \<open>ctx_done\<close> says whether the job's context had ended when the queue was
  found closed; the result is whether a RESPONSE was relayed, and the error if any.
\<close>

function answer_loop :: "u64 \<Rightarrow> u64 \<Rightarrow> bool \<Rightarrow> bool \<Rightarrow> qevent list \<Rightarrow> jobQueue \<Rightarrow> conn \<Rightarrow> conn \<Rightarrow>
    ((bool \<times> peer_error option) \<times> conn \<times> conn) option" where
  "answer_loop reqJob job ctx_done started evs q c target =
     (case jq_next evs q of
        None \<Rightarrow> None
      | Some (Inl e, q', evs') \<Rightarrow>
          (if e = ErrCtx \<or> ctx_done
           then Some ((started, Some ErrCancelled), c, snd (send (Cancel job) target))
           else Some ((started, Some ErrProviderGone), c, target))
      | Some (Inr m, q', evs') \<Rightarrow>
          (if \<not> is_answer m then Some ((started, Some (ErrNotAnAnswer (Kind m))), c, target)
           else if is_fail m \<and> \<not> started
             then Some ((False, Some (ErrProviderFail (fail_Reason m))), c, target)
           else
             (let started' = (started \<or> is_response m)
              in case send (onward reqJob m) c of
                   (Inl _, c') \<Rightarrow> Some ((started', Some ErrCancelled), c', snd (send (Cancel job) target))
                 | (Inr _, c') \<Rightarrow>
                     if is_last m then Some ((started', None), c', target)
                     else answer_loop reqJob job ctx_done started' evs' q' c' target)))"
  by pat_completeness auto
termination
  by (relation "measure (\<lambda>(reqJob, job, ctx_done, started, evs, q, c, target). pending evs q)")
    (auto intro: jq_next_pending)

declare answer_loop.simps [simp del]

text \<open>\<open>dispatch\<close>: the deferred \<open>endJob\<close> runs however the attempt ends.\<close>

definition srv_dispatch :: "message \<Rightarrow> bytes \<Rightarrow> header list \<Rightarrow> bool \<Rightarrow> qevent list \<Rightarrow> conn \<Rightarrow> conn \<Rightarrow>
    ((bool \<times> peer_error option) \<times> conn \<times> conn) option" where
  "srv_dispatch req body trailers ctx_done evs c target =
     (case newJob target of
        (Inl _, target) \<Rightarrow> Some ((False, Some ErrProviderGone), c, target)
      | (Inr (job, q), target) \<Rightarrow>
          (let done = (\<lambda>(r, c, target). (r, c, endJob job target));
               out = Request job (req_Service req) (req_Method req) (req_Target req) (req_Headers req)
           in case send out target of
                (Inl _, target) \<Rightarrow> Some (done ((False, Some ErrProviderGone), c, target))
              | (Inr _, target) \<Rightarrow>
                  (case sendBodyEnd job body trailers target of
                     (Inl _, target) \<Rightarrow> Some (done ((False, Some ErrProviderGone), c, target))
                   | (Inr _, target) \<Rightarrow>
                       map_option done
                         (answer_loop (req_Job req) job ctx_done False evs (cn_queues target q) c target))))"

subsection \<open>The relay loop\<close>

text \<open>
  What one turn of \<open>relay\<close> meets: the outcome of \<open>Acquire\<close> (the error, or the lease and the
  provider's \<open>Target\<close>, which is a connection or not), and what then happens on the provider's
  connection.
\<close>

record attempt =
  at_acquire :: "acquire_error + nat"
  at_target :: "conn option"
  at_ctx :: bool
  at_evs :: "qevent list"

text \<open>What the loop did with the pool, in order.\<close>

datatype pool_call = CallAcquire bool | CallRelease nat

text \<open>
  \<open>acq_text\<close> and \<open>err_text\<close> give the text of a pool error and of a peer error. The context of the job has ended
  exactly when \<open>Acquire\<close> says so or \<open>at_ctx\<close> does.
\<close>

fun relay_loop :: "(acquire_error \<Rightarrow> string) \<Rightarrow> (peer_error \<Rightarrow> string) \<Rightarrow> message \<Rightarrow> bytes \<Rightarrow> header list \<Rightarrow> bool \<Rightarrow>
    attempt list \<Rightarrow> conn \<Rightarrow> pool_call list \<times> conn option" where
  "relay_loop acq_text err_text req body trailers front [] c = ([], None)"
| "relay_loop acq_text err_text req body trailers front (a # as) c =
     (case at_acquire a of
        Inl e \<Rightarrow>
          ([CallAcquire front],
           Some (if e = CtxErr \<or> at_ctx a then c else answer (req_Job req) 503 (acq_text e) c))
      | Inr l \<Rightarrow>
          (case at_target a of
             None \<Rightarrow> ([CallAcquire front, CallRelease l],
                      Some (answer (req_Job req) 502 ''the provider has no connection'' c))
           | Some target \<Rightarrow>
               (case srv_dispatch req body trailers (at_ctx a) (at_evs a) c target of
                  None \<Rightarrow> ([CallAcquire front], None)
                | Some ((started, err), c', target') \<Rightarrow>
                    (let calls = [CallAcquire front, CallRelease l]
                     in case err of
                          None \<Rightarrow> (calls, Some c')
                        | Some e \<Rightarrow>
                            if started then
                              (calls, Some (if e = ErrProviderGone
                                 then snd (send (Fail (req_Job req) (err_text ErrProviderGone)) c') else c'))
                            else if e = ErrCancelled then (calls, Some c')
                            else if e = ErrProviderGone then
                              (case relay_loop acq_text err_text req body trailers True as c' of
                                 (calls', r) \<Rightarrow> (calls @ calls', r))
                            else
                              (calls, Some (answer (req_Job req) 502
                                 (case e of ErrProviderFail why \<Rightarrow> why | _ \<Rightarrow> err_text e) c'))))))"

text \<open>\<open>relay\<close>: the body is collected first; a job that ends before its END gets no answer.\<close>

definition relay :: "(acquire_error \<Rightarrow> string) \<Rightarrow> (peer_error \<Rightarrow> string) \<Rightarrow> message \<Rightarrow> qevent list \<Rightarrow> jobQueue \<Rightarrow>
    attempt list \<Rightarrow> conn \<Rightarrow> pool_call list \<times> conn option" where
  "relay acq_text err_text req evs q attempts c =
     (let done = endJob (req_Job req)
      in case collect [] evs q of
           None \<Rightarrow> ([], None)
         | Some (Inl _, _, _) \<Rightarrow> ([], Some (done c))
         | Some (Inr (body, trailers), _, _) \<Rightarrow>
             apsnd (map_option done) (relay_loop acq_text err_text req body trailers False attempts c))"

subsection \<open>Providers of a session\<close>

text \<open>
  The loop of \<open>register\<close>: the providers added so far, and the pool. The refusal of a second
  provider of one service leaves the pool as it then is.
\<close>

fun register_loop :: "'t \<Rightarrow> string \<Rightarrow> string set \<Rightarrow> nat list \<Rightarrow> provider_info list \<Rightarrow> 't pool \<Rightarrow>
    (peer_error + nat list) \<times> 't pool" where
  "register_loop target name seen added [] p = (Inr added, p)"
| "register_loop target name seen added (info # infos) p =
     (if pi_Service info \<in> seen then (Inl (ErrTwoProviders (pi_Service info)), p)
      else case new_provider name (pi_Service info) (pi_MaxConcurrent info) (pi_Priority info) target p of
             (i, p') \<Rightarrow> register_loop target name (insert (pi_Service info) seen) (added @ [i]) infos (Add i p'))"

definition register :: "'t \<Rightarrow> string \<Rightarrow> provider_info list \<Rightarrow> 't pool \<Rightarrow> (peer_error + nat list) \<times> 't pool" where
  "register target name infos p = register_loop target name {} [] infos p"

text \<open>What \<open>handle\<close> does to the pool when the session it registered ends.\<close>

definition unregister :: "nat list \<Rightarrow> 't pool \<Rightarrow> 't pool" where
  "unregister added p = fold Remove added p"

subsection \<open>The server and a client's session\<close>

text \<open>
  The state of \<open>Server\<close> that changes: the pool, and the connected peers \<open>SIGUSR1\<close> prints. A
  connection is its identity in the set of peers.
\<close>

record 't server =
  sv_pool :: "'t pool"
  sv_peers :: "nat list"

definition NewServer :: "int \<Rightarrow> 't server" where
  "NewServer queue_timeout = \<lparr>sv_pool = New queue_timeout, sv_peers = []\<rparr>"

definition addPeer :: "nat \<Rightarrow> 't server \<Rightarrow> 't server" where
  "addPeer k s = s\<lparr>sv_peers := List.insert k (sv_peers s)\<rparr>"

definition removePeer :: "nat \<Rightarrow> 't server \<Rightarrow> 't server" where
  "removePeer k s = s\<lparr>sv_peers := removeAll k (sv_peers s)\<rparr>"

text \<open>What \<open>LogState\<close> prints: the names of the peers in order, then the pool.\<close>

definition LogState :: "(nat \<Rightarrow> string) \<Rightarrow> 't server \<Rightarrow> string list \<times> service_state list" where
  "LogState peer s = (sort (map peer (sv_peers s)), Snapshot (sv_pool s))"

text \<open>
  \<open>handle\<close>: \<open>k\<close> is the identity of the connection and \<open>session\<close> is what the other goroutines do to
  the server while this one reads its connection to its end. The deferred calls run in the reverse
  order: the peer leaves the list, then its providers the pool, then the connection is closed.
\<close>

definition srv_handle :: "'t \<Rightarrow> nat \<Rightarrow> ('t server \<Rightarrow> 't server) \<Rightarrow> conn \<Rightarrow> 't server \<Rightarrow> conn \<times> 't server" where
  "srv_handle target k session c s =
     (case cn_hello c of
        (Inl _, c) \<Rightarrow> (cn_Close c, s)
      | (Inr (name, infos), c) \<Rightarrow>
          (let c = setPeer name c
           in case register target name infos (sv_pool s) of
                (Inl _, p) \<Rightarrow> (cn_Close c, s\<lparr>sv_pool := p\<rparr>)
              | (Inr added, p) \<Rightarrow>
                  (let s = removePeer k (session (addPeer k (s\<lparr>sv_pool := p\<rparr>)))
                   in (cn_Close (snd (cn_run c)), s\<lparr>sv_pool := unregister added (sv_pool s)\<rparr>))))"

end
