(* ===== verification/Server_Laws.thy ===== *)
theory Server_Laws
  imports Server Pool_System
begin

text \<open>
  What a relayed job does to the submitter's connection and to the pool, and what a session does
  to the pool.
\<close>

subsection \<open>What goes to the submitter\<close>

text \<open>\<open>grows ok c c'\<close>: the messages sent between \<open>c\<close> and \<open>c'\<close> satisfy \<open>ok\<close>.\<close>

definition grows :: "(message list \<Rightarrow> bool) \<Rightarrow> conn \<Rightarrow> conn \<Rightarrow> bool" where
  "grows ok c c' \<longleftrightarrow> (\<exists>new. cn_sent c' = cn_sent c @ new \<and> ok new)"

lemma send_sent:
  "send m c = (Inr u, c') \<Longrightarrow> cn_sent c' = cn_sent c @ [m]"
  "send m c = (Inl e, c') \<Longrightarrow> cn_sent c' = cn_sent c"
  by (auto simp: send_def split: option.splits prod.splits)

text \<open>Messages of one job, of which only the last may end it.\<close>

definition answer_part :: "u64 \<Rightarrow> message list \<Rightarrow> bool" where
  "answer_part job ms \<longleftrightarrow> (\<forall>m \<in> set ms. JobID m = Some job \<and> is_answer m) \<and> (\<forall>m \<in> set (butlast ms). \<not> is_last m)"

definition open_part :: "u64 \<Rightarrow> message list \<Rightarrow> bool" where
  "open_part job ms \<longleftrightarrow> (\<forall>m \<in> set ms. JobID m = Some job \<and> is_answer m \<and> \<not> is_last m)"

lemma open_part_append: "open_part job ms \<Longrightarrow> answer_part job ns \<Longrightarrow> answer_part job (ms @ ns)"
  by (auto simp: open_part_def answer_part_def butlast_append dest: in_set_butlastD)

lemma open_part_answer: "open_part job ms \<Longrightarrow> answer_part job ms"
  by (auto simp: open_part_def answer_part_def dest: in_set_butlastD)

lemma onward_facts [simp]:
  "is_answer m \<Longrightarrow> JobID (onward job m) = Some job" "is_answer m \<Longrightarrow> is_answer (onward job m)"
  "is_last (onward job m) = is_last m" "is_response (onward job m) = is_response m"
  by (cases m; simp)+

lemma send_each_part:
  assumes "answer_part job ms"
  shows "grows (answer_part job) c (snd (send_each ms c))"
  using assms
proof (induction ms arbitrary: c)
  case Nil
  then show ?case
    by (simp add: returnE_def grows_def answer_part_def)
next
  case (Cons m ms)
  obtain r c1 where s: "send m c = (r, c1)"
    by fastforce
  show ?case
  proof (cases r)
    case (Inl e)
    with s send_sent(2) [of m c e c1] show ?thesis
      by (auto simp: bindE_def grows_def answer_part_def)
  next
    case (Inr u)
    have ms: "answer_part job ms"
      using Cons.prems by (cases ms) (auto simp: answer_part_def)
    have fst: "answer_part job (m # new)" if "answer_part job new" "new = [] \<or> ms \<noteq> []" for new
      using Cons.prems that by (cases ms) (auto simp: answer_part_def)
    from Cons.IH [OF ms, of c1] obtain new where new: "cn_sent (snd (send_each ms c1)) = cn_sent c1 @ new" "answer_part job new"
      by (auto simp: grows_def)
    moreover have "new = [] \<or> ms \<noteq> []"
      using new(1) by (cases ms) (auto simp: returnE_def)
    ultimately show ?thesis
      using Inr s send_sent(1) [of m c u c1] fst by (auto simp: bindE_def grows_def)
  qed
qed

lemma synth_part: "answer_part job (synthMessages job status why)"
  by (simp add: synthMessages_def Let_def answer_part_def)

lemma answer_grows: "grows (answer_part job) c (answer job status why c)"
  unfolding answer_def by (rule send_each_part [OF synth_part])

text \<open>The loop: what it relays, and what its result says about that.\<close>

definition loop_post :: "u64 \<Rightarrow> bool \<Rightarrow> bool \<Rightarrow> peer_error option \<Rightarrow> message list \<Rightarrow> bool" where
  "loop_post job started0 started err new \<longleftrightarrow>
     answer_part job new \<and> (err \<noteq> None \<longrightarrow> open_part job new) \<and>
     (err = None \<longrightarrow> new \<noteq> [] \<and> is_last (last new)) \<and>
     (started0 \<or> (\<exists>m \<in> set new. is_response m) \<longrightarrow> started) \<and>
     (started \<longrightarrow> started0 \<or> (\<exists>m \<in> set new. is_response m) \<or> err = Some ErrCancelled)"

lemma loop_post_Cons:
  assumes "loop_post job (s \<or> is_response m) started err new" "JobID m = Some job" "is_answer m" "\<not> is_last m"
  shows "loop_post job s started err (m # new)"
  using assms by (auto simp: loop_post_def answer_part_def open_part_def)

lemma answer_loop_post:
  "answer_loop reqJob job ctx s evs q c target = Some ((started, err), c', target') \<Longrightarrow>
   grows (loop_post reqJob s started err) c c'"
proof (induction reqJob job ctx s evs q c target rule: answer_loop.induct)
  case (1 reqJob job ctx s evs q c target)
  have nil: "grows (loop_post reqJob s s (Some e)) c c" for e
    by (simp add: grows_def loop_post_def answer_part_def open_part_def)
  obtain r q' evs' where n: "jq_next evs q = Some (r, q', evs')"
    using "1.prems" by (subst (asm) answer_loop.simps) (auto split: option.splits)
  show ?case
  proof (cases r)
    case (Inl e)
    with n "1.prems" nil show ?thesis
      by (subst (asm) answer_loop.simps) (auto split: if_splits)
  next
    case (Inr m)
    show ?thesis
    proof (cases "is_answer m \<and> \<not> (is_fail m \<and> \<not> s)")
      case False
      with Inr n "1.prems" nil show ?thesis
        by (subst (asm) answer_loop.simps) (auto split: if_splits)
    next
      case True
      let ?s = "s \<or> is_response m"
      obtain r2 c2 where snd2: "send (onward reqJob m) c = (r2, c2)"
        by fastforce
      show ?thesis
      proof (cases r2)
        case (Inl e2)
        with True Inr n snd2 "1.prems" have "started = ?s" "err = Some ErrCancelled" "c' = c2"
          by (subst (asm) answer_loop.simps, auto simp: Let_def)+
        then show ?thesis
          using send_sent(2) [of "onward reqJob m" c e2 c2] snd2 Inl
          by (auto simp: grows_def loop_post_def answer_part_def open_part_def)
      next
        case (Inr u)
        note sent = send_sent(1) [OF snd2 [unfolded Inr]]
        show ?thesis
        proof (cases "is_last m")
          case True
          with \<open>is_answer m \<and> _\<close> \<open>r = Inr m\<close> n snd2 Inr "1.prems" have "started = ?s" "err = None" "c' = c2"
            by (subst (asm) answer_loop.simps, auto simp: Let_def)+
          with True \<open>is_answer m \<and> _\<close> sent show ?thesis
            by (auto simp: grows_def loop_post_def answer_part_def)
        next
          case False
          with \<open>is_answer m \<and> _\<close> \<open>r = Inr m\<close> n snd2 Inr "1.prems"
          have rec: "answer_loop reqJob job ctx ?s evs' q' c2 target = Some ((started, err), c', target')"
            by (subst (asm) answer_loop.simps) (auto simp: Let_def)
          have "grows (loop_post reqJob ?s started err) c2 c'"
            using \<open>is_answer m \<and> _\<close>
            by (intro "1.IH" [OF n refl \<open>r = Inr m\<close> refl _ _ refl snd2 [symmetric] Inr False rec]) auto
          then obtain new where "cn_sent c' = cn_sent c2 @ new" "loop_post reqJob ?s started err new"
            by (auto simp: grows_def)
          with sent loop_post_Cons [of reqJob s "onward reqJob m" started err new] \<open>is_answer m \<and> _\<close> False show ?thesis
            by (auto simp: grows_def)
        qed
      qed
    qed
  qed
qed

lemma nothing_sent: "grows (loop_post job False False (Some e)) c c"
  by (simp add: grows_def loop_post_def answer_part_def open_part_def)

lemma srv_dispatch_post:
  assumes "srv_dispatch req body trailers ctx evs c target = Some ((started, err), c', target')"
  shows "grows (loop_post (req_Job req) False started err) c c'"
proof -
  obtain r t1 where n: "newJob target = (r, t1)"
    by fastforce
  show ?thesis
  proof (cases r)
    case (Inl e)
    with assms n nothing_sent show ?thesis
      by (auto simp: srv_dispatch_def)
  next
    case (Inr jq)
    obtain job q where jq: "jq = (job, q)"
      by fastforce
    let ?out = "Request job (req_Service req) (req_Method req) (req_Target req) (req_Headers req)"
    obtain r2 t2 where s2: "send ?out t1 = (r2, t2)"
      by fastforce
    obtain r3 t3 where s3: "sendBodyEnd job body trailers t2 = (r3, t3)"
      by fastforce
    show ?thesis
    proof (cases "\<exists>u v. r2 = Inr u \<and> r3 = Inr v")
      case True
      with assms n Inr jq s2 s3 obtain t4 where
        "answer_loop (req_Job req) job ctx False evs (cn_queues t3 q) c t3 = Some ((started, err), c', t4)"
        by (auto simp: srv_dispatch_def Let_def)
      then show ?thesis
        by (rule answer_loop_post)
    next
      case False
      then have "r2 = Inl e \<or> r3 = Inl f \<Longrightarrow> True" for e f
        by simp
      from False assms n Inr jq s2 s3 nothing_sent show ?thesis
        by (cases r2; cases r3) (auto simp: srv_dispatch_def Let_def)
    qed
  qed
qed

text \<open>The calls a finished relay made, and the leases its attempts gave it.\<close>

definition leases_of :: "attempt list \<Rightarrow> nat list" where
  "leases_of as = concat (map (\<lambda>a. case at_acquire a of Inl _ \<Rightarrow> [] | Inr l \<Rightarrow> [l]) as)"

definition releases_of :: "pool_call list \<Rightarrow> nat list" where
  "releases_of cs = concat (map (\<lambda>x. case x of CallRelease l \<Rightarrow> [l] | CallAcquire _ \<Rightarrow> []) cs)"

definition acquires_of :: "pool_call list \<Rightarrow> bool list" where
  "acquires_of cs = concat (map (\<lambda>x. case x of CallRelease l \<Rightarrow> [] | CallAcquire b \<Rightarrow> [b]) cs)"

lemma calls_Cons [simp]:
  "releases_of [] = []" "acquires_of [] = []"
  "releases_of (CallAcquire b # cs) = releases_of cs" "acquires_of (CallAcquire b # cs) = b # acquires_of cs"
  "releases_of (CallRelease l # cs) = l # releases_of cs" "acquires_of (CallRelease l # cs) = acquires_of cs"
  by (simp_all add: releases_of_def acquires_of_def)

lemma answer_part_snoc:
  "open_part job new \<Longrightarrow> answer_part job (new @ [Fail job why])"
  by (rule open_part_append) (auto simp: answer_part_def)

lemma grows_trans:
  "grows (open_part job) a b \<Longrightarrow> grows (answer_part job) b c \<Longrightarrow> grows (answer_part job) a c"
  by (auto simp: grows_def intro: open_part_append)

lemma send_fail_grows: "grows (answer_part job) c (snd (send (Fail job why) c))"
  using send_sent [of "Fail job why" c] by (cases "send (Fail job why) c"; cases "fst (send (Fail job why) c)")
    (auto simp: grows_def answer_part_def)

definition relay_post :: "u64 \<Rightarrow> bool \<Rightarrow> attempt list \<Rightarrow> pool_call list \<Rightarrow> conn \<Rightarrow> conn \<Rightarrow> bool" where
  "relay_post job front as calls c c' \<longleftrightarrow> grows (answer_part job) c c' \<and>
     releases_of calls = leases_of (take (length (acquires_of calls)) as) \<and>
     acquires_of calls = front # replicate (length (acquires_of calls) - 1) True"

lemma relay_loop_post:
  "relay_loop at et req body trailers front as c = (calls, Some c') \<Longrightarrow> relay_post (req_Job req) front as calls c c'"
proof (induction as arbitrary: front c calls)
  case (Cons a as)
  have one: "relay_post (req_Job req) front (a # as) [CallAcquire front] c d"
    if "grows (answer_part (req_Job req)) c d" "at_acquire a = Inl e" for d e
    using that by (simp add: relay_post_def leases_of_def)
  have two: "relay_post (req_Job req) front (a # as) [CallAcquire front, CallRelease l] c d"
    if "grows (answer_part (req_Job req)) c d" "at_acquire a = Inr l" for d l
    using that by (simp add: relay_post_def leases_of_def)
  have refl: "grows (answer_part job) c c" for job
    by (simp add: grows_def answer_part_def)
  show ?case
  proof (cases "at_acquire a")
    case (Inl e)
    with Cons.prems one [OF _ Inl] refl answer_grows show ?thesis
      by (auto split: if_splits)
  next
    case (Inr l)
    note two = two [OF _ Inr]
    show ?thesis
    proof (cases "at_target a")
      case None
      with Inr Cons.prems two answer_grows show ?thesis
        by auto
    next
      case (Some target)
      with Inr Cons.prems obtain started err c1 t1 where d:
        "srv_dispatch req body trailers (at_ctx a) (at_evs a) c target = Some ((started, err), c1, t1)"
        by (auto split: option.splits)
      from srv_dispatch_post [OF d] have post: "grows (loop_post (req_Job req) False started err) c c1" .
      then have ans: "grows (answer_part (req_Job req)) c c1"
        and op: "err \<noteq> None \<Longrightarrow> grows (open_part (req_Job req)) c c1"
        by (auto simp: grows_def loop_post_def)
      show ?thesis
      proof (cases "\<not> started \<and> err = Some ErrProviderGone")
        case True
        then obtain calls1 where r: "relay_loop at et req body trailers True as c1 = (calls1, Some c')"
            "calls = [CallAcquire front, CallRelease l] @ calls1"
          using Cons.prems Inr Some d by (auto split: prod.splits)
        from Cons.IH [OF r(1)] have p1: "grows (answer_part (req_Job req)) c1 c'"
          "releases_of calls1 = leases_of (take (length (acquires_of calls1)) as)"
          "acquires_of calls1 = True # replicate (length (acquires_of calls1) - 1) True"
          by (auto simp: relay_post_def)
        define n where "n = length (acquires_of calls1) - 1"
        have acq: "acquires_of calls1 = replicate (Suc n) True"
          using p1(3) by (simp add: n_def)
        have "leases_of (take (Suc (Suc n)) (a # as)) = l # leases_of (take (Suc n) as)"
          using Inr by (simp add: leases_of_def)
        moreover have "releases_of calls1 = leases_of (take (Suc n) as)"
          using p1(2) unfolding acq by simp
        ultimately show ?thesis
          using grows_trans [OF op p1(1)] True acq by (simp add: relay_post_def r(2))
      next
        case False
        show ?thesis
        proof (cases err)
          case None
          with Cons.prems Inr Some d two ans show ?thesis
            by auto
        next
          case (Some e)
          note op = op [unfolded Some, simplified]
          have "grows (answer_part (req_Job req)) c c'" "calls = [CallAcquire front, CallRelease l]"
            using Cons.prems Inr \<open>at_target a = Some target\<close> d False Some ans
              grows_trans [OF op answer_grows] grows_trans [OF op send_fail_grows]
            by (auto simp: Let_def split: if_splits)
          then show ?thesis
            using two by simp
        qed
      qed
    qed
  qed
qed simp

subsection \<open>Providers of a session\<close>

lemma dispatch_frame:
  assumes "counted p"
  shows "s_providers (svc (dispatch name p) n) = s_providers (svc p n)" "p_nprov (dispatch name p) = p_nprov p"
    "Service (p_prov (dispatch name p) i) = Service (p_prov p i)" "gone (p_prov (dispatch name p) i) = gone (p_prov p i)"
proof -
  from dispatch_handed [OF assms] obtain k where h: "handed name k p (dispatch name p)" by blast
  show "s_providers (svc (dispatch name p) n) = s_providers (svc p n)" "p_nprov (dispatch name p) = p_nprov p"
    using h by (auto simp: handed_def)
  from h obtain b where "p_prov (dispatch name p) i = (p_prov p i)\<lparr>busy := b\<rparr>"
    unfolding handed_def by blast
  then show "Service (p_prov (dispatch name p) i) = Service (p_prov p i)" "gone (p_prov (dispatch name p) i) = gone (p_prov p i)"
    by simp_all
qed

lemma Add_frame:
  assumes inv: "pool_inv p" and new: "new_provider peer service slots prio target p = (i, p1)"
  shows "s_providers (svc (Add i p1) n) = s_providers (svc p n) @ (if n = service then [i] else [])"
    "p_nprov (Add i p1) = Suc i" "i = p_nprov p" "Service (p_prov (Add i p1) i) = service"
    "j < i \<Longrightarrow> Service (p_prov (Add i p1) j) = Service (p_prov p j)" "pool_inv (Add i p1)"
proof -
  note sel = new_provider_sel(2-) [OF new]
  have c: "counted (join service i p1)"
    using join_counted [OF pool_inv_counted [OF inv] new] .
  show "s_providers (svc (Add i p1) n) = s_providers (svc p n) @ (if n = service then [i] else [])"
    "p_nprov (Add i p1) = Suc i" "Service (p_prov (Add i p1) i) = service"
    "j < i \<Longrightarrow> Service (p_prov (Add i p1) j) = Service (p_prov p j)"
    using dispatch_frame [OF c] by (simp_all add: Add_def sel)
  show "i = p_nprov p"
    by (rule new_provider_sel(1) [OF new])
  show "pool_inv (Add i p1)"
    by (rule Add_inv [OF inv new])
qed

text \<open>What a provider offers, all but its count of busy slots.\<close>

definition offer_of :: "'t provider \<Rightarrow> string \<times> string \<times> u16 \<times> u16 \<times> 't \<times> bool" where
  "offer_of pr = (Peer pr, Service pr, Slots pr, Priority pr, Target pr, gone pr)"

lemma offer_of_busy [simp]: "offer_of (pr\<lparr>busy := b\<rparr>) = offer_of pr"
  by (simp add: offer_of_def)

lemma Add_offer:
  assumes inv: "pool_inv p" and new: "new_provider peer service slots prio target p = (i, p1)"
  shows "offer_of (p_prov (Add i p1) i) = (peer, service, slots, prio, target, False)"
    "j < i \<Longrightarrow> offer_of (p_prov (Add i p1) j) = offer_of (p_prov p j)"
proof -
  let ?j = "join service i p1"
  have c: "counted ?j"
    using join_counted [OF pool_inv_counted [OF inv] new] .
  have sv: "Service (p_prov p1 i) = service"
    using new_provider_sel(3) [OF new] .
  have "\<exists>b. p_prov (Add i p1) k = (p_prov p1 k)\<lparr>busy := b\<rparr>" for k
    using dispatch_handed [OF c, of service] by (auto simp: Add_def sv handed_def)
  then obtain b where b: "\<And>k. p_prov (Add i p1) k = (p_prov p1 k)\<lparr>busy := b k\<rparr>"
    by metis
  show "offer_of (p_prov (Add i p1) i) = (peer, service, slots, prio, target, False)"
    "j < i \<Longrightarrow> offer_of (p_prov (Add i p1) j) = offer_of (p_prov p j)"
    using new unfolding b offer_of_busy by (auto simp: new_provider_def offer_of_def)
qed

lemma Add_target:
  assumes inv: "pool_inv p" and new: "new_provider peer service slots prio target p = (i, p1)"
  shows "Target (p_prov (Add i p1) i) = target" "\<not> gone (p_prov (Add i p1) i)"
    "j < i \<Longrightarrow> Target (p_prov (Add i p1) j) = Target (p_prov p j)" "j < i \<Longrightarrow> gone (p_prov (Add i p1) j) = gone (p_prov p j)"
  using Add_offer [OF assms] by (simp_all add: offer_of_def)

text \<open>What \<open>register\<close> leaves in the pool, whether it accepts or refuses.\<close>

definition registered :: "'t \<Rightarrow> string \<Rightarrow> provider_info list \<Rightarrow> nat \<Rightarrow> 't pool \<Rightarrow> bool" where
  "registered target name infos i p \<longleftrightarrow> (\<forall>k < length infos.
     i + k \<in> set (s_providers (svc p (pi_Service (infos ! k)))) \<and>
     offer_of (p_prov p (i + k)) =
       (name, pi_Service (infos ! k), pi_MaxConcurrent (infos ! k), pi_Priority (infos ! k), target, False))"

lemma register_loop_keeps:
  assumes "pool_inv p" "register_loop target name seen added infos p = (r, p')"
    and "j \<in> set (s_providers (svc p n))"
  shows "j \<in> set (s_providers (svc p' n)) \<and> offer_of (p_prov p' j) = offer_of (p_prov p j)"
  using assms
proof (induction infos arbitrary: p seen added)
  case (Cons info infos)
  show ?case
  proof (cases "pi_Service info \<in> seen")
    case False
    obtain i p1 where new: "new_provider name (pi_Service info) (pi_MaxConcurrent info) (pi_Priority info) target p = (i, p1)"
      by fastforce
    note add = Add_frame [OF Cons.prems(1) new] and off = Add_offer [OF Cons.prems(1) new]
    have j: "j < i"
      using counted_provider [OF pool_inv_counted [OF Cons.prems(1)] Cons.prems(3)] add(3) by simp
    have "register_loop target name (insert (pi_Service info) seen) (added @ [i]) infos (Add i p1) = (r, p')"
      using Cons.prems(2) False new by simp
    with Cons.IH [OF add(6) this] Cons.prems(3) j off(2) show ?thesis
      by (simp add: add(1))
  qed (use Cons.prems in auto)
qed auto

lemma register_loop_ok:
  assumes "pool_inv p" "register_loop target name seen added infos p = (Inr added', p')"
  shows "pool_inv p' \<and> added' = added @ [p_nprov p..<p_nprov p + length infos] \<and>
    p_nprov p' = p_nprov p + length infos \<and> registered target name infos (p_nprov p) p'"
  using assms
proof (induction infos arbitrary: p seen added)
  case (Cons info infos)
  obtain i p1 where new: "new_provider name (pi_Service info) (pi_MaxConcurrent info) (pi_Priority info) target p = (i, p1)"
    by fastforce
  note add = Add_frame [OF Cons.prems(1) new] and off = Add_offer [OF Cons.prems(1) new]
  have rec: "register_loop target name (insert (pi_Service info) seen) (added @ [i]) infos (Add i p1) = (Inr added', p')"
    using Cons.prems(2) new by (auto split: if_splits)
  note ih = Cons.IH [OF add(6) rec]
  have "i \<in> set (s_providers (svc (Add i p1) (pi_Service info)))"
    by (simp add: add(1))
  from register_loop_keeps [OF add(6) rec this]
  have "registered target name (info # infos) i p'"
    using ih off(1) add(2) by (auto simp: registered_def nth_Cons split: nat.splits)
  moreover have "p_nprov p # [Suc (p_nprov p)..<Suc (p_nprov p) + length infos] = [p_nprov p..<p_nprov p + length (info # infos)]"
    by (simp add: upt_conv_Cons del: upt_Suc)
  ultimately show ?case
    using ih add(2,3) by (simp del: upt_Suc)
qed (simp add: registered_def)

lemma Remove_providers:
  assumes "pool_inv p" "i < p_nprov p"
  shows "s_providers (svc (Remove i p) n) = filter (\<lambda>j. j \<noteq> i) (s_providers (svc p n))"
proof -
  note c = pool_inv_counted [OF assms(1)]
  show ?thesis
  proof (cases "n = Service (p_prov p i)")
    case True
    then show ?thesis
      using counted_providers [OF c, of n] Remove_sel(1) [OF c assms(2), of n] by (simp add: distinct_remove1_removeAll removeAll_filter_not_eq) (simp add: eq_commute)
  next
    case False
    have "filter (\<lambda>j. j \<noteq> i) (s_providers (svc p n)) = s_providers (svc p n)"
      using counted_provider [OF c, of i n] False by (auto simp: filter_id_conv)
    then show ?thesis
      using False Remove_sel(1) [OF c assms(2), of n] by simp
  qed
qed

lemma unregister_providers:
  assumes "pool_inv p" "set is \<subseteq> {..<p_nprov p}"
  shows "pool_inv (unregister is p)" "s_providers (svc (unregister is p) n) = filter (\<lambda>j. j \<notin> set is) (s_providers (svc p n))"
  using assms
proof (induction "is" arbitrary: p)
  case (Cons i "is")
  {
    case 1
    then have "pool_inv (Remove i p)" "p_nprov (Remove i p) = p_nprov p"
      using Remove_inv Remove_sel(3) [OF pool_inv_counted] by auto
    then show ?case
      using Cons.IH(1) [of "Remove i p"] 1 by (simp add: unregister_def)
  next
    case 2
    then have "pool_inv (Remove i p)" "p_nprov (Remove i p) = p_nprov p"
      using Remove_inv Remove_sel(3) [OF pool_inv_counted] by auto
    then show ?case
      using Cons.IH(2) [of "Remove i p"] 2 Remove_providers [of p i n]
      by (simp add: unregister_def conj_commute)
  }
qed (simp_all add: unregister_def)

end
