(* ===== verification/Server_System.thy ===== *)
theory Server_System
  imports Server_Laws
begin

text \<open>
  The server as its goroutines use it. Every connection has a goroutine in \<open>handle\<close>, every submitted
  job one in \<open>relay\<close>; a step is one critical section of one of them, on the pool or on the list of
  peers. A provider's \<open>Target\<close> is the number of its connection.
\<close>

subsection \<open>Goroutines\<close>

text \<open>
  Where \<open>handle\<close> stands: inside \<open>register\<close> with what it has seen and added, returned after a refusal,
  between \<open>addPeer\<close> and \<open>removePeer\<close>, taking its providers out again, or returned.
\<close>

datatype stage = Away | Registering string "string set" "nat list" "provider_info list"
  | RefusedAfter "nat list" | Serving "nat list" | Removing "nat list" | Over

text \<open>
  Where \<open>relay\<close> stands: about to call \<open>Acquire\<close>, queued in it, on its way out of it after a
  timeout or the end of its context, between \<open>Acquire\<close> and \<open>Release\<close>, or returned.
\<close>

datatype job = NoJob | Asking string bool | Waiting string nat | Quitting nat | Working string nat | Answered

record ssys =
  z_sys :: "nat psys"
  z_peers :: "nat list"
  z_stage :: "nat \<Rightarrow> stage"
  z_job :: "nat \<Rightarrow> job"

definition server_of :: "ssys \<Rightarrow> nat server" where
  "server_of z = \<lparr>sv_pool = y_pool (z_sys z), sv_peers = z_peers z\<rparr>"

definition init_ssys :: "int \<Rightarrow> ssys" where
  "init_ssys t = \<lparr>z_sys = init_sys t, z_peers = [], z_stage = (\<lambda>_. Away), z_job = (\<lambda>_. NoJob)\<rparr>"

definition set_stage :: "nat \<Rightarrow> stage \<Rightarrow> ssys \<Rightarrow> ssys" where
  "set_stage k s z = z\<lparr>z_stage := (z_stage z)(k := s)\<rparr>"

definition set_job :: "nat \<Rightarrow> job \<Rightarrow> nat psys \<Rightarrow> ssys \<Rightarrow> ssys" where
  "set_job j s y z = z\<lparr>z_sys := y, z_job := (z_job z)(j := s)\<rparr>"

text \<open>The steps of \<open>handle\<close>, in the order it makes them.\<close>

inductive session_step :: "ssys \<Rightarrow> ssys \<Rightarrow> bool" where
  greeted: "z_stage z k = Away \<Longrightarrow>
    session_step z (set_stage k (Registering name {} [] infos) z)"
| registers: "z_stage z k = Registering name seen added (info # infos) \<Longrightarrow> pi_Service info \<notin> seen \<Longrightarrow>
    new_provider name (pi_Service info) (pi_MaxConcurrent info) (pi_Priority info) k (y_pool (z_sys z)) = (i, q) \<Longrightarrow>
    session_step z (set_stage k (Registering name (insert (pi_Service info) seen) (added @ [i]) infos)
      (z\<lparr>z_sys := (z_sys z)\<lparr>y_pool := Add i q\<rparr>\<rparr>))"
| refuses: "z_stage z k = Registering name seen added (info # infos) \<Longrightarrow> pi_Service info \<in> seen \<Longrightarrow>
    session_step z (set_stage k (RefusedAfter added) z)"
| serves: "z_stage z k = Registering name seen added [] \<Longrightarrow>
    session_step z (set_stage k (Serving added) (z\<lparr>z_peers := sv_peers (addPeer k (server_of z))\<rparr>))"
| ends: "z_stage z k = Serving added \<Longrightarrow>
    session_step z (set_stage k (Removing added) (z\<lparr>z_peers := sv_peers (removePeer k (server_of z))\<rparr>))"
| removes: "z_stage z k = Removing (i # added) \<Longrightarrow>
    session_step z (set_stage k (Removing added) (z\<lparr>z_sys := (z_sys z)\<lparr>y_pool := Remove i (y_pool (z_sys z))\<rparr>\<rparr>))"
| leaves: "z_stage z k = Removing [] \<Longrightarrow> session_step z (set_stage k Over z)"

text \<open>The steps of \<open>relay\<close>: a lease is asked for, held and released; a job whose provider is gone asks again, at the head.\<close>

inductive job_step :: "ssys \<Rightarrow> ssys \<Rightarrow> bool" where
  submits: "z_job z j = NoJob \<Longrightarrow> job_step z (set_job j (Asking name False) (z_sys z) z)"
| gets: "z_job z j = Asking name front \<Longrightarrow> Acquire_enter name front (y_pool y) = (Got l, q) \<Longrightarrow> y = z_sys z \<Longrightarrow>
    job_step z (set_job j (Working name l) (y\<lparr>y_pool := q, y_held := insert l (y_held y)\<rparr>) z)"
| queues: "z_job z j = Asking name front \<Longrightarrow> Acquire_enter name front (y_pool y) = (Queued w, q) \<Longrightarrow> y = z_sys z \<Longrightarrow>
    job_step z (set_job j (Waiting name w)
      (y\<lparr>y_pool := q, y_phase := (y_phase y)(w := Selecting), y_name := (y_name y)(w := name)\<rparr>) z)"
| wakes: "z_job z j = Waiting name w \<Longrightarrow> recv_lease w (y_pool y) = Some (l, q) \<Longrightarrow> y = z_sys z \<Longrightarrow>
    job_step z (set_job j (Working name l)
      (y\<lparr>y_pool := q, y_phase := (y_phase y)(w := Left), y_held := insert l (y_held y)\<rparr>) z)"
| gives_up: "z_job z j = Waiting name w \<Longrightarrow> abandon_search name w (y_pool y) = (b, q) \<Longrightarrow> y = z_sys z \<Longrightarrow>
    job_step z (set_job j (if b then Answered else Quitting w)
      (y\<lparr>y_pool := q, y_phase := (y_phase y)(w := if b then Left else Leaving)\<rparr>) z)"
| drains: "z_job z j = Quitting w \<Longrightarrow> y_phase y w = Leaving \<Longrightarrow> recv_lease w (y_pool y) = Some (l, q) \<Longrightarrow> y = z_sys z \<Longrightarrow>
    job_step z (set_job j (Quitting w) (y\<lparr>y_pool := q, y_phase := (y_phase y)(w := Giving l)\<rparr>) z)"
| drains_none: "z_job z j = Quitting w \<Longrightarrow> y_phase y w = Leaving \<Longrightarrow> recv_lease w (y_pool y) = None \<Longrightarrow> y = z_sys z \<Longrightarrow>
    job_step z (set_job j Answered (y\<lparr>y_phase := (y_phase y)(w := Left)\<rparr>) z)"
| gives_back: "z_job z j = Quitting w \<Longrightarrow> y_phase y w = Giving l \<Longrightarrow> y = z_sys z \<Longrightarrow>
    job_step z (set_job j Answered (y\<lparr>y_pool := Release l (y_pool y), y_phase := (y_phase y)(w := Left)\<rparr>) z)"
| finishes: "z_job z j = Working name l \<Longrightarrow> y = z_sys z \<Longrightarrow>
    job_step z (set_job j Answered (y\<lparr>y_pool := Release l (y_pool y)\<rparr>) z)"
| retries: "z_job z j = Working name l \<Longrightarrow> y = z_sys z \<Longrightarrow>
    job_step z (set_job j (Asking name True) (y\<lparr>y_pool := Release l (y_pool y)\<rparr>) z)"

inductive srv_step :: "ssys \<Rightarrow> ssys \<Rightarrow> bool" where
  session: "session_step z z' \<Longrightarrow> srv_step z z'"
| job: "job_step z z' \<Longrightarrow> srv_step z z'"


subsection \<open>Every job has what it waits for or works with\<close>

text \<open>What a job has in the pool: a place in a queue, or a lease.\<close>

fun claim :: "job \<Rightarrow> (nat + nat) option" where
  "claim (Waiting _ w) = Some (Inl w)"
| "claim (Quitting w) = Some (Inl w)"
| "claim (Working _ l) = Some (Inr l)"
| "claim _ = None"

fun claimed :: "nat psys \<Rightarrow> job \<Rightarrow> bool" where
  "claimed y (Waiting n w) \<longleftrightarrow> w < p_nwait (y_pool y) \<and> y_phase y w = Selecting \<and> y_name y w = n"
| "claimed y (Quitting w) \<longleftrightarrow> w < p_nwait (y_pool y) \<and> (y_phase y w = Leaving \<or> (\<exists>l. y_phase y w = Giving l))"
| "claimed y (Working n l) \<longleftrightarrow> l \<in> y_held y \<and> \<not> l_released (p_lease (y_pool y) l)"
| "claimed y _ \<longleftrightarrow> True"

definition placed_jobs :: "ssys \<Rightarrow> bool" where
  "placed_jobs z \<longleftrightarrow> (\<forall>j. claimed (z_sys z) (z_job z j))"

definition jobs_apart :: "ssys \<Rightarrow> bool" where
  "jobs_apart z \<longleftrightarrow> (\<forall>i j x. claim (z_job z i) = Some x \<longrightarrow> claim (z_job z j) = Some x \<longrightarrow> i = j)"

definition jobs_all :: "ssys \<Rightarrow> bool" where
  "jobs_all z \<longleftrightarrow>
     (\<forall>w < p_nwait (y_pool (z_sys z)). y_phase (z_sys z) w \<noteq> Left \<longrightarrow> (\<exists>j. claim (z_job z j) = Some (Inl w))) \<and>
     (\<forall>l \<in> y_held (z_sys z). \<not> l_released (p_lease (y_pool (z_sys z)) l) \<longrightarrow> (\<exists>j. claim (z_job z j) = Some (Inr l)))"

definition jobs_inv :: "ssys \<Rightarrow> bool" where
  "jobs_inv z \<longleftrightarrow> placed_jobs z \<and> jobs_apart z \<and> jobs_all z"

lemma claim_simps:
  "claim s = Some (Inl w) \<longleftrightarrow> (\<exists>n. s = Waiting n w) \<or> s = Quitting w"
  "claim s = Some (Inr l) \<longleftrightarrow> (\<exists>n. s = Working n l)"
  by (cases s; simp)+

lemma jobs_invD:
  assumes "jobs_inv z"
  shows inv_claimed: "claimed (z_sys z) (z_job z j)"
    and inv_apart: "claim (z_job z i) = Some x \<Longrightarrow> claim (z_job z j) = Some x \<Longrightarrow> i = j"
    and inv_waiter: "w < p_nwait (y_pool (z_sys z)) \<Longrightarrow> y_phase (z_sys z) w \<noteq> Left \<Longrightarrow> \<exists>j. claim (z_job z j) = Some (Inl w)"
    and inv_lease: "l \<in> y_held (z_sys z) \<Longrightarrow> \<not> l_released (p_lease (y_pool (z_sys z)) l) \<Longrightarrow> \<exists>j. claim (z_job z j) = Some (Inr l)"
  using assms unfolding jobs_inv_def placed_jobs_def jobs_apart_def jobs_all_def by blast+

lemma jobs_invI:
  assumes "\<And>j. claimed (z_sys z) (z_job z j)"
    and "\<And>i j x. claim (z_job z i) = Some x \<Longrightarrow> claim (z_job z j) = Some x \<Longrightarrow> i = j"
    and "\<And>w. w < p_nwait (y_pool (z_sys z)) \<Longrightarrow> y_phase (z_sys z) w \<noteq> Left \<Longrightarrow> \<exists>j. claim (z_job z j) = Some (Inl w)"
    and "\<And>l. l \<in> y_held (z_sys z) \<Longrightarrow> \<not> l_released (p_lease (y_pool (z_sys z)) l) \<Longrightarrow> \<exists>j. claim (z_job z j) = Some (Inr l)"
  shows "jobs_inv z"
  using assms unfolding jobs_inv_def placed_jobs_def jobs_apart_def jobs_all_def by blast

text \<open>One job moves from one claim to another; all other claims stand.\<close>

lemma jobs_inv_move:
  assumes inv: "jobs_inv z" and z': "z' = set_job j s y' z"
    and waiters: "\<And>w. w < p_nwait (y_pool (z_sys z)) \<Longrightarrow> claim (z_job z j) \<noteq> Some (Inl w) \<Longrightarrow>
      w < p_nwait (y_pool y') \<and> y_phase y' w = y_phase (z_sys z) w \<and> y_name y' w = y_name (z_sys z) w"
    and leases: "\<And>l. l \<in> y_held (z_sys z) \<Longrightarrow> claim (z_job z j) \<noteq> Some (Inr l) \<Longrightarrow>
      \<not> l_released (p_lease (y_pool (z_sys z)) l) \<Longrightarrow> l \<in> y_held y' \<and> \<not> l_released (p_lease (y_pool y') l)"
    and new: "claimed y' s"
    and fresh: "\<And>w. claim s = Some (Inl w) \<Longrightarrow> claim (z_job z j) = Some (Inl w) \<or> \<not> w < p_nwait (y_pool (z_sys z))"
      "\<And>l. claim s = Some (Inr l) \<Longrightarrow> l \<notin> y_held (z_sys z)"
    and rest: "\<And>w. w < p_nwait (y_pool y') \<Longrightarrow> y_phase y' w \<noteq> Left \<Longrightarrow> claim s \<noteq> Some (Inl w) \<Longrightarrow>
        w < p_nwait (y_pool (z_sys z)) \<and> claim (z_job z j) \<noteq> Some (Inl w) \<and> y_phase (z_sys z) w \<noteq> Left"
      "\<And>l. l \<in> y_held y' \<Longrightarrow> \<not> l_released (p_lease (y_pool y') l) \<Longrightarrow> claim s \<noteq> Some (Inr l) \<Longrightarrow>
        l \<in> y_held (z_sys z) \<and> \<not> l_released (p_lease (y_pool (z_sys z)) l) \<and> claim (z_job z j) \<noteq> Some (Inr l)"
  shows "jobs_inv z'"
proof -
  have other: "claim (z_job z i) \<noteq> claim (z_job z j) \<or> claim (z_job z i) = None" if "i \<noteq> j" for i
    using inv_apart [OF inv, of i _ j] that by (cases "claim (z_job z i)") auto
  have keep: "claimed y' (z_job z i)" if "i \<noteq> j" for i
    using inv_claimed [OF inv, of i] other [OF that] waiters leases by (cases "z_job z i") auto
  have apart: "claim (z_job z i) \<noteq> claim s" if "i \<noteq> j" "claim s = Some x" for i x
  proof
    assume eq: "claim (z_job z i) = claim s"
    show False
    proof (cases x)
      case (Inl w)
      with eq that inv_claimed [OF inv, of i] have "w < p_nwait (y_pool (z_sys z))"
        by (auto simp: claim_simps)
      with fresh(1) [of w] other [OF that(1)] eq that(2) Inl show False by auto
    next
      case (Inr l)
      with eq that inv_claimed [OF inv, of i] have "l \<in> y_held (z_sys z)"
        by (auto simp: claim_simps)
      with fresh(2) [of l] that(2) Inr show False by simp
    qed
  qed
  show ?thesis
  proof (rule jobs_invI)
    fix i
    show "claimed (z_sys z') (z_job z' i)"
      using keep [of i] new by (simp add: z' set_job_def)
  next
    fix i k x
    assume "claim (z_job z' i) = Some x" "claim (z_job z' k) = Some x"
    then show "i = k"
      using inv_apart [OF inv, of i x k] apart [of i x] apart [of k x]
      by (cases "i = j"; cases "k = j") (simp_all add: z' set_job_def)
  next
    fix w
    assume w: "w < p_nwait (y_pool (z_sys z'))" "y_phase (z_sys z') w \<noteq> Left"
    show "\<exists>i. claim (z_job z' i) = Some (Inl w)"
    proof (cases "claim s = Some (Inl w)")
      case True
      then show ?thesis by (intro exI [of _ j]) (simp add: z' set_job_def)
    next
      case False
      with rest(1) [of w] w have "w < p_nwait (y_pool (z_sys z))" "claim (z_job z j) \<noteq> Some (Inl w)" "y_phase (z_sys z) w \<noteq> Left"
        by (simp_all add: z' set_job_def)
      with inv_waiter [OF inv, of w] show ?thesis
        by (auto simp: z' set_job_def)
    qed
  next
    fix l
    assume l: "l \<in> y_held (z_sys z')" "\<not> l_released (p_lease (y_pool (z_sys z')) l)"
    show "\<exists>i. claim (z_job z' i) = Some (Inr l)"
    proof (cases "claim s = Some (Inr l)")
      case True
      then show ?thesis by (intro exI [of _ j]) (simp add: z' set_job_def)
    next
      case False
      with rest(2) [of l] l inv_lease [OF inv, of l] show ?thesis
        by (auto simp: z' set_job_def)
    qed
  qed
qed

text \<open>What the pool does for others leaves a job's claims alone.\<close>

definition undisturbed :: "'t pool \<Rightarrow> 't pool \<Rightarrow> bool" where
  "undisturbed p q \<longleftrightarrow> p_nwait q = p_nwait p \<and> p_nlease p \<le> p_nlease q \<and>
     (\<forall>l < p_nlease p. l_released (p_lease q l) = l_released (p_lease p l) \<and> l_provider (p_lease q l) = l_provider (p_lease p l))"

lemma jobs_inv_undisturbed:
  assumes inv: "jobs_inv z" and q: "undisturbed (y_pool (z_sys z)) q" and lp: "leases_placed (z_sys z)"
    and z': "z_job z' = z_job z" "z_sys z' = (z_sys z)\<lparr>y_pool := q\<rparr>"
  shows "jobs_inv z'"
proof -
  have same: "p_nwait q = p_nwait (y_pool (z_sys z))"
      "\<And>l. l \<in> y_held (z_sys z) \<Longrightarrow> l_released (p_lease q l) = l_released (p_lease (y_pool (z_sys z)) l)"
    using q placed_held [OF lp] by (auto simp: undisturbed_def)
  have "claimed (z_sys z') s = claimed (z_sys z) s" for s
    by (cases s) (auto simp: z' same)
  with inv show ?thesis
    by (auto simp: jobs_inv_def placed_jobs_def jobs_apart_def jobs_all_def z' same)
qed

lemma Add_undisturbed:
  assumes "counted p" "new_provider peer service slots prio target p = (i, q)"
  shows "undisturbed p (Add i q)"
proof -
  obtain k where "handed service k (join service i q) (Add i q)"
    using dispatch_handed [OF join_counted [OF assms], of service] new_provider_sel(3) [OF assms(2)] by (auto simp: Add_def)
  then show ?thesis
    using new_provider_sel [OF assms(2)] by (auto simp: undisturbed_def handed_def)
qed

lemma Release_leases:
  assumes "counted p" "l < p_nlease p"
  shows "p_nwait (Release l p) = p_nwait p \<and> p_nlease p \<le> p_nlease (Release l p) \<and>
    (\<forall>m < p_nlease p. l_released (p_lease (Release l p) m) = (m = l \<or> l_released (p_lease p m)) \<and>
       l_provider (p_lease (Release l p) m) = l_provider (p_lease p m))"
proof (cases "l_released (p_lease p l)")
  case False
  from Release_handed [OF assms False] obtain k where "handed (l_service (p_lease p l)) k (unlease l p) (Release l p)" .
  then show ?thesis
    by (auto simp: handed_def unlease_sel)
qed (auto simp: Release_def)

lemma Acquire_got:
  assumes "Acquire_enter name front p = (Got l, q)"
  shows "l = p_nlease p \<and> p_nlease q = Suc l \<and> p_nwait q = p_nwait p \<and>
    (\<forall>m. m \<noteq> l \<longrightarrow> p_lease q m = p_lease p m) \<and> \<not> l_released (p_lease q l)"
  using assms
proof (cases rule: Acquire_enter_cases)
  case (got i l')
  then show ?thesis
    by (auto simp: take_slot_def add_busy_def)
qed simp

lemma Acquire_queued:
  assumes "Acquire_enter name front p = (Queued w, q)"
  shows "w = p_nwait p \<and> p_nwait q = Suc w \<and> p_nlease q = p_nlease p \<and> p_lease q = p_lease p"
  using assms
proof (cases rule: Acquire_enter_cases)
  case (queued w')
  then show ?thesis
    using enqueue_sel [OF queued(3)] by simp
qed simp

lemma abandon_search_sel:
  assumes "abandon_search name w p = (b, q)"
  shows "p_nwait q = p_nwait p \<and> p_nlease q = p_nlease p \<and> p_lease q = p_lease p"
  using assms by (auto simp: abandon_search_def upd_svc_def split: if_splits)

lemma job_step_pool:
  assumes "job_step z z'" "jobs_inv z"
  shows "pool_step\<^sup>*\<^sup>* (z_sys z) (z_sys z')"
  using assms
proof cases
  case (wakes j name w y l q)
  with inv_claimed [OF assms(2), of j] have "pool_step (z_sys z) (z_sys z')"
    using pool_step.recv [of w y l q] by (simp add: set_job_def)
  then show ?thesis ..
next
  case (gives_up j name w y b q)
  with inv_claimed [OF assms(2), of j] have "pool_step (z_sys z) (z_sys z')"
    using pool_step.give_up [of w y b q] by (simp add: set_job_def)
  then show ?thesis ..
next
  case (drains j w y l q)
  with inv_claimed [OF assms(2), of j] have "pool_step (z_sys z) (z_sys z')"
    using pool_step.drain [of w y l q] by (simp add: set_job_def)
  then show ?thesis ..
next
  case (drains_none j w y)
  with inv_claimed [OF assms(2), of j] have "pool_step (z_sys z) (z_sys z')"
    using pool_step.drain_none [of w y] by (simp add: set_job_def)
  then show ?thesis ..
next
  case (finishes j name l y)
  with inv_claimed [OF assms(2), of j] have "pool_step (z_sys z) (z_sys z')"
    using pool_step.release [of l y] by (simp add: set_job_def)
  then show ?thesis ..
next
  case (retries j name l y)
  with inv_claimed [OF assms(2), of j] have "pool_step (z_sys z) (z_sys z')"
    using pool_step.release [of l y] by (simp add: set_job_def)
  then show ?thesis ..
qed (auto simp: set_job_def intro: pool_step.intros)

lemma released_by:
  assumes "sys_inv y" "l \<in> y_held y \<or> y_phase y w = Giving l"
  shows "p_nwait (Release l (y_pool y)) = p_nwait (y_pool y)" "p_nlease (y_pool y) \<le> p_nlease (Release l (y_pool y))"
    and "m \<in> y_held y \<Longrightarrow> l_released (p_lease (Release l (y_pool y)) m) = (m = l \<or> l_released (p_lease (y_pool y) m))"
proof -
  have lp: "leases_placed y" and c: "counted (y_pool y)"
    using assms(1) by (simp_all add: sys_inv_def pool_inv_def)
  have "l < p_nlease (y_pool y)"
    using assms(2) placed_held [OF lp] placed_giving [OF lp] by blast
  note rel = Release_leases [OF c this]
  then show "p_nwait (Release l (y_pool y)) = p_nwait (y_pool y)" "p_nlease (y_pool y) \<le> p_nlease (Release l (y_pool y))"
    by simp_all
  show "m \<in> y_held y \<Longrightarrow> l_released (p_lease (Release l (y_pool y)) m) = (m = l \<or> l_released (p_lease (y_pool y) m))"
    using rel placed_held [OF lp] by blast
qed

lemma job_step_inv:
  assumes "job_step z z'" "jobs_inv z" "sys_inv (z_sys z)"
  shows "jobs_inv z'"
  using assms(1)
proof cases
  case (submits j name)
  then show ?thesis
    by (intro jobs_inv_move [OF assms(2) submits(1)]) auto
next
  case (gets j name front y l q)
  have "\<And>m. m \<in> y_held (z_sys z) \<Longrightarrow> m < l"
    using placed_held [of "z_sys z"] assms(3) Acquire_got [OF gets(3)] gets(4) by (auto simp: sys_inv_def)
  with gets Acquire_got [OF gets(3)] show ?thesis
    by (intro jobs_inv_move [OF assms(2) gets(1)]) (force | fastforce dest: less_imp_neq)+
next
  case (queues j name front y w q)
  with Acquire_queued [OF queues(3)] show ?thesis
    by (intro jobs_inv_move [OF assms(2) queues(1)]) (auto split: if_splits)
next
  case (wakes j name w y l q)
  have "l \<notin> y_held (z_sys z)" "\<not> l_released (p_lease (y_pool (z_sys z)) l)"
    using recv_lease_sel(1) [OF wakes(3)] placed_chan [of "z_sys z" w l] assms(3) wakes(4) by (auto simp: sys_inv_def)
  with wakes recv_lease_sel(2) [OF wakes(3)] show ?thesis
    by (intro jobs_inv_move [OF assms(2) wakes(1)]) (auto split: if_splits)
next
  case (gives_up j name w y b q)
  with abandon_search_sel [OF gives_up(3)] inv_claimed [OF assms(2), of j] show ?thesis
    by (intro jobs_inv_move [OF assms(2) gives_up(1)]) (auto split: if_splits)
next
  case (drains j w y l q)
  with recv_lease_sel(2) [OF drains(4)] inv_claimed [OF assms(2), of j] show ?thesis
    by (intro jobs_inv_move [OF assms(2) drains(1)]) (auto split: if_splits)
next
  case (drains_none j w y)
  then show ?thesis
    by (intro jobs_inv_move [OF assms(2) drains_none(1)]) (auto split: if_splits)
next
  case (gives_back j w y l)
  note rel = released_by [OF assms(3), of l w]
  have "l \<notin> y_held (z_sys z)"
    using placed_giving [of "z_sys z" w l] assms(3) gives_back by (auto simp: sys_inv_def)
  with gives_back rel show ?thesis
    by (intro jobs_inv_move [OF assms(2) gives_back(1)]) (auto split: if_splits)
next
  case (finishes j name l y)
  note rel = released_by [OF assms(3), of l]
  have "l \<in> y_held (z_sys z)"
    using inv_claimed [OF assms(2), of j] finishes by simp
  with finishes rel show ?thesis
    by (intro jobs_inv_move [OF assms(2) finishes(1)]) auto
next
  case (retries j name l y)
  note rel = released_by [OF assms(3), of l]
  have "l \<in> y_held (z_sys z)"
    using inv_claimed [OF assms(2), of j] retries by simp
  with retries rel show ?thesis
    by (intro jobs_inv_move [OF assms(2) retries(1)]) auto
qed

subsection \<open>Every provider has its session\<close>

fun offered :: "stage \<Rightarrow> nat list" where
  "offered (Registering _ _ added _) = added"
| "offered (RefusedAfter added) = added"
| "offered (Serving added) = added"
| "offered (Removing added) = added"
| "offered _ = []"

definition offers_ok :: "nat pool \<Rightarrow> (nat \<Rightarrow> stage) \<Rightarrow> bool" where
  "offers_ok p stages \<longleftrightarrow>
     (\<forall>k. distinct (offered (stages k)) \<and> (\<forall>i \<in> set (offered (stages k)).
        i < p_nprov p \<and> Target (p_prov p i) = k \<and> i \<in> set (s_providers (svc p (Service (p_prov p i)))))) \<and>
     (\<forall>n. \<forall>i \<in> set (s_providers (svc p n)). i \<in> set (offered (stages (Target (p_prov p i)))))"

definition peers_ok :: "nat list \<Rightarrow> (nat \<Rightarrow> stage) \<Rightarrow> bool" where
  "peers_ok peers stages \<longleftrightarrow> distinct peers \<and> set peers = {k. \<exists>added. stages k = Serving added}"

text \<open>The pool's operations for jobs change no provider but its count of busy slots.\<close>

definition same_offer :: "'t pool \<Rightarrow> 't pool \<Rightarrow> bool" where
  "same_offer p q \<longleftrightarrow> p_nprov q = p_nprov p \<and> (\<forall>n. s_providers (svc q n) = s_providers (svc p n)) \<and>
     (\<forall>i. offer_of (p_prov q i) = offer_of (p_prov p i))"

lemma same_offer_refl [simp]: "same_offer p p"
  by (simp add: same_offer_def)

lemma same_offer_trans: "same_offer p q \<Longrightarrow> same_offer q r \<Longrightarrow> same_offer p r"
  by (simp add: same_offer_def)

lemma same_offer_sel:
  assumes "same_offer p q"
  shows "p_nprov q = p_nprov p" "s_providers (svc q n) = s_providers (svc p n)"
    "Target (p_prov q i) = Target (p_prov p i)" "Service (p_prov q i) = Service (p_prov p i)" "Slots (p_prov q i) = Slots (p_prov p i)"
proof -
  have "offer_of (p_prov q i) = offer_of (p_prov p i)"
    using assms by (simp add: same_offer_def)
  then show "Target (p_prov q i) = Target (p_prov p i)" "Service (p_prov q i) = Service (p_prov p i)" "Slots (p_prov q i) = Slots (p_prov p i)"
    by (simp_all add: offer_of_def)
qed (use assms in \<open>simp_all add: same_offer_def\<close>)

lemma offers_ok_same: "same_offer p q \<Longrightarrow> offers_ok q = offers_ok p"
  by (simp add: fun_eq_iff offers_ok_def same_offer_sel)

lemma handed_offer:
  assumes "handed n k p q"
  shows "same_offer p q"
proof -
  have "offer_of (p_prov q i) = offer_of (p_prov p i)" for i
  proof -
    obtain b where "p_prov q i = (p_prov p i)\<lparr>busy := b\<rparr>"
      using assms unfolding handed_def by blast
    then show ?thesis by simp
  qed
  with assms show ?thesis
    by (simp add: same_offer_def handed_def)
qed

lemma Release_offer:
  assumes "counted p" "l < p_nlease p"
  shows "same_offer p (Release l p)"
proof (cases "l_released (p_lease p l)")
  case False
  from Release_handed [OF assms False] obtain k where "handed (l_service (p_lease p l)) k (unlease l p) (Release l p)" .
  moreover have "same_offer p (unlease l p)"
    by (simp add: same_offer_def unlease_sel)
  ultimately show ?thesis
    using handed_offer same_offer_trans by blast
qed (simp add: Release_def)

lemma Acquire_offer:
  assumes "Acquire_enter name front p = (a, q)"
  shows "same_offer p q"
  using assms
proof (cases rule: Acquire_enter_cases)
  case (got i l)
  then show ?thesis
    using take_slot_sel [OF got(4)] by (simp add: same_offer_def)
next
  case (queued w)
  then show ?thesis
    using enqueue_sel [OF queued(3)] by (simp add: same_offer_def)
qed

lemma recv_offer: "recv_lease w p = Some (l, q) \<Longrightarrow> same_offer p q"
  by (auto dest: recv_lease_sel(2) simp: same_offer_def)

lemma abandon_offer: "abandon_search name w p = (b, q) \<Longrightarrow> same_offer p q"
  by (auto simp: abandon_search_def same_offer_def split: if_splits)

lemma job_step_offer:
  assumes "job_step z z'" "jobs_inv z" "sys_inv (z_sys z)"
  shows "same_offer (y_pool (z_sys z)) (y_pool (z_sys z'))" "z_stage z' = z_stage z" "z_peers z' = z_peers z"
proof -
  show "z_stage z' = z_stage z" "z_peers z' = z_peers z"
    using assms(1) by (cases; simp add: set_job_def)+
  have lp: "leases_placed (z_sys z)" and c: "counted (y_pool (z_sys z))"
    using assms(3) by (simp_all add: sys_inv_def pool_inv_def)
  have rel: "same_offer (y_pool (z_sys z)) (Release l (y_pool (z_sys z)))"
    if "l \<in> y_held (z_sys z) \<or> y_phase (z_sys z) w = Giving l" for l w
    using that placed_held [OF lp] placed_giving [OF lp] Release_offer [OF c] by blast
  from assms(1) show "same_offer (y_pool (z_sys z)) (y_pool (z_sys z'))"
  proof cases
    case (gives_back j w y l)
    then show ?thesis using rel [of l w] by (simp add: set_job_def)
  next
    case (finishes j name l y)
    then show ?thesis using rel [of l] inv_claimed [OF assms(2), of j] by (simp add: set_job_def)
  next
    case (retries j name l y)
    then show ?thesis using rel [of l] inv_claimed [OF assms(2), of j] by (simp add: set_job_def)
  qed (auto simp: set_job_def intro: Acquire_offer recv_offer abandon_offer)
qed

definition srv_inv :: "ssys \<Rightarrow> bool" where
  "srv_inv z \<longleftrightarrow> sys_inv (z_sys z) \<and> jobs_inv z \<and> offers_ok (y_pool (z_sys z)) (z_stage z) \<and> peers_ok (z_peers z) (z_stage z)"

lemma offers_okD:
  assumes "offers_ok p stages"
  shows offered_distinct: "distinct (offered (stages k))"
    and offered_listed: "i \<in> set (offered (stages k)) \<Longrightarrow>
      i < p_nprov p \<and> Target (p_prov p i) = k \<and> i \<in> set (s_providers (svc p (Service (p_prov p i))))"
    and listed_offered: "i \<in> set (s_providers (svc p n)) \<Longrightarrow> i \<in> set (offered (stages (Target (p_prov p i))))"
  using assms unfolding offers_ok_def by blast+

lemma offers_ok_stage: "offers_ok p stages \<Longrightarrow> offered s = offered (stages k) \<Longrightarrow> offers_ok p (stages(k := s))"
  by (auto simp: offers_ok_def)

lemma Add_offers:
  assumes inv: "pool_inv p" and ok: "offers_ok p stages"
    and new: "new_provider name service slots prio k p = (i, q)" and s: "offered s = offered (stages k) @ [i]"
  shows "offers_ok (Add i q) (stages(k := s))"
proof -
  note add = Add_frame [OF inv new] and tgt = Add_target [OF inv new]
  have old: "j < i" if "j \<in> set (offered (stages k'))" for j k'
    using offered_listed [OF ok that] add(3) by simp
  have old': "j < i" if "j \<in> set (s_providers (svc p n))" for j n
    using counted_provider [OF pool_inv_counted [OF inv] that] add(3) by simp
  show ?thesis
    unfolding offers_ok_def
  proof (intro conjI allI ballI)
    fix k'
    show "distinct (offered ((stages(k := s)) k'))"
      using offered_distinct [OF ok] old by (auto simp: s)
  next
    fix k' j
    assume j: "j \<in> set (offered ((stages(k := s)) k'))"
    show "j < p_nprov (Add i q)" "Target (p_prov (Add i q) j) = k'"
        "j \<in> set (s_providers (svc (Add i q) (Service (p_prov (Add i q) j))))"
      using j old [of j k'] offered_listed [OF ok, of j k'] add(1,2,4,5) tgt(1,3)
      by (auto simp: s split: if_splits)
  next
    fix n j
    assume j: "j \<in> set (s_providers (svc (Add i q) n))"
    show "j \<in> set (offered ((stages(k := s)) (Target (p_prov (Add i q) j))))"
      using j old' [of j n] listed_offered [OF ok, of j n] add(1) tgt(1,3) by (auto simp: s split: if_splits)
  qed
qed

lemma Remove_offers:
  assumes inv: "pool_inv p" and ok: "offers_ok p stages" and k: "offered (stages k) = i # offered s"
  shows "offers_ok (Remove i p) (stages(k := s))"
proof -
  note c = pool_inv_counted [OF inv]
  have i: "i < p_nprov p" "Target (p_prov p i) = k" and d: "distinct (i # offered s)"
    using offered_listed [OF ok, of i k] offered_distinct [OF ok, of k] k by simp_all
  note sel = Remove_sel [OF c i(1)] and lst = Remove_providers [OF inv i(1)]
  have attrs: "Target (p_prov (Remove i p) j) = Target (p_prov p j)" "Service (p_prov (Remove i p) j) = Service (p_prov p j)" for j
    by (simp_all add: sel(2))
  have other: "j \<noteq> i" if "j \<in> set (offered ((stages(k := s)) k'))" for j k'
    using that d i(2) offered_listed [OF ok, of i k'] by (auto split: if_splits)
  have sub: "j \<in> set (offered (stages k'))" if "j \<in> set (offered ((stages(k := s)) k'))" for j k'
    using that k by (auto split: if_splits)
  show ?thesis
    unfolding offers_ok_def attrs
  proof (intro conjI allI ballI)
    fix k'
    show "distinct (offered ((stages(k := s)) k'))"
      using offered_distinct [OF ok] d by simp
  next
    fix k' j
    assume j: "j \<in> set (offered ((stages(k := s)) k'))"
    show "j < p_nprov (Remove i p)" "Target (p_prov p j) = k'" "j \<in> set (s_providers (svc (Remove i p) (Service (p_prov p j))))"
      using offered_listed [OF ok sub [OF j]] other [OF j] by (simp_all add: lst sel(3))
  next
    fix n j
    assume "j \<in> set (s_providers (svc (Remove i p) n))"
    then have "j \<in> set (s_providers (svc p n))" "j \<noteq> i"
      by (simp_all add: lst)
    then show "j \<in> set (offered ((stages(k := s)) (Target (p_prov p j))))"
      using listed_offered [OF ok, of j n] k by auto
  qed
qed

lemma peers_ok_stage:
  "peers_ok peers stages \<Longrightarrow> \<forall>added. s \<noteq> Serving added \<Longrightarrow> \<forall>added. stages k \<noteq> Serving added \<Longrightarrow> peers_ok peers (stages(k := s))"
  by (auto simp: peers_ok_def)

lemma session_step_inv:
  assumes "session_step z z'" "srv_inv z"
  shows "srv_inv z'"
proof -
  have inv: "sys_inv (z_sys z)" "pool_inv (y_pool (z_sys z))" "leases_placed (z_sys z)" "jobs_inv z"
      and ok: "offers_ok (y_pool (z_sys z)) (z_stage z)" and peers: "peers_ok (z_peers z) (z_stage z)"
    using assms(2) by (simp_all add: srv_inv_def sys_inv_def)
  have jobs: "jobs_inv z''" if "z_job z'' = z_job z" "z_sys z'' = z_sys z" for z''
    using inv(4) that by (simp add: jobs_inv_def placed_jobs_def jobs_apart_def jobs_all_def)
  from assms(1) show ?thesis
  proof cases
    case (greeted k name infos)
    then show ?thesis
      using inv jobs [of z'] ok peers
      by (simp add: srv_inv_def set_stage_def offers_ok_stage peers_ok_stage)
  next
    case (registers k name seen added info infos i q)
    have "sys_inv (z_sys z')"
      using pool_step_inv [OF pool_step.add [OF registers(4)] inv(1)] by (simp add: registers(1) set_stage_def)
    moreover have "jobs_inv z'"
      using jobs_inv_undisturbed [OF inv(4) Add_undisturbed [OF pool_inv_counted [OF inv(2)] registers(4)] inv(3)]
      by (simp add: registers(1) set_stage_def)
    moreover have "offers_ok (y_pool (z_sys z')) (z_stage z')"
      using Add_offers [OF inv(2) ok registers(4), of "Registering name (insert (pi_Service info) seen) (added @ [i]) infos"]
      by (simp add: registers(1,2) set_stage_def)
    ultimately show ?thesis
      using peers by (simp add: srv_inv_def registers(1,2) set_stage_def peers_ok_stage)
  next
    case (refuses k name seen added info infos)
    then show ?thesis
      using inv jobs [of z'] ok peers
      by (simp add: srv_inv_def set_stage_def offers_ok_stage peers_ok_stage)
  next
    case (serves k name seen added)
    then show ?thesis
      using inv jobs [of z'] ok peers
      by (auto simp: srv_inv_def set_stage_def offers_ok_stage peers_ok_def addPeer_def server_of_def)
  next
    case (ends k added)
    then show ?thesis
      using inv jobs [of z'] ok peers
      by (auto simp: srv_inv_def set_stage_def offers_ok_stage peers_ok_def removePeer_def server_of_def distinct_removeAll)
  next
    case (removes k i added)
    have i: "i < p_nprov (y_pool (z_sys z))"
      using offered_listed [OF ok, of i k] removes(2) by simp
    have "sys_inv (z_sys z')"
      using pool_step_inv [OF pool_step.remove [OF i] inv(1)] by (simp add: removes(1) set_stage_def)
    moreover have "undisturbed (y_pool (z_sys z)) (Remove i (y_pool (z_sys z)))"
      using Remove_sel [OF pool_inv_counted [OF inv(2)] i] by (simp add: undisturbed_def)
    from jobs_inv_undisturbed [OF inv(4) this inv(3)] have "jobs_inv z'"
      by (simp add: removes(1) set_stage_def)
    moreover have "offers_ok (y_pool (z_sys z')) (z_stage z')"
      using Remove_offers [OF inv(2) ok, of k i "Removing added"] by (simp add: removes(1,2) set_stage_def)
    ultimately show ?thesis
      using peers by (simp add: srv_inv_def removes(1,2) set_stage_def peers_ok_stage)
  next
    case (leaves k)
    then show ?thesis
      using inv jobs [of z'] ok peers
      by (simp add: srv_inv_def set_stage_def offers_ok_stage peers_ok_stage)
  qed
qed

lemma srv_step_pool:
  assumes "srv_step z z'" "srv_inv z"
  shows "pool_step\<^sup>*\<^sup>* (z_sys z) (z_sys z')"
  using assms(1)
proof cases
  case session
  from session show ?thesis
  proof cases
    case (registers k name seen added info infos i q)
    then show ?thesis
      using pool_step.add [OF registers(4)] by (auto simp: set_stage_def)
  next
    case (removes k i added)
    have "i < p_nprov (y_pool (z_sys z))"
      using offered_listed [of "y_pool (z_sys z)" "z_stage z" i k] assms(2) removes(2) by (simp add: srv_inv_def)
    from pool_step.remove [OF this] show ?thesis
      by (simp add: removes(1) set_stage_def r_into_rtranclp)
  qed (simp_all add: set_stage_def)
next
  case job
  then show ?thesis
    using job_step_pool assms(2) by (simp add: srv_inv_def)
qed

lemma srv_step_inv:
  assumes "srv_inv z" "srv_step z z'"
  shows "srv_inv z'"
  using assms(2)
proof cases
  case session
  then show ?thesis
    using assms(1) by (rule session_step_inv)
next
  case job
  have "sys_inv (z_sys z')"
    using pool_sys.steps_inv [OF srv_step_pool [OF assms(2,1)]] assms(1) by (simp add: srv_inv_def)
  then show ?thesis
    using job_step_inv [OF job] job_step_offer [OF job] assms(1) by (simp add: srv_inv_def offers_ok_same)
qed

lemma init_srv_inv: "srv_inv (init_ssys t)"
proof -
  have "jobs_inv (init_ssys t)"
    by (rule jobs_invI) (simp_all add: init_ssys_def init_sys_def New_def)
  then show ?thesis
    by (simp add: srv_inv_def init_ssys_def init_sys_inv offers_ok_def peers_ok_def)
      (simp add: init_sys_def New_def svc_def)
qed

interpretation srv_sys: refining_system "\<lambda>z. z = init_ssys t" srv_step srv_inv "\<lambda>y. y = init_sys t" pool_step z_sys
proof unfold_locales
  show "srv_inv s" if "s = init_ssys t" for s
    using that by (simp add: init_srv_inv)
  show "srv_inv u" if "srv_inv s" "srv_step s u" for s u
    using that by (rule srv_step_inv)
  show "z_sys s = init_sys t" if "s = init_ssys t" for s
    using that by (simp add: init_ssys_def)
  show "pool_step\<^sup>*\<^sup>* (z_sys s) (z_sys u)" if "srv_inv s" "srv_step s u" for s u
    using that by (simp add: srv_step_pool)
qed

definition srv_reachable :: "int \<Rightarrow> ssys \<Rightarrow> bool" where
  "srv_reachable t z \<longleftrightarrow> srv_step\<^sup>*\<^sup>* (init_ssys t) z"

lemma srv_reachable_inv: "srv_reachable t z \<Longrightarrow> srv_inv z"
  unfolding srv_reachable_def by (rule srv_sys.reachable_inv [OF refl])

lemma srv_reachable_pool: "srv_reachable t z \<Longrightarrow> reachable t (z_sys z)"
  unfolding srv_reachable_def reachable_def using srv_sys.reachable_med [OF refl] by blast

subsection \<open>Properties\<close>







text \<open>A peer with one slot connects and a job takes it: a state the theorems are tried on.\<close>

definition solo_info :: provider_info where
  "solo_info = \<lparr>pi_Service = ''s'', pi_MaxConcurrent = 1, pi_Priority = 0\<rparr>"

definition solo_greeted :: ssys where
  "solo_greeted = set_stage 7 (Registering ''peer'' {} [] [solo_info]) (init_ssys 9)"

definition solo_added :: ssys where
  "solo_added = set_stage 7 (Registering ''peer'' {''s''} [0] [])
     (solo_greeted\<lparr>z_sys := (z_sys solo_greeted)\<lparr>y_pool := Add 0 (snd (new_provider ''peer'' ''s'' 1 0 7 (New 9)))\<rparr>\<rparr>)"

definition solo_serving :: ssys where
  "solo_serving = set_stage 7 (Serving [0]) (solo_added\<lparr>z_peers := [7]\<rparr>)"


lemma solo_serving_reachable: "srv_reachable 9 solo_serving"
proof -
  have "session_step (init_ssys 9) solo_greeted"
    unfolding solo_greeted_def by (rule greeted) (simp add: init_ssys_def)
  moreover have "session_step solo_greeted solo_added"
    using registers [of solo_greeted 7 "''peer''" "{}" "[]" solo_info "[]" 0 "snd (new_provider ''peer'' ''s'' 1 0 7 (New 9))"]
    by (simp add: solo_added_def solo_greeted_def solo_info_def set_stage_def init_ssys_def init_sys_def new_provider_def New_def)
  moreover have "session_step solo_added solo_serving"
    using serves [of solo_added 7 "''peer''" "{''s''}" "[0]"]
    by (simp add: solo_serving_def solo_added_def set_stage_def addPeer_def server_of_def solo_greeted_def init_ssys_def)
  ultimately show ?thesis
    unfolding srv_reachable_def by (meson srv_step.session rtranclp.rtrancl_into_rtrancl rtranclp.rtrancl_refl)
qed




text \<open>
  C6. The pool offers what is connected. In every state of the server a provider is listed for a
  service exactly when it is of that service and its connection's goroutine has added it and not yet
  taken it out; the list of peers is exactly the sessions that are being served; and once the
  goroutine of an accepted session has returned, no provider of its connection is listed. The one
  exception is the session that was refused: what it had added by then stays.
\<close>

theorem pool_offers_the_connected:
  assumes "srv_reachable t z"
  shows "(i \<in> set (s_providers (svc (y_pool (z_sys z)) n)) \<longleftrightarrow>
      (\<exists>k. i \<in> set (offered (z_stage z k)) \<and> Service (p_prov (y_pool (z_sys z)) i) = n)) \<and>
    (i \<in> set (offered (z_stage z k)) \<longrightarrow> Target (p_prov (y_pool (z_sys z)) i) = k) \<and>
    distinct (z_peers z) \<and> (k \<in> set (z_peers z) \<longleftrightarrow> (\<exists>added. z_stage z k = Serving added)) \<and>
    (z_stage z k = Over \<longrightarrow> i \<in> set (s_providers (svc (y_pool (z_sys z)) n)) \<longrightarrow> Target (p_prov (y_pool (z_sys z)) i) \<noteq> k)"
proof -
  have ok: "offers_ok (y_pool (z_sys z)) (z_stage z)" and peers: "peers_ok (z_peers z) (z_stage z)"
    using srv_reachable_inv [OF assms] by (simp_all add: srv_inv_def)
  note c = reachable_counted [OF srv_reachable_pool [OF assms]]
  show ?thesis
    using offered_listed [OF ok] listed_offered [OF ok, of i n] counted_provider [OF c, of i n] peers
    by (auto simp: peers_ok_def)
qed

theorem pool_offers_the_connected_witness:
  "0 \<in> set (s_providers (svc (y_pool (z_sys solo_serving)) ''s'')) \<and> 7 \<in> set (z_peers solo_serving)"
proof -
  have st: "z_stage solo_serving 7 = Serving [0]" and "Service (p_prov (y_pool (z_sys solo_serving)) 0) = ''s''"
    by code_simp+
  then have "\<exists>k. 0 \<in> set (offered (z_stage solo_serving k)) \<and> Service (p_prov (y_pool (z_sys solo_serving)) 0) = ''s''"
    by (intro exI [of _ 7]) simp
  with pool_offers_the_connected [OF solo_serving_reachable, of 0 "''s''" 7] st show ?thesis
    by simp
qed

end
