(* ===== verification/Conf.thy ===== *)
theory Conf
  imports Go_Strings
begin

text \<open>
  \<^verbatim>\<open>internal/conf\<close>: reading \<^verbatim>\<open>httppooler.conf\<close>. A refusal is the file, the line and what is wrong;
  the wording of the message is left to the constructor that names it. Three things come from
  outside: the name of the machine (\<open>os.Hostname\<close>), the contents of the file, and the rounding of
  fractions of a unit in \<open>time.ParseDuration\<close>.
\<close>

subsection \<open>Data (\<^verbatim>\<open>conf.go\<close>)\<close>

datatype conf_role = ConfNone | ConfServer | ConfClient

definition DefaultListen :: string where "DefaultListen = ''0.0.0.0:7420''"
definition DefaultQueueTimeout :: int where "DefaultQueueTimeout = 10 * 60 * 1000000000"
definition DefaultConcurrent :: u16 where "DefaultConcurrent = 1"
definition DefaultPriority :: u16 where "DefaultPriority = 100"
definition SecretSize :: nat where "SecretSize = 32"

record Consume =
  co_Service :: string
  co_Listen :: string

record Provide =
  pv_Service :: string
  pv_Upstream :: string
  pv_MaxConcurrent :: u16
  pv_Priority :: u16

record Conf =
  cf_Role :: conf_role
  cf_Listen :: string
  cf_Server :: string
  cf_Secret :: bytes
  cf_Name :: string
  cf_QueueTimeout :: int
  cf_Consume :: "Consume list"
  cf_Provide :: "Provide list"

text \<open>What a refusal says, and the \<open>Error\<close> that carries it.\<close>

datatype refusal =
    HeaderUnclosed | NameNotQuoted | NameHoldsQuote | NameEmpty | UnknownSection string
  | NeedsName string | TakesNoName string | NotASetting | NotAKey string | NoValue string
  | KeyBeforeSection string | AlreadySet string nat
  | PeerAgain nat | UnknownKey string | Empty string | TooLong string nat | NotValidUTF8 string
  | SectionAgain nat | NoListen | NoUpstream | NotARole string
  | NotHostPort string string | NotAPort string string | NoHost string string
  | SecretLength nat | SecretNotHex | NotADuration string | NotAWait string
  | NotANumber string string | TooSmall string nat
  | NoSecret | NoServer | ServerKey string | ClientKey

record conf_error =
  ce_File :: string
  ce_Line :: nat
  ce_Msg :: refusal

definition refuse :: "string \<Rightarrow> nat \<Rightarrow> refusal \<Rightarrow> conf_error + 'a" where
  "refuse file line msg = Inl \<lparr>ce_File = file, ce_Line = line, ce_Msg = msg\<rparr>"

text \<open>The sequencing of fallible steps: the first error ends it.\<close>

definition andThen :: "'e + 'a \<Rightarrow> ('a \<Rightarrow> 'e + 'b) \<Rightarrow> 'e + 'b" where
  "andThen r f = (case r of Inl e \<Rightarrow> Inl e | Inr a \<Rightarrow> f a)"

lemma andThen_simps [simp]: "andThen (Inl e) f = Inl e" "andThen (Inr a) f = f a"
  by (simp_all add: andThen_def)

lemma andThen_cong [fundef_cong]:
  "r = r' \<Longrightarrow> (\<And>a. r' = Inr a \<Longrightarrow> f a = f' a) \<Longrightarrow> andThen r f = andThen r' f'"
  by (simp add: andThen_def split: sum.split)

lemma andThen_Inr: "andThen r f = Inr b \<longleftrightarrow> (\<exists>a. r = Inr a \<and> f a = Inr b)"
  by (simp add: andThen_def split: sum.split)

lemma andThen_Inl: "andThen r f = Inl e \<longleftrightarrow> r = Inl e \<or> (\<exists>a. r = Inr a \<and> f a = Inl e)"
  by (auto simp: andThen_def split: sum.split)

lemma refuse_ne [simp]: "refuse file line msg \<noteq> Inr a" "Inr a \<noteq> refuse file line msg"
  by (simp_all add: refuse_def)

subsection \<open>The grammar (\<^verbatim>\<open>parse.go\<close>)\<close>

record conf_value =
  v_text :: string
  v_line :: nat

record conf_section =
  sec_kind :: string
  sec_name :: string
  sec_line :: nat
  sec_keys :: "string \<rightharpoonup> conf_value"
  sec_order :: "string list"

definition sectionKinds :: "(string \<times> bool) list" where
  "sectionKinds = [(''peer'', False), (''consume'', True), (''provide'', True)]"

definition uncomment :: "string \<Rightarrow> string" where
  "uncomment line = (case IndexByte line (CHR ''#'') of Some i \<Rightarrow> take i line | None \<Rightarrow> line)"

text \<open>The kind and the name a section header writes between its brackets.\<close>

definition header_parts :: "string \<Rightarrow> refusal + string \<times> string" where
  "header_parts inner =
     (case IndexAny inner [CHR '' '', CHR 0x09] of
        None \<Rightarrow> Inr (inner, [])
      | Some i \<Rightarrow>
          (let quoted = TrimSpace (drop i inner);
               name = take (length quoted - 2) (drop 1 quoted)
           in if length quoted < 2 \<or> \<not> HasPrefix quoted [CHR 0x22] \<or> \<not> HasSuffix quoted [CHR 0x22]
                then Inl NameNotQuoted
              else if CHR 0x22 \<in> set name then Inl NameHoldsQuote
              else if name = [] then Inl NameEmpty
              else Inr (take i inner, name)))"

definition conf_header :: "string \<Rightarrow> nat \<Rightarrow> string \<Rightarrow> conf_error + conf_section" where
  "conf_header text line file =
     (if \<not> HasSuffix text '']'' then refuse file line HeaderUnclosed
      else case header_parts (TrimSpace (take (length text - 2) (drop 1 text))) of
             Inl msg \<Rightarrow> refuse file line msg
           | Inr (kind, name) \<Rightarrow>
               (case map_of sectionKinds kind of
                  None \<Rightarrow> refuse file line (UnknownSection kind)
                | Some named \<Rightarrow>
                    if named \<and> name = [] then refuse file line (NeedsName kind)
                    else if \<not> named \<and> name \<noteq> [] then refuse file line (TakesNoName kind)
                    else Inr \<lparr>sec_kind = kind, sec_name = name, sec_line = line,
                              sec_keys = Map.empty, sec_order = []\<rparr>))"

definition isWord :: "string \<Rightarrow> bool" where
  "isWord s \<longleftrightarrow> list_all (\<lambda>r. let n = of_char r :: nat in
     97 \<le> n \<and> n \<le> 122 \<or> 65 \<le> n \<and> n \<le> 90 \<or> 48 \<le> n \<and> n \<le> 57 \<or> r = CHR ''_'') s"

definition setting :: "string \<Rightarrow> nat \<Rightarrow> string \<Rightarrow> conf_error + string \<times> string" where
  "setting text line file =
     (case Cut text (CHR ''='') of
        (key, val, found) \<Rightarrow>
          if \<not> found then refuse file line NotASetting
          else let key = TrimSpace key; val = TrimSpace val
               in if key = [] \<or> \<not> isWord key then refuse file line (NotAKey key)
                  else if val = [] then refuse file line (NoValue key)
                  else Inr (key, val))"

text \<open>
  One line of \<open>split\<close>. \<open>current\<close> is the last of the sections read so far.
\<close>

definition set_key :: "string \<Rightarrow> string \<Rightarrow> nat \<Rightarrow> conf_section \<Rightarrow> conf_section" where
  "set_key key val line s = s\<lparr>sec_keys := (sec_keys s)(key \<mapsto> \<lparr>v_text = val, v_line = line\<rparr>),
     sec_order := sec_order s @ [key]\<rparr>"

definition split_line :: "string \<Rightarrow> nat \<Rightarrow> string \<Rightarrow> conf_section list \<Rightarrow> conf_error + conf_section list" where
  "split_line file line raw sections =
     (let text = TrimSpace (uncomment raw)
      in if text = [] then Inr sections
         else if HasPrefix text ''['' then
           andThen (conf_header text line file) (\<lambda>s. Inr (sections @ [s]))
         else
           andThen (setting text line file) (\<lambda>(key, val).
             if sections = [] then refuse file line (KeyBeforeSection key)
             else case sec_keys (last sections) key of
                    Some old \<Rightarrow> refuse file line (AlreadySet key (v_line old))
                  | None \<Rightarrow> Inr (butlast sections @ [set_key key val line (last sections)])))"

fun split_lines :: "string \<Rightarrow> nat \<Rightarrow> string list \<Rightarrow> conf_section list \<Rightarrow> conf_error + conf_section list" where
  "split_lines file i [] sections = Inr sections"
| "split_lines file i (raw # raws) sections =
     andThen (split_line file (i + 1) raw sections) (split_lines file (i + 1) raws)"

definition conf_split :: "string \<Rightarrow> string \<Rightarrow> conf_error + conf_section list" where
  "conf_split text file = split_lines file 0 (Split_at text (CHR 0x0A)) []"

subsection \<open>What the keys mean (\<^verbatim>\<open>build.go\<close>)\<close>

definition conf_role_of :: "conf_value \<Rightarrow> string \<Rightarrow> conf_error + conf_role" where
  "conf_role_of v file =
     (if v_text v = ''server'' then Inr ConfServer
      else if v_text v = ''client'' then Inr ConfClient
      else refuse file (v_line v) (NotARole (v_text v)))"

definition address :: "conf_value \<Rightarrow> string \<Rightarrow> string \<Rightarrow> bool \<Rightarrow> conf_error + string" where
  "address v file what needHost =
     (case SplitHostPort (v_text v) of
        None \<Rightarrow> refuse file (v_line v) (NotHostPort what (v_text v))
      | Some (host, port) \<Rightarrow>
          (case Atoi port of
             None \<Rightarrow> refuse file (v_line v) (NotAPort what port)
           | Some n \<Rightarrow>
               if n < 1 \<or> n > 65535 then refuse file (v_line v) (NotAPort what port)
               else if needHost \<and> host = [] then refuse file (v_line v) (NoHost what (v_text v))
               else Inr (v_text v)))"

definition conf_secret :: "conf_value \<Rightarrow> string \<Rightarrow> conf_error + bytes" where
  "conf_secret v file =
     (if length (v_text v) \<noteq> SecretSize * 2 then refuse file (v_line v) (SecretLength (length (v_text v)))
      else case DecodeString (v_text v) of
             None \<Rightarrow> refuse file (v_line v) SecretNotHex
           | Some key \<Rightarrow> Inr key)"

definition duration :: "(nat \<Rightarrow> nat \<Rightarrow> nat \<Rightarrow> nat) \<Rightarrow> conf_value \<Rightarrow> string \<Rightarrow> conf_error + int" where
  "duration frac v file =
     (case ParseDuration frac (v_text v) of
        None \<Rightarrow> refuse file (v_line v) (NotADuration (v_text v))
      | Some d \<Rightarrow> if d \<le> 0 then refuse file (v_line v) (NotAWait (v_text v)) else Inr d)"

definition number :: "conf_value \<Rightarrow> string \<Rightarrow> string \<Rightarrow> nat \<Rightarrow> conf_error + u16" where
  "number v file what low =
     (case ParseUint (v_text v) 16 of
        None \<Rightarrow> refuse file (v_line v) (NotANumber what (v_text v))
      | Some n \<Rightarrow> if n < low then refuse file (v_line v) (TooSmall what n) else Inr (of_nat n))"

definition conf_name :: "string \<Rightarrow> nat \<Rightarrow> string \<Rightarrow> string \<Rightarrow> conf_error + unit" where
  "conf_name s line file what =
     (if s = [] then refuse file line (Empty what)
      else if length s > 255 then refuse file line (TooLong what (length s))
      else if \<not> ValidString s then refuse file line (NotValidUTF8 what)
      else Inr ())"

definition conf_text :: "conf_value \<Rightarrow> string \<Rightarrow> string \<Rightarrow> conf_error + string" where
  "conf_text v file what = andThen (conf_name (v_text v) (v_line v) file what) (\<lambda>_. Inr (v_text v))"

definition hostname :: "string option \<Rightarrow> string" where
  "hostname host =
     (case host of
        Some h \<Rightarrow> if h \<noteq> [] \<and> length h \<le> 255 \<and> ValidString h then h else ''httppooler''
      | None \<Rightarrow> ''httppooler'')"

text \<open>\<open>s.keys[key]\<close> of a key in \<open>s.order\<close>; Go's zero value for any other.\<close>

definition key_of :: "conf_section \<Rightarrow> string \<Rightarrow> conf_value" where
  "key_of s key = (case sec_keys s key of Some v \<Rightarrow> v | None \<Rightarrow> \<lparr>v_text = [], v_line = 0\<rparr>)"

fun known_keys :: "conf_section \<Rightarrow> string \<Rightarrow> string list \<Rightarrow> string list \<Rightarrow> conf_error + unit" where
  "known_keys s file allowed [] = Inr ()"
| "known_keys s file allowed (key # keys) =
     (if key \<in> set allowed then known_keys s file allowed keys
      else refuse file (v_line (key_of s key)) (UnknownKey key))"

definition known :: "conf_section \<Rightarrow> string \<Rightarrow> string list \<Rightarrow> conf_error + unit" where
  "known s file allowed = known_keys s file allowed (sec_order s)"

definition service_name :: "conf_section \<Rightarrow> string \<Rightarrow> (string \<rightharpoonup> nat) \<Rightarrow> conf_error + (string \<rightharpoonup> nat)" where
  "service_name s file seen =
     andThen (conf_name (sec_name s) (sec_line s) file ''service name'') (\<lambda>_.
       case seen (sec_name s) of
         Some line \<Rightarrow> refuse file (sec_line s) (SectionAgain line)
       | None \<Rightarrow> Inr (seen(sec_name s \<mapsto> sec_line s)))"

text \<open>The keys of \<open>[peer]\<close>, in the order they were written.\<close>

definition peer_key :: "(nat \<Rightarrow> nat \<Rightarrow> nat \<Rightarrow> nat) \<Rightarrow> string \<Rightarrow> string \<Rightarrow> conf_value \<Rightarrow> Conf \<Rightarrow> conf_error + Conf" where
  "peer_key frac file key v c =
     (if key = ''role'' then andThen (conf_role_of v file) (\<lambda>r. Inr (c\<lparr>cf_Role := r\<rparr>))
      else if key = ''listen'' then andThen (address v file ''listen'' False) (\<lambda>a. Inr (c\<lparr>cf_Listen := a\<rparr>))
      else if key = ''server'' then andThen (address v file ''server'' True) (\<lambda>a. Inr (c\<lparr>cf_Server := a\<rparr>))
      else if key = ''secret'' then andThen (conf_secret v file) (\<lambda>k. Inr (c\<lparr>cf_Secret := k\<rparr>))
      else if key = ''name'' then andThen (conf_text v file ''name'') (\<lambda>n. Inr (c\<lparr>cf_Name := n\<rparr>))
      else if key = ''queue_timeout'' then andThen (duration frac v file) (\<lambda>d. Inr (c\<lparr>cf_QueueTimeout := d\<rparr>))
      else Inr c)"

fun peer_keys :: "(nat \<Rightarrow> nat \<Rightarrow> nat \<Rightarrow> nat) \<Rightarrow> string \<Rightarrow> conf_section \<Rightarrow> string list \<Rightarrow> Conf \<Rightarrow> conf_error + Conf" where
  "peer_keys frac file s [] c = Inr c"
| "peer_keys frac file s (key # keys) c =
     andThen (peer_key frac file key (key_of s key) c) (peer_keys frac file s keys)"

definition conf_peer :: "(nat \<Rightarrow> nat \<Rightarrow> nat \<Rightarrow> nat) \<Rightarrow> conf_section \<Rightarrow> string \<Rightarrow> Conf \<Rightarrow> conf_error + Conf" where
  "conf_peer frac s file c =
     andThen (known s file [''role'', ''listen'', ''server'', ''secret'', ''name'', ''queue_timeout''])
       (\<lambda>_. peer_keys frac file s (sec_order s) c)"

definition conf_consume :: "conf_section \<Rightarrow> string \<Rightarrow> (string \<rightharpoonup> nat) \<Rightarrow> Conf \<Rightarrow> conf_error + (string \<rightharpoonup> nat) \<times> Conf" where
  "conf_consume s file seen c =
     andThen (known s file [''listen'']) (\<lambda>_.
     andThen (service_name s file seen) (\<lambda>seen.
       case sec_keys s ''listen'' of
         None \<Rightarrow> refuse file (sec_line s) NoListen
       | Some v \<Rightarrow>
           andThen (address v file ''listen'' False) (\<lambda>listen.
             Inr (seen, c\<lparr>cf_Consume := cf_Consume c @ [\<lparr>co_Service = sec_name s, co_Listen = listen\<rparr>]\<rparr>))))"

definition number_key :: "conf_section \<Rightarrow> string \<Rightarrow> string \<Rightarrow> nat \<Rightarrow> u16 \<Rightarrow> conf_error + u16" where
  "number_key s file key low dflt =
     (case sec_keys s key of None \<Rightarrow> Inr dflt | Some v \<Rightarrow> number v file key low)"

definition conf_provide :: "conf_section \<Rightarrow> string \<Rightarrow> (string \<rightharpoonup> nat) \<Rightarrow> Conf \<Rightarrow> conf_error + (string \<rightharpoonup> nat) \<times> Conf" where
  "conf_provide s file seen c =
     andThen (known s file [''upstream'', ''max_concurrent'', ''priority'']) (\<lambda>_.
     andThen (service_name s file seen) (\<lambda>seen.
       case sec_keys s ''upstream'' of
         None \<Rightarrow> refuse file (sec_line s) NoUpstream
       | Some v \<Rightarrow>
           andThen (address v file ''upstream'' True) (\<lambda>upstream.
           andThen (number_key s file ''max_concurrent'' 1 DefaultConcurrent) (\<lambda>mc.
           andThen (number_key s file ''priority'' 0 DefaultPriority) (\<lambda>prio.
             Inr (seen, c\<lparr>cf_Provide := cf_Provide c @
               [\<lparr>pv_Service = sec_name s, pv_Upstream = upstream, pv_MaxConcurrent = mc, pv_Priority = prio\<rparr>]\<rparr>))))))"

text \<open>
  \<open>checkRole\<close>. A conf with a role has a \<open>[peer]\<close> section, which set it; the case without one is the
  nil dereference it would be.
\<close>

definition role_line :: "conf_section option \<Rightarrow> string \<Rightarrow> nat" where
  "role_line peer key =
     (case peer of None \<Rightarrow> 0
      | Some s \<Rightarrow> (case sec_keys s key of Some v \<Rightarrow> v_line v | None \<Rightarrow> sec_line s))"

definition has_key :: "conf_section option \<Rightarrow> string \<Rightarrow> bool" where
  "has_key peer key \<longleftrightarrow> (case peer of None \<Rightarrow> False | Some s \<Rightarrow> sec_keys s key \<noteq> None)"

definition checkRole :: "conf_section option \<Rightarrow> string \<Rightarrow> Conf \<Rightarrow> conf_error + unit" where
  "checkRole peer file c =
     (if cf_Role c = ConfNone then Inr ()
      else if cf_Secret c = [] then refuse file (role_line peer ''secret'') NoSecret
      else if cf_Role c = ConfClient \<and> cf_Server c = [] then refuse file (role_line peer ''server'') NoServer
      else if cf_Role c = ConfClient \<and> has_key peer ''listen''
        then refuse file (role_line peer ''listen'') (ServerKey ''listen'')
      else if cf_Role c = ConfClient \<and> has_key peer ''queue_timeout''
        then refuse file (role_line peer ''queue_timeout'') (ServerKey ''queue_timeout'')
      else if cf_Role c = ConfServer \<and> has_key peer ''server''
        then refuse file (role_line peer ''server'') ClientKey
      else Inr ())"

text \<open>The state of the loop of \<open>build\<close>.\<close>

record build_state =
  bs_conf :: Conf
  bs_peer :: "conf_section option"
  bs_consumed :: "string \<rightharpoonup> nat"
  bs_provided :: "string \<rightharpoonup> nat"

definition build_section :: "(nat \<Rightarrow> nat \<Rightarrow> nat \<Rightarrow> nat) \<Rightarrow> string \<Rightarrow> conf_section \<Rightarrow> build_state \<Rightarrow> conf_error + build_state" where
  "build_section frac file s b =
     (if sec_kind s = ''peer'' then
        (case bs_peer b of
           Some p \<Rightarrow> refuse file (sec_line s) (PeerAgain (sec_line p))
         | None \<Rightarrow> andThen (conf_peer frac s file (bs_conf b)) (\<lambda>c. Inr (b\<lparr>bs_conf := c, bs_peer := Some s\<rparr>)))
      else if sec_kind s = ''consume'' then
        andThen (conf_consume s file (bs_consumed b) (bs_conf b)) (\<lambda>(seen, c). Inr (b\<lparr>bs_conf := c, bs_consumed := seen\<rparr>))
      else if sec_kind s = ''provide'' then
        andThen (conf_provide s file (bs_provided b) (bs_conf b)) (\<lambda>(seen, c). Inr (b\<lparr>bs_conf := c, bs_provided := seen\<rparr>))
      else Inr b)"

fun build_sections :: "(nat \<Rightarrow> nat \<Rightarrow> nat \<Rightarrow> nat) \<Rightarrow> string \<Rightarrow> conf_section list \<Rightarrow> build_state \<Rightarrow> conf_error + build_state" where
  "build_sections frac file [] b = Inr b"
| "build_sections frac file (s # ss) b = andThen (build_section frac file s b) (build_sections frac file ss)"

definition new_conf :: "string option \<Rightarrow> Conf" where
  "new_conf host = \<lparr>cf_Role = ConfNone, cf_Listen = DefaultListen, cf_Server = [], cf_Secret = [],
     cf_Name = hostname host, cf_QueueTimeout = DefaultQueueTimeout, cf_Consume = [], cf_Provide = []\<rparr>"

definition build :: "(nat \<Rightarrow> nat \<Rightarrow> nat \<Rightarrow> nat) \<Rightarrow> string option \<Rightarrow> conf_section list \<Rightarrow> string \<Rightarrow> conf_error + Conf" where
  "build frac host sections file =
     andThen (build_sections frac file sections
       \<lparr>bs_conf = new_conf host, bs_peer = None, bs_consumed = Map.empty, bs_provided = Map.empty\<rparr>) (\<lambda>b.
     andThen (checkRole (bs_peer b) file (bs_conf b)) (\<lambda>_. Inr (bs_conf b)))"

subsection \<open>\<open>Parse\<close> and \<open>Load\<close>\<close>

datatype load_error = ReadFailed io_error | Refused conf_error

definition Parse :: "(nat \<Rightarrow> nat \<Rightarrow> nat \<Rightarrow> nat) \<Rightarrow> string option \<Rightarrow> io_error + string \<Rightarrow> string \<Rightarrow> load_error + Conf" where
  "Parse frac host data file =
     (case data of
        Inl e \<Rightarrow> Inl (ReadFailed e)
      | Inr text \<Rightarrow>
          (case andThen (conf_split text file) (\<lambda>sections. build frac host sections file) of
             Inl e \<Rightarrow> Inl (Refused e)
           | Inr c \<Rightarrow> Inr c))"

text \<open>\<open>Load\<close> parses what \<open>os.ReadFile\<close> gives.\<close>

definition Load :: "(nat \<Rightarrow> nat \<Rightarrow> nat \<Rightarrow> nat) \<Rightarrow> string option \<Rightarrow> (string \<Rightarrow> io_error + string) \<Rightarrow> string \<Rightarrow> load_error + Conf" where
  "Load frac host ReadFile path =
     (case ReadFile path of Inl e \<Rightarrow> Inl (ReadFailed e) | Inr text \<Rightarrow> Parse frac host (Inr text) path)"

end
