(* ===== verification/Conf_Laws.thy ===== *)
theory Conf_Laws
  imports Conf
begin

text \<open>
  What the steps of the conf reader keep. \<open>outcome E P r\<close> says of a fallible result that its error
  satisfies \<open>E\<close> and its value \<open>P\<close>; one rule per combinator carries it through the code.
\<close>

subsection \<open>Outcomes\<close>

definition outcome :: "('e \<Rightarrow> bool) \<Rightarrow> ('a \<Rightarrow> bool) \<Rightarrow> 'e + 'a \<Rightarrow> bool" where
  "outcome E P r \<longleftrightarrow> (case r of Inl e \<Rightarrow> E e | Inr a \<Rightarrow> P a)"

lemma outcome_simps [simp]: "outcome E P (Inl e) = E e" "outcome E P (Inr a) = P a"
  by (simp_all add: outcome_def)

lemma outcome_andThen:
  "outcome E Q r \<Longrightarrow> (\<And>a. r = Inr a \<Longrightarrow> Q a \<Longrightarrow> outcome E P (f a)) \<Longrightarrow> outcome E P (andThen r f)"
  by (cases r) simp_all

lemma outcome_mono: "outcome E P r \<Longrightarrow> (\<And>e. E e \<Longrightarrow> E' e) \<Longrightarrow> (\<And>a. r = Inr a \<Longrightarrow> P a \<Longrightarrow> P' a) \<Longrightarrow> outcome E' P' r"
  by (cases r) simp_all

lemma outcome_Inr: "outcome E P r \<Longrightarrow> r = Inr a \<Longrightarrow> P a"
  by simp

text \<open>A refusal names the file and one of its lines.\<close>

definition on_line :: "string \<Rightarrow> nat \<Rightarrow> conf_error \<Rightarrow> bool" where
  "on_line file n e \<longleftrightarrow> ce_File e = file \<and> 1 \<le> ce_Line e \<and> ce_Line e \<le> n"

lemma outcome_refuse [simp]: "outcome (on_line file n) P (refuse file line msg) \<longleftrightarrow> 1 \<le> line \<and> line \<le> n"
  by (simp add: refuse_def on_line_def)

subsection \<open>Well-formed configurations\<close>

definition valid_address :: "bool \<Rightarrow> string \<Rightarrow> bool" where
  "valid_address needHost s \<longleftrightarrow>
     (case SplitHostPort s of
        None \<Rightarrow> False
      | Some (host, port) \<Rightarrow>
          (case Atoi port of None \<Rightarrow> False | Some n \<Rightarrow> 1 \<le> n \<and> n \<le> 65535 \<and> (needHost \<longrightarrow> host \<noteq> [])))"

definition valid_name :: "string \<Rightarrow> bool" where
  "valid_name s \<longleftrightarrow> s \<noteq> [] \<and> length s \<le> 255 \<and> ValidString s"

definition consume_ok :: "Consume \<Rightarrow> bool" where
  "consume_ok c \<longleftrightarrow> valid_name (co_Service c) \<and> valid_address False (co_Listen c)"

definition provide_ok :: "Provide \<Rightarrow> bool" where
  "provide_ok p \<longleftrightarrow> valid_name (pv_Service p) \<and> valid_address True (pv_Upstream p) \<and> 1 \<le> unat (pv_MaxConcurrent p)"

text \<open>The values of a conf, and what its role asks of them.\<close>

definition values_ok :: "Conf \<Rightarrow> bool" where
  "values_ok c \<longleftrightarrow>
     valid_address False (cf_Listen c) \<and>
     (cf_Server c = [] \<or> valid_address True (cf_Server c)) \<and>
     (cf_Secret c = [] \<or> length (cf_Secret c) = SecretSize) \<and>
     valid_name (cf_Name c) \<and> 0 < cf_QueueTimeout c \<and> cf_QueueTimeout c < 2 ^ 63 \<and>
     list_all consume_ok (cf_Consume c) \<and> distinct (map co_Service (cf_Consume c)) \<and>
     list_all provide_ok (cf_Provide c) \<and> distinct (map pv_Service (cf_Provide c))"

definition role_ok :: "Conf \<Rightarrow> bool" where
  "role_ok c \<longleftrightarrow>
     (case cf_Role c of
        ConfNone \<Rightarrow> True
      | ConfServer \<Rightarrow> cf_Secret c \<noteq> [] \<and> cf_Server c = []
      | ConfClient \<Rightarrow> cf_Secret c \<noteq> [] \<and> cf_Server c \<noteq> [] \<and>
          cf_Listen c = DefaultListen \<and> cf_QueueTimeout c = DefaultQueueTimeout)"

definition conf_ok :: "Conf \<Rightarrow> bool" where
  "conf_ok c \<longleftrightarrow> values_ok c \<and> role_ok c"

subsection \<open>Values\<close>

text \<open>Sections as the grammar makes them: within the file, each written key with its value.\<close>

definition value_on :: "nat \<Rightarrow> conf_value \<Rightarrow> bool" where
  "value_on n v \<longleftrightarrow> 1 \<le> v_line v \<and> v_line v \<le> n"

definition section_on :: "nat \<Rightarrow> conf_section \<Rightarrow> bool" where
  "section_on n s \<longleftrightarrow> 1 \<le> sec_line s \<and> sec_line s \<le> n \<and> set (sec_order s) = dom (sec_keys s) \<and>
     (\<forall>v \<in> ran (sec_keys s). value_on n v)"

lemma section_on_key: "section_on n s \<Longrightarrow> sec_keys s k = Some v \<Longrightarrow> value_on n v"
  by (auto simp: section_on_def ran_def)

lemma section_on_order: "section_on n s \<Longrightarrow> k \<in> set (sec_order s) \<Longrightarrow> value_on n (key_of s k)"
  by (auto simp: section_on_def ran_def key_of_def split: option.split)

lemma conf_role_of_outcome: "value_on n v \<Longrightarrow> outcome (on_line file n) (\<lambda>_. True) (conf_role_of v file)"
  by (simp add: conf_role_of_def value_on_def)

lemma address_outcome: "value_on n v \<Longrightarrow> outcome (on_line file n) (valid_address needHost) (address v file what needHost)"
  by (auto simp: address_def value_on_def valid_address_def split: option.split)

lemma length_DecodeString: "DecodeString s = Some bs \<Longrightarrow> 2 * length bs = length s"
  by (induction s arbitrary: bs rule: DecodeString.induct) (auto split: option.splits)

lemma conf_secret_outcome:
  "value_on n v \<Longrightarrow> outcome (on_line file n) (\<lambda>k. length k = SecretSize) (conf_secret v file)"
  by (auto simp: conf_secret_def value_on_def dest: length_DecodeString split: option.split)

text \<open>
  The loop of \<open>ParseDuration\<close> takes at least the unit off in every turn, so that its fuel, one more than the length
  of the text, is never used up: any larger amount gives the same result.
\<close>

lemma leadingInt_rest: "leadingInt x s = Some (v, t) \<Longrightarrow> length t \<le> length s"
  by (induction x s rule: leadingInt.induct) (auto simp: Let_def split: if_splits)

lemma leadingFraction_rest: "leadingFraction ov x sc s = (f, scale, t) \<Longrightarrow> length t \<le> length s"
  by (induction ov x sc s rule: leadingFraction.induct) (auto simp: Let_def split: if_splits)

lemma duration_term_shorter:
  assumes "duration_term frac s = Some (v, t)"
  shows "length t < length s"
proof -
  from assms obtain v1 s1 where lead: "leadingInt 0 s = Some (v1, s1)"
    by (auto simp: duration_term.simps split: if_splits option.splits)
  define s2 where "s2 = (if HasPrefix s1 ''.'' then drop 1 s1 else s1)"
  obtain f scale s3 where frc: "(if HasPrefix s1 ''.'' then leadingFraction False 0 1 s2 else (0, 1, s1)) = (f, scale, s3)"
    by (metis prod.collapse)
  have "length s3 \<le> length s1"
    using frc leadingFraction_rest [of False 0 1 s2 f scale s3] by (auto simp: s2_def split: if_splits)
  moreover have "length t < length s3"
  proof -
    from assms lead frc have "t = dropWhile (\<lambda>c. \<not> in_number c) s3" "takeWhile (\<lambda>c. \<not> in_number c) s3 \<noteq> []"
      by (auto simp: duration_term.simps s2_def Let_def split: if_splits option.splits prod.splits)
    moreover have "length (takeWhile P s3) + length (dropWhile P s3) = length s3" for P
      by (metis length_append takeWhile_dropWhile_id)
    ultimately show ?thesis
      by (metis length_greater_0_conv less_add_same_cancel2)
  qed
  ultimately show ?thesis
    using leadingInt_rest [OF lead] by simp
qed

lemma duration_loop_fuel: "length s < fuel \<Longrightarrow> length s < fuel' \<Longrightarrow> duration_loop frac fuel d s = duration_loop frac fuel' d s"
proof (induction frac fuel d s arbitrary: fuel' rule: duration_loop.induct)
  case (2 frac fuel d s)
  then obtain k where k: "fuel' = Suc k"
    by (cases fuel') auto
  show ?case
  proof (cases "s = [] \<or> duration_term frac s = None")
    case True
    then show ?thesis
      by (auto simp: k)
  next
    case False
    then obtain v t where t: "duration_term frac s = Some (v, t)" "s \<noteq> []"
      by auto
    with duration_term_shorter [OF t(1)] "2.prems" k have "length t < fuel" "length t < k"
      by auto
    note ih = "2.IH" [OF t(2) t(1) refl refl _ this]
    show ?thesis
      unfolding k duration_loop.simps t(1) option.case prod.case Let_def by (auto simp only: ih split: if_split)
  qed
qed simp

lemma ParseDuration_range: "ParseDuration frac s = Some d \<Longrightarrow> d < 2 ^ 63"
  by (auto simp: ParseDuration_def Let_def split: if_splits option.splits)

lemma duration_outcome:
  "value_on n v \<Longrightarrow> outcome (on_line file n) (\<lambda>d. 0 < d \<and> d < 2 ^ 63) (duration frac v file)"
  by (auto simp: duration_def value_on_def dest: ParseDuration_range split: option.split)

lemma number_outcome:
  "value_on n v \<Longrightarrow> outcome (on_line file n) (\<lambda>k. low \<le> unat k) (number v file what low)"
  by (auto simp: number_def value_on_def ParseUint_def unat_of_nat split: option.split if_splits)

lemma conf_name_outcome:
  "1 \<le> line \<Longrightarrow> line \<le> n \<Longrightarrow> outcome (on_line file n) (\<lambda>_. valid_name s) (conf_name s line file what)"
  by (simp add: conf_name_def valid_name_def)

lemma conf_text_outcome: "value_on n v \<Longrightarrow> outcome (on_line file n) valid_name (conf_text v file what)"
  unfolding conf_text_def by (rule outcome_andThen [OF conf_name_outcome]) (auto simp: value_on_def)

lemma known_keys_outcome:
  "section_on n s \<Longrightarrow> set keys \<subseteq> set (sec_order s) \<Longrightarrow>
   outcome (on_line file n) (\<lambda>_. set keys \<subseteq> set allowed) (known_keys s file allowed keys)"
proof (induction keys)
  case (Cons key keys)
  then show ?case
    using section_on_order [of n s key] by (auto simp: value_on_def)
qed simp

lemma known_outcome:
  "section_on n s \<Longrightarrow> outcome (on_line file n) (\<lambda>_. set (sec_order s) \<subseteq> set allowed) (known s file allowed)"
  by (simp add: known_def known_keys_outcome)

lemma service_name_outcome:
  "section_on n s \<Longrightarrow> outcome (on_line file n)
     (\<lambda>seen'. valid_name (sec_name s) \<and> seen (sec_name s) = None \<and> dom seen' = insert (sec_name s) (dom seen))
     (service_name s file seen)"
  unfolding service_name_def
  by (rule outcome_andThen [OF conf_name_outcome]) (auto simp: section_on_def split: option.split)

lemma number_key_outcome:
  "section_on n s \<Longrightarrow> low \<le> unat dflt \<Longrightarrow>
   outcome (on_line file n) (\<lambda>k. low \<le> unat k) (number_key s file key low dflt)"
  by (auto simp: number_key_def intro: number_outcome section_on_key split: option.split)

subsection \<open>The \<open>[peer]\<close> section\<close>

text \<open>The fields of the conf that none of the keys \<open>ks\<close> sets are as they were.\<close>

definition sets_only :: "string list \<Rightarrow> Conf \<Rightarrow> Conf \<Rightarrow> bool" where
  "sets_only ks c c' \<longleftrightarrow>
     (''role'' \<notin> set ks \<longrightarrow> cf_Role c' = cf_Role c) \<and> (''listen'' \<notin> set ks \<longrightarrow> cf_Listen c' = cf_Listen c) \<and>
     (''server'' \<notin> set ks \<longrightarrow> cf_Server c' = cf_Server c) \<and>
     (''queue_timeout'' \<notin> set ks \<longrightarrow> cf_QueueTimeout c' = cf_QueueTimeout c) \<and>
     cf_Consume c' = cf_Consume c \<and> cf_Provide c' = cf_Provide c"

lemma sets_only_refl [simp]: "sets_only ks c c"
  by (simp add: sets_only_def)

lemma sets_only_trans: "sets_only [k] c c1 \<Longrightarrow> sets_only ks c1 c2 \<Longrightarrow> sets_only (k # ks) c c2"
  unfolding sets_only_def by (simp only: list.set insert_iff empty_iff de_Morgan_disj) metis

lemma sets_only_upd [simp]:
  "sets_only [''role''] c (c\<lparr>cf_Role := r\<rparr>)" "sets_only [''listen''] c (c\<lparr>cf_Listen := a\<rparr>)"
  "sets_only [''server''] c (c\<lparr>cf_Server := a\<rparr>)" "sets_only [''queue_timeout''] c (c\<lparr>cf_QueueTimeout := d\<rparr>)"
  "sets_only ks c (c\<lparr>cf_Secret := k\<rparr>)" "sets_only ks c (c\<lparr>cf_Name := n\<rparr>)"
  by (simp_all add: sets_only_def)

lemma values_ok_upd:
  assumes "values_ok c"
  shows "values_ok (c\<lparr>cf_Role := r\<rparr>)" "valid_address False a \<Longrightarrow> values_ok (c\<lparr>cf_Listen := a\<rparr>)"
    "valid_address True a \<Longrightarrow> values_ok (c\<lparr>cf_Server := a\<rparr>)" "length k = SecretSize \<Longrightarrow> values_ok (c\<lparr>cf_Secret := k\<rparr>)"
    "valid_name nm \<Longrightarrow> values_ok (c\<lparr>cf_Name := nm\<rparr>)" "0 < d \<and> d < 2 ^ 63 \<Longrightarrow> values_ok (c\<lparr>cf_QueueTimeout := d\<rparr>)"
  using assms by (simp_all add: values_ok_def)

lemma outcome_if:
  "(b \<Longrightarrow> outcome E P x) \<Longrightarrow> (\<not> b \<Longrightarrow> outcome E P y) \<Longrightarrow> outcome E P (if b then x else y)"
  by simp

lemma peer_key_outcome:
  assumes "value_on n v" "values_ok c"
  shows "outcome (on_line file n) (\<lambda>c'. values_ok c' \<and> sets_only [key] c c') (peer_key frac file key v c)"
  unfolding peer_key_def
  by (intro outcome_if outcome_andThen [OF conf_role_of_outcome [OF assms(1)]] outcome_andThen [OF address_outcome [OF assms(1)]]
      outcome_andThen [OF conf_secret_outcome [OF assms(1)]] outcome_andThen [OF conf_text_outcome [OF assms(1)]]
      outcome_andThen [OF duration_outcome [OF assms(1)]])
    (simp_all add: values_ok_upd [OF assms(2)] assms(2))

lemma peer_keys_outcome:
  assumes "section_on n s" "set keys \<subseteq> set (sec_order s)" "values_ok c"
  shows "outcome (on_line file n) (\<lambda>c'. values_ok c' \<and> sets_only keys c c') (peer_keys frac file s keys c)"
  using assms(2,3)
proof (induction keys arbitrary: c)
  case (Cons key keys)
  have v: "value_on n (key_of s key)"
    using section_on_order [OF assms(1)] Cons.prems by simp
  show ?case
    unfolding peer_keys.simps
  proof (rule outcome_andThen [OF peer_key_outcome [OF v Cons.prems(2)]])
    fix c'
    assume c': "values_ok c' \<and> sets_only [key] c c'"
    with Cons.prems have "set keys \<subseteq> set (sec_order s)" "values_ok c'" by simp_all
    from Cons.IH [OF this]
    show "outcome (on_line file n) (\<lambda>c'. values_ok c' \<and> sets_only (key # keys) c c') (peer_keys frac file s keys c')"
      by (rule outcome_mono) (use c' in \<open>blast intro: sets_only_trans\<close>)+
  qed
qed simp

subsection \<open>Every section\<close>

text \<open>What \<open>build\<close> knows between two sections.\<close>

definition untouched :: "conf_section option \<Rightarrow> Conf \<Rightarrow> bool" where
  "untouched peer c \<longleftrightarrow>
     (\<not> has_key peer ''role'' \<longrightarrow> cf_Role c = ConfNone) \<and> (\<not> has_key peer ''listen'' \<longrightarrow> cf_Listen c = DefaultListen) \<and>
     (\<not> has_key peer ''server'' \<longrightarrow> cf_Server c = []) \<and>
     (\<not> has_key peer ''queue_timeout'' \<longrightarrow> cf_QueueTimeout c = DefaultQueueTimeout)"

definition build_ok :: "nat \<Rightarrow> build_state \<Rightarrow> bool" where
  "build_ok n b \<longleftrightarrow> values_ok (bs_conf b) \<and> untouched (bs_peer b) (bs_conf b) \<and>
     (case bs_peer b of None \<Rightarrow> True | Some s \<Rightarrow> section_on n s) \<and>
     dom (bs_consumed b) = co_Service ` set (cf_Consume (bs_conf b)) \<and>
     dom (bs_provided b) = pv_Service ` set (cf_Provide (bs_conf b))"

lemma untouched_peer:
  assumes "section_on n s" "untouched None c" "sets_only (sec_order s) c c'"
  shows "untouched (Some s) c'"
proof -
  have "k \<notin> set (sec_order s) \<longleftrightarrow> \<not> has_key (Some s) k" for k
    using assms(1) by (auto simp: section_on_def has_key_def dom_def)
  with assms(2,3) show ?thesis
    unfolding untouched_def sets_only_def by (simp add: has_key_def)
qed

lemma conf_peer_outcome:
  assumes "section_on n s" "values_ok c" "untouched None c"
  shows "outcome (on_line file n) (\<lambda>c'. values_ok c' \<and> sets_only (sec_order s) c c') (conf_peer frac s file c)"
  unfolding conf_peer_def
  by (rule outcome_andThen [OF known_outcome [OF assms(1)]]) (rule peer_keys_outcome [OF assms(1) order_refl assms(2)])

lemma conf_consume_outcome:
  assumes "section_on n s" "values_ok c" "dom seen = co_Service ` set (cf_Consume c)"
  shows "outcome (on_line file n)
    (\<lambda>(seen', c'). values_ok c' \<and> dom seen' = co_Service ` set (cf_Consume c') \<and>
       (\<exists>x. c' = c\<lparr>cf_Consume := cf_Consume c @ [x]\<rparr>)) (conf_consume s file seen c)"
  unfolding conf_consume_def
proof (rule outcome_andThen [OF known_outcome [OF assms(1)]], rule outcome_andThen [OF service_name_outcome [OF assms(1)]])
  fix seen'
  assume seen': "valid_name (sec_name s) \<and> seen (sec_name s) = None \<and> dom seen' = insert (sec_name s) (dom seen)"
  then have "sec_name s \<notin> co_Service ` set (cf_Consume c)"
    unfolding assms(3) [symmetric] by (simp add: domIff)
  then have new: "values_ok (c\<lparr>cf_Consume := cf_Consume c @ [\<lparr>co_Service = sec_name s, co_Listen = a\<rparr>]\<rparr>)"
      if "valid_address False a" for a
    using assms(2) seen' that by (auto simp: values_ok_def consume_ok_def)
  show "outcome (on_line file n) (\<lambda>(seen', c'). values_ok c' \<and> dom seen' = co_Service ` set (cf_Consume c') \<and>
       (\<exists>x. c' = c\<lparr>cf_Consume := cf_Consume c @ [x]\<rparr>))
     (case sec_keys s ''listen'' of None \<Rightarrow> refuse file (sec_line s) NoListen
      | Some v \<Rightarrow> andThen (address v file ''listen'' False) (\<lambda>listen. Inr (seen',
          c\<lparr>cf_Consume := cf_Consume c @ [\<lparr>co_Service = sec_name s, co_Listen = listen\<rparr>]\<rparr>)))"
  proof (cases "sec_keys s ''listen''")
    case (Some v)
    show ?thesis
      unfolding Some option.case
      by (rule outcome_andThen [OF address_outcome [OF section_on_key [OF assms(1) Some]]])
        (use new seen' assms(3) in auto)
  qed (use assms(1) in \<open>simp add: section_on_def\<close>)
qed

lemma conf_provide_outcome:
  assumes "section_on n s" "values_ok c" "dom seen = pv_Service ` set (cf_Provide c)"
  shows "outcome (on_line file n)
    (\<lambda>(seen', c'). values_ok c' \<and> dom seen' = pv_Service ` set (cf_Provide c') \<and>
       (\<exists>x. c' = c\<lparr>cf_Provide := cf_Provide c @ [x]\<rparr>)) (conf_provide s file seen c)"
  unfolding conf_provide_def
proof (rule outcome_andThen [OF known_outcome [OF assms(1)]], rule outcome_andThen [OF service_name_outcome [OF assms(1)]])
  fix seen'
  assume seen': "valid_name (sec_name s) \<and> seen (sec_name s) = None \<and> dom seen' = insert (sec_name s) (dom seen)"
  then have "sec_name s \<notin> pv_Service ` set (cf_Provide c)"
    unfolding assms(3) [symmetric] by (simp add: domIff)
  then have new: "values_ok (c\<lparr>cf_Provide := cf_Provide c @
        [\<lparr>pv_Service = sec_name s, pv_Upstream = a, pv_MaxConcurrent = mc, pv_Priority = prio\<rparr>]\<rparr>)"
      if "valid_address True a" "1 \<le> unat mc" for a mc prio
    using assms(2) seen' that by (auto simp: values_ok_def provide_ok_def)
  have dflt: "1 \<le> unat DefaultConcurrent"
    by (simp add: DefaultConcurrent_def)
  show "outcome (on_line file n) (\<lambda>(seen', c'). values_ok c' \<and> dom seen' = pv_Service ` set (cf_Provide c') \<and>
       (\<exists>x. c' = c\<lparr>cf_Provide := cf_Provide c @ [x]\<rparr>))
     (case sec_keys s ''upstream'' of None \<Rightarrow> refuse file (sec_line s) NoUpstream
      | Some v \<Rightarrow> andThen (address v file ''upstream'' True) (\<lambda>upstream.
          andThen (number_key s file ''max_concurrent'' 1 DefaultConcurrent) (\<lambda>mc.
          andThen (number_key s file ''priority'' 0 DefaultPriority) (\<lambda>prio. Inr (seen',
            c\<lparr>cf_Provide := cf_Provide c @
              [\<lparr>pv_Service = sec_name s, pv_Upstream = upstream, pv_MaxConcurrent = mc, pv_Priority = prio\<rparr>]\<rparr>)))))"
  proof (cases "sec_keys s ''upstream''")
    case (Some v)
    show ?thesis
      unfolding Some option.case
      by (rule outcome_andThen [OF address_outcome [OF section_on_key [OF assms(1) Some]]],
          rule outcome_andThen [OF number_key_outcome [OF assms(1) dflt]],
          rule outcome_andThen [OF number_key_outcome [OF assms(1) le0]])
        (use new seen' assms(3) in auto)
  qed (use assms(1) in \<open>simp add: section_on_def\<close>)
qed

lemma untouched_frame [simp]:
  "untouched p (c\<lparr>cf_Consume := x\<rparr>) = untouched p c" "untouched p (c\<lparr>cf_Provide := y\<rparr>) = untouched p c"
  by (simp_all add: untouched_def)

lemma build_section_outcome:
  assumes "section_on n s" "build_ok n b"
  shows "outcome (on_line file n) (build_ok n) (build_section frac file s b)"
proof -
  have ok: "values_ok (bs_conf b)" "dom (bs_consumed b) = co_Service ` set (cf_Consume (bs_conf b))"
      "dom (bs_provided b) = pv_Service ` set (cf_Provide (bs_conf b))" "untouched (bs_peer b) (bs_conf b)"
    using assms(2) by (simp_all add: build_ok_def)
  have "outcome (on_line file n) (build_ok n)
      (case bs_peer b of Some p \<Rightarrow> refuse file (sec_line s) (PeerAgain (sec_line p))
       | None \<Rightarrow> andThen (conf_peer frac s file (bs_conf b)) (\<lambda>c. Inr (b\<lparr>bs_conf := c, bs_peer := Some s\<rparr>)))"
  proof (cases "bs_peer b")
    case None
    note u = ok(4) [unfolded None]
    show ?thesis
      unfolding None option.case
      by (rule outcome_andThen [OF conf_peer_outcome [OF assms(1) ok(1) u]])
        (use ok(2,3) untouched_peer [OF assms(1) u] assms(1) in \<open>auto simp: build_ok_def sets_only_def [of _ "bs_conf b"]\<close>)
  qed (use assms(1) in \<open>simp add: section_on_def\<close>)
  then show ?thesis
    unfolding build_section_def
    by (intro outcome_if outcome_andThen [OF conf_consume_outcome [OF assms(1) ok(1,2)]]
        outcome_andThen [OF conf_provide_outcome [OF assms(1) ok(1,3)]])
      (use assms(2) in \<open>auto simp: build_ok_def\<close>)
qed

lemma build_sections_outcome:
  "list_all (section_on n) ss \<Longrightarrow> build_ok n b \<Longrightarrow> outcome (on_line file n) (build_ok n) (build_sections frac file ss b)"
proof (induction ss arbitrary: b)
  case (Cons s ss)
  then show ?case
    by (simp add: outcome_andThen [OF build_section_outcome])
qed simp

lemma checkRole_outcome:
  assumes "build_ok n b"
  shows "outcome (on_line file n) (\<lambda>_. role_ok (bs_conf b)) (checkRole (bs_peer b) file (bs_conf b))"
proof (cases "cf_Role (bs_conf b) = ConfNone")
  case False
  with assms obtain s where s: "bs_peer b = Some s" "section_on n s"
    by (cases "bs_peer b") (auto simp: build_ok_def untouched_def has_key_def)
  have "1 \<le> role_line (bs_peer b) k \<and> role_line (bs_peer b) k \<le> n" for k
    using s(2) section_on_key [OF s(2), of k] by (auto simp: role_line_def s(1) section_on_def value_on_def split: option.split)
  then show ?thesis
    unfolding checkRole_def
    by (intro outcome_if) (use assms False in \<open>simp_all add: build_ok_def untouched_def role_ok_def split: conf_role.split\<close>)
qed (simp add: checkRole_def role_ok_def)

subsection \<open>The grammar\<close>

lemma conf_header_outcome:
  assumes "1 \<le> line" "line \<le> n"
  shows "outcome (on_line file n) (\<lambda>s. section_on n s) (conf_header text line file)"
  using assms by (auto simp: conf_header_def section_on_def split: sum.split option.split)

lemma setting_outcome:
  "1 \<le> line \<Longrightarrow> line \<le> n \<Longrightarrow> outcome (on_line file n) (\<lambda>_. True) (setting text line file)"
  by (simp add: setting_def Let_def split: prod.split)

lemma set_key_on: "section_on n s \<Longrightarrow> 1 \<le> line \<Longrightarrow> line \<le> n \<Longrightarrow> section_on n (set_key key val line s)"
  by (auto simp: section_on_def set_key_def value_on_def ran_def)

lemma split_line_outcome:
  assumes "list_all (section_on n) ss" "1 \<le> line" "line \<le> n"
  shows "outcome (on_line file n) (list_all (section_on n)) (split_line file line raw ss)"
proof -
  have set: "outcome (on_line file n) (list_all (section_on n))
      (if ss = [] then refuse file line (KeyBeforeSection key)
       else case sec_keys (last ss) key of Some old \<Rightarrow> refuse file line (AlreadySet key (v_line old))
         | None \<Rightarrow> Inr (butlast ss @ [set_key key val line (last ss)]))" for key val
  proof (cases "ss = []")
    case False
    then have "list_all (section_on n) (butlast ss)" "section_on n (last ss)"
      using assms(1) by (auto simp: list_all_iff dest: in_set_butlastD)
    then show ?thesis
      using assms(2,3) False by (auto simp: set_key_on split: option.split)
  qed (use assms in simp)
  show ?thesis
    unfolding split_line_def Let_def
    by (intro outcome_if outcome_andThen [OF conf_header_outcome] outcome_andThen [OF setting_outcome])
      (use assms set in auto)
qed

lemma split_lines_outcome:
  "list_all (section_on n) ss \<Longrightarrow> i + length raws \<le> n \<Longrightarrow>
   outcome (on_line file n) (list_all (section_on n)) (split_lines file i raws ss)"
proof (induction raws arbitrary: i ss)
  case (Cons raw raws)
  show ?case
    unfolding split_lines.simps
    by (rule outcome_andThen [OF split_line_outcome]) (use Cons in auto)
qed simp

lemma DefaultListen_valid: "valid_address False DefaultListen"
  by code_simp

lemma hostname_valid: "valid_name (hostname host)"
proof -
  have "valid_name ''httppooler''" by code_simp
  then show ?thesis
    by (simp add: hostname_def valid_name_def split: option.split)
qed

lemma new_conf_ok:
  "build_ok n \<lparr>bs_conf = new_conf host, bs_peer = None, bs_consumed = Map.empty, bs_provided = Map.empty\<rparr>"
  by (simp add: build_ok_def values_ok_def untouched_def new_conf_def DefaultListen_valid hostname_valid has_key_def
      DefaultQueueTimeout_def)

text \<open>The whole reader: a refusal on a line of the file, or a well-formed conf.\<close>

lemma conf_outcome:
  "outcome (on_line file (length (Split_at text (CHR 0x0A)))) conf_ok
     (andThen (conf_split text file) (\<lambda>sections. build frac host sections file))"
proof (rule outcome_andThen)
  let ?n = "length (Split_at text (CHR 0x0A))"
  show "outcome (on_line file ?n) (list_all (section_on ?n)) (conf_split text file)"
    by (simp add: conf_split_def split_lines_outcome)
  fix ss
  assume ss: "list_all (section_on ?n) ss"
  show "outcome (on_line file ?n) conf_ok (build frac host ss file)"
    unfolding build_def
  proof (rule outcome_andThen [OF build_sections_outcome [OF ss new_conf_ok]])
    fix b
    assume b: "build_ok ?n b"
    show "outcome (on_line file ?n) conf_ok (andThen (checkRole (bs_peer b) file (bs_conf b)) (\<lambda>_. Inr (bs_conf b)))"
      by (rule outcome_andThen [OF checkRole_outcome [OF b]]) (use b in \<open>simp add: conf_ok_def build_ok_def\<close>)
  qed
qed

end
