(* ===== verification/Headers.thy ===== *)
theory Headers
  imports Go_Strings Wire_Message
begin

text \<open>
  \<^verbatim>\<open>internal/peer/headers.go\<close>: headers on their way between HTTP and the wire. Go's \<open>http.Header\<close> is
  a map from names to lists of values; it is kept as an association list with one entry for a name.
\<close>

subsection \<open>\<open>textproto.CanonicalMIMEHeaderKey\<close>\<close>

definition validHeaderFieldByte :: "char \<Rightarrow> bool" where
  "validHeaderFieldByte c \<longleftrightarrow>
     (let n = of_char c :: nat
      in 48 \<le> n \<and> n \<le> 57 \<or> 65 \<le> n \<and> n \<le> 90 \<or> 97 \<le> n \<and> n \<le> 122 \<or>
         c \<in> set [CHR ''!'', CHR ''#'', CHR ''$'', CHR ''%'', CHR ''&'', CHR 0x27, CHR ''*'', CHR ''+'', CHR ''-'',
                  CHR ''.'', CHR ''^'', CHR ''_'', CHR 0x60, CHR ''|'', CHR ''~''])"

fun canon :: "bool \<Rightarrow> string \<Rightarrow> string" where
  "canon upper [] = []"
| "canon upper (c # s) = (let d = (if upper then to_upper c else to_lower c) in d # canon (d = CHR ''-'') s)"

definition CanonicalMIMEHeaderKey :: "string \<Rightarrow> string" where
  "CanonicalMIMEHeaderKey s = (if list_all validHeaderFieldByte s then canon True s else s)"

subsection \<open>The package\<close>

type_synonym http_header = "(string \<times> string list) list"

definition hopByHop :: "string list" where
  "hopByHop = [''Connection'', ''Keep-Alive'', ''Transfer-Encoding'', ''Te'', ''Trailer'', ''Upgrade'',
     ''Proxy-Connection'', ''Host'', ''Proxy-Authenticate'']"

text \<open>\<open>h[name]\<close>, and \<open>h.Get(name)\<close>, which asks for the canonical name.\<close>

definition hget :: "http_header \<Rightarrow> string \<Rightarrow> string list" where
  "hget h name = (case map_of h name of Some vs \<Rightarrow> vs | None \<Rightarrow> [])"

definition Get :: "http_header \<Rightarrow> string \<Rightarrow> string" where
  "Get h name = (case hget h (CanonicalMIMEHeaderKey name) of v # _ \<Rightarrow> v | [] \<Rightarrow> [])"

definition connectionHeaders :: "http_header \<Rightarrow> string list" where
  "connectionHeaders h =
     concat (map (\<lambda>value. concat (map (\<lambda>token. let token = TrimSpace token in
         if token \<noteq> [] then [CanonicalMIMEHeaderKey token] else []) (Split_at value (CHR '',''))))
       (hget h ''Connection''))"

definition fromHTTP :: "http_header \<Rightarrow> string list \<Rightarrow> header list" where
  "fromHTTP h drops =
     (let skip = connectionHeaders h @ map CanonicalMIMEHeaderKey drops;
          names = sort (filter (\<lambda>name. name \<notin> set hopByHop \<and> name \<notin> set skip) (map fst h))
      in concat (map (\<lambda>name. map (\<lambda>value. \<lparr>h_Name = name, h_Value = value\<rparr>) (hget h name)) names))"

definition to_step :: "string list \<Rightarrow> header \<Rightarrow> http_header \<Rightarrow> http_header" where
  "to_step skip hdr h =
     (let name = CanonicalMIMEHeaderKey (h_Name hdr)
      in if name \<in> set hopByHop \<or> name \<in> set skip then h
         else AList.update name (hget h name @ [h_Value hdr]) h)"

definition toHTTP :: "header list \<Rightarrow> string list \<Rightarrow> http_header" where
  "toHTTP hs drops = fold (to_step (map CanonicalMIMEHeaderKey drops)) hs []"

definition isUpgrade :: "http_header \<Rightarrow> bool" where
  "isUpgrade h \<longleftrightarrow> Get h ''Upgrade'' \<noteq> [] \<or>
     list_ex (\<lambda>value. list_ex (\<lambda>token. EqualFold (TrimSpace token) ''upgrade'') (Split_at value (CHR '','')))
       (hget h ''Connection'')"

subsection \<open>Canonical names\<close>

lemma of_char_to_upper: "of_char (to_upper c) = (let n = of_char c in if 97 \<le> n \<and> n \<le> 122 then n - 32 else n :: nat)"
proof -
  have "(of_char c :: nat) - 32 < 256" by (rule le_less_trans [OF diff_le_self]) simp
  then show ?thesis
    by (auto simp: to_upper_def Let_def)
qed

lemma of_char_to_lower: "of_char (to_lower c) = (let n = of_char c in if 65 \<le> n \<and> n \<le> 90 then n + 32 else n :: nat)"
  by (simp add: to_lower_def Let_def)

lemma case_idem [simp]: "to_upper (to_upper c) = to_upper c" "to_lower (to_lower c) = to_lower c"
proof -
  have inj: "c = d" if "(of_char c :: nat) = of_char d" for c d :: char
    using that by (metis char_of_char)
  show "to_upper (to_upper c) = to_upper c"
    by (rule inj) (auto simp: of_char_to_upper Let_def)
  show "to_lower (to_lower c) = to_lower c"
    by (rule inj) (auto simp: of_char_to_lower Let_def)
qed

lemma canon_idem: "canon upper (canon upper s) = canon upper s"
  by (induction upper s rule: canon.induct) (auto simp: Let_def split: if_splits)

lemma valid_to_case: "validHeaderFieldByte c \<Longrightarrow> validHeaderFieldByte (to_upper c) \<and> validHeaderFieldByte (to_lower c)"
proof -
  assume v: "validHeaderFieldByte c"
  have "to_upper c = c \<or> 65 \<le> (of_char (to_upper c) :: nat) \<and> (of_char (to_upper c) :: nat) \<le> 90"
    "to_lower c = c \<or> 97 \<le> (of_char (to_lower c) :: nat) \<and> (of_char (to_lower c) :: nat) \<le> 122"
    by (auto simp: of_char_to_upper of_char_to_lower Let_def) (auto simp: to_upper_def to_lower_def Let_def)
  with v show ?thesis
    unfolding validHeaderFieldByte_def Let_def by auto
qed

lemma canon_valid: "list_all validHeaderFieldByte s \<Longrightarrow> list_all validHeaderFieldByte (canon upper s)"
  by (induction upper s rule: canon.induct) (auto simp: Let_def valid_to_case)

lemma CanonicalMIMEHeaderKey_idem [simp]:
  "CanonicalMIMEHeaderKey (CanonicalMIMEHeaderKey s) = CanonicalMIMEHeaderKey s"
  by (simp add: CanonicalMIMEHeaderKey_def canon_idem canon_valid)

lemma hopByHop_canonical: "list_all (\<lambda>s. CanonicalMIMEHeaderKey s = s) hopByHop"
  by code_simp

subsection \<open>Headers as Go keeps them\<close>

text \<open>As \<^verbatim>\<open>net/http\<close> delivers them: one entry for a name, under its canonical form, never without a value.\<close>

definition header_map :: "http_header \<Rightarrow> bool" where
  "header_map h \<longleftrightarrow> distinct (map fst h) \<and> list_all (\<lambda>(n, vs). CanonicalMIMEHeaderKey n = n \<and> vs \<noteq> []) h"

text \<open>The names that belong to this connection only.\<close>

definition stays :: "http_header \<Rightarrow> string list \<Rightarrow> string \<Rightarrow> bool" where
  "stays h drops name \<longleftrightarrow> name \<in> set hopByHop \<or> name \<in> set (connectionHeaders h) \<or> name \<in> set (map CanonicalMIMEHeaderKey drops)"

lemma fromHTTP_names: "hdr \<in> set (fromHTTP h drops) \<Longrightarrow> \<not> stays h drops (h_Name hdr) \<and> h_Value hdr \<in> set (hget h (h_Name hdr))"
  by (auto simp: fromHTTP_def Let_def stays_def)

definition pairs :: "string \<Rightarrow> string list \<Rightarrow> header list" where
  "pairs name vs = map (\<lambda>v. \<lparr>h_Name = name, h_Value = v\<rparr>) vs"

lemma fromHTTP_alt:
  "fromHTTP h drops = concat (map (\<lambda>name. pairs name (hget h name)) (sort (filter (\<lambda>n. \<not> stays h drops n) (map fst h))))"
  by (simp add: fromHTTP_def pairs_def stays_def Let_def)

lemma hget_update [simp]: "hget (AList.update k v h) n = (if n = k then v else hget h n)"
  by (simp add: hget_def update_conv')

lemma map_of_hget: "map_of h n = (if n \<in> fst ` set h then Some (hget h n) else None)"
  by (auto simp: hget_def map_of_eq_None_iff split: option.split)

lemma to_step_hget:
  "hget (to_step skip hdr h) n = hget h n @
     (if CanonicalMIMEHeaderKey (h_Name hdr) = n \<and> n \<notin> set hopByHop \<and> n \<notin> set skip then [h_Value hdr] else [])"
  by (auto simp: to_step_def Let_def)

lemma fold_to_step_hget:
  "hget (fold (to_step skip) hs h) n = hget h n @
     (if n \<notin> set hopByHop \<and> n \<notin> set skip
      then map h_Value (filter (\<lambda>hdr. CanonicalMIMEHeaderKey (h_Name hdr) = n) hs) else [])"
  by (induction hs arbitrary: h) (simp_all add: to_step_hget)

lemma hget_toHTTP:
  "hget (toHTTP hs drops) n =
     (if n \<notin> set hopByHop \<and> n \<notin> set (map CanonicalMIMEHeaderKey drops)
      then map h_Value (filter (\<lambda>hdr. CanonicalMIMEHeaderKey (h_Name hdr) = n) hs) else [])"
  using fold_to_step_hget [of "map CanonicalMIMEHeaderKey drops" hs "[]" n] by (simp add: toHTTP_def hget_def [of "[]"])

lemma filter_pairs:
  assumes "\<forall>m \<in> set ns. CanonicalMIMEHeaderKey m = m" "distinct ns"
  shows "map h_Value (filter (\<lambda>hdr. CanonicalMIMEHeaderKey (h_Name hdr) = n) (concat (map (\<lambda>m. pairs m (f m)) ns))) =
    (if n \<in> set ns then f n else [])"
  using assms
proof (induction ns)
  case (Cons m ns)
  have "map h_Value (filter (\<lambda>hdr. CanonicalMIMEHeaderKey (h_Name hdr) = n) (pairs m vs)) = (if m = n then vs else [])" for vs
    using Cons.prems(1) by (induction vs) (auto simp: pairs_def)
  with Cons show ?case
    by (auto simp: pairs_def)
qed simp

lemma header_map_canonical: "header_map h \<Longrightarrow> n \<in> fst ` set h \<Longrightarrow> CanonicalMIMEHeaderKey n = n"
  by (auto simp: header_map_def list_all_iff)

lemma hget_to_from:
  assumes "header_map h"
  shows "hget (toHTTP (fromHTTP h drops) drops') n =
    (if stays h drops n \<or> n \<in> set (map CanonicalMIMEHeaderKey drops') then [] else hget h n)"
proof -
  let ?ns = "sort (filter (\<lambda>n. \<not> stays h drops n) (map fst h))"
  have "\<forall>m \<in> set ?ns. CanonicalMIMEHeaderKey m = m" "distinct ?ns"
    using assms header_map_canonical [OF assms] by (auto simp: header_map_def)
  then have "map h_Value (filter (\<lambda>hdr. CanonicalMIMEHeaderKey (h_Name hdr) = n) (fromHTTP h drops)) =
      (if n \<in> set ?ns then hget h n else [])"
    unfolding fromHTTP_alt by (rule filter_pairs)
  moreover have "hget h n = []" if "n \<notin> fst ` set h"
    using that by (simp add: hget_def map_of_eq_None_iff [THEN iffD2] split: option.split)
  ultimately show ?thesis
    by (auto simp: hget_toHTTP stays_def)
qed

subsection \<open>Properties\<close>

text \<open>
  What is hop-by-hop never travels: no header that leaves for the wire is one of the hop-by-hop
  headers, one that the message's own Connection header lists (in whatever case), or one the
  caller asked to leave out; everything that travels was a value of that header.
\<close>

theorem hop_by_hop_stays:
  assumes "header_map h" "hdr \<in> set (fromHTTP h drops)"
  shows "h_Name hdr \<notin> set hopByHop \<and> h_Name hdr \<notin> set (connectionHeaders h) \<and>
    h_Name hdr \<notin> set (map CanonicalMIMEHeaderKey drops) \<and> h_Value hdr \<in> set (hget h (h_Name hdr)) \<and>
    CanonicalMIMEHeaderKey (h_Name hdr) = h_Name hdr"
proof -
  from fromHTTP_names [OF assms(2)] have "h_Value hdr \<in> set (hget h (h_Name hdr))" "\<not> stays h drops (h_Name hdr)"
    by simp_all
  moreover from this(1) have "h_Name hdr \<in> fst ` set h"
    by (cases "h_Name hdr \<in> fst ` set h") (simp_all add: hget_def map_of_eq_None_iff [THEN iffD2])
  ultimately show ?thesis
    using header_map_canonical [OF assms(1)] by (auto simp: stays_def)
qed

definition close_headers :: http_header where
  "close_headers = [(''Connection'', [''close, x-trace'']), (''X-Trace'', [''7'']), (''Accept'', [''a'', ''b''])]"

lemma close_headers_map: "header_map close_headers" by code_simp

theorem hop_by_hop_stays_witness:
  "fromHTTP close_headers [] = [\<lparr>h_Name = ''Accept'', h_Value = ''a''\<rparr>, \<lparr>h_Name = ''Accept'', h_Value = ''b''\<rparr>] \<and>
   ''Accept'' \<notin> set (connectionHeaders close_headers)"
proof -
  have "fromHTTP close_headers [] = [\<lparr>h_Name = ''Accept'', h_Value = ''a''\<rparr>, \<lparr>h_Name = ''Accept'', h_Value = ''b''\<rparr>]"
    by code_simp
  with hop_by_hop_stays [OF close_headers_map, of "\<lparr>h_Name = ''Accept'', h_Value = ''a''\<rparr>" "[]"] show ?thesis
    by simp
qed

text \<open>
  Everything else travels unchanged: a header map taken to the wire and back has, for every name
  that is not left behind, the same values in the same order, and nothing else.
\<close>

theorem headers_roundtrip:
  assumes "header_map h"
  shows "hget (toHTTP (fromHTTP h drops) drops') n =
    (if n \<in> set hopByHop \<or> n \<in> set (connectionHeaders h) \<or> n \<in> set (map CanonicalMIMEHeaderKey (drops @ drops'))
     then [] else hget h n)"
  by (auto simp: hget_to_from [OF assms] stays_def)

theorem headers_roundtrip_witness:
  "hget (toHTTP (fromHTTP close_headers []) []) ''Accept'' = [''a'', ''b''] \<and>
   hget (toHTTP (fromHTTP close_headers []) []) ''X-Trace'' = []"
proof -
  have "connectionHeaders close_headers = [''Close'', ''X-Trace'']" by code_simp
  then show ?thesis
    by (simp add: headers_roundtrip [OF close_headers_map])
      (simp add: hopByHop_def close_headers_def hget_def)
qed

end
