(* ===== verification/Endpoint.thy ===== *)
theory Endpoint
  imports Server_Laws Conf_Laws Headers
begin

text \<open>
  \<^verbatim>\<open>internal/peer/endpoint.go\<close> and \<^verbatim>\<open>internal/peer/provide.go\<close>: a peer's own sections, the slots it
  keeps count of, and the provider side of a job. The upstream is outside: \<open>new_request\<close> is the
  error \<open>http.NewRequestWithContext\<close> gives for a method and a URL, \<open>Do\<close> what \<open>http.Client.Do\<close>
  answers to a request; the body of a response is the list of what its reads give.
\<close>

subsection \<open>Ports\<close>

text \<open>
  The ports this process has open, by number, with their addresses. \<open>os\<close> is what the operating
  system answers when a port is asked for while others are open: an error, or nothing.
\<close>

record net =
  nt_open :: "(nat \<times> string) list"
  nt_next :: nat

definition opt_listen :: "((nat \<times> string) list \<Rightarrow> string \<Rightarrow> io_error option) \<Rightarrow> string \<Rightarrow> (net, io_error, nat) op" where
  "opt_listen os addr n =
     (case os (nt_open n) addr of
        Some e \<Rightarrow> (Inl e, n)
      | None \<Rightarrow> (Inr (nt_next n), n\<lparr>nt_open := nt_open n @ [(nt_next n, addr)], nt_next := Suc (nt_next n)\<rparr>))"

definition close_port :: "nat \<Rightarrow> net \<Rightarrow> net" where
  "close_port l n = n\<lparr>nt_open := filter (\<lambda>p. fst p \<noteq> l) (nt_open n)\<rparr>"

subsection \<open>The endpoint\<close>

text \<open>
  A server of \<^verbatim>\<open>net/http\<close> is the port it serves and the service its handler consumes.
\<close>

record endpoint =
  ep_name :: string
  ep_provides :: "Provide list"
  ep_byName :: "string \<rightharpoonup> Provide"
  ep_consumes :: "Consume list"
  ep_listeners :: "nat list"
  ep_servers :: "(nat \<times> string) list"
  ep_conn :: "nat option"
  ep_running :: "string \<Rightarrow> int"

definition NewEndpoint :: "Conf \<Rightarrow> endpoint" where
  "NewEndpoint cfg = \<lparr>ep_name = cf_Name cfg, ep_provides = cf_Provide cfg,
     ep_byName = fold (\<lambda>p m. m(pv_Service p \<mapsto> p)) (cf_Provide cfg) Map.empty,
     ep_consumes = cf_Consume cfg, ep_listeners = [], ep_servers = [], ep_conn = None, ep_running = (\<lambda>_. 0)\<rparr>"

definition ep_hello :: "endpoint \<Rightarrow> message" where
  "ep_hello e = Hello (ep_name e)
     (map (\<lambda>p. \<lparr>pi_Service = pv_Service p, pi_MaxConcurrent = pv_MaxConcurrent p, pi_Priority = pv_Priority p\<rparr>) (ep_provides e))"

text \<open>A connection is known by its number; none is Go's nil.\<close>

definition attach :: "nat option \<Rightarrow> endpoint \<Rightarrow> endpoint" where
  "attach c e = e\<lparr>ep_conn := c\<rparr>"

definition connection :: "endpoint \<Rightarrow> nat option" where
  "connection e = ep_conn e"

definition ep_take :: "string \<Rightarrow> u16 \<Rightarrow> endpoint \<Rightarrow> bool \<times> endpoint" where
  "ep_take service slots e =
     (if ep_running e service \<ge> int (unat slots) then (False, e)
      else (True, e\<lparr>ep_running := (ep_running e)(service := ep_running e service + 1)\<rparr>))"

definition ep_give :: "string \<Rightarrow> endpoint \<Rightarrow> endpoint" where
  "ep_give service e = e\<lparr>ep_running := (ep_running e)(service := ep_running e service - 1)\<rparr>"

text \<open>\<open>Close\<close>: the servers close the ports they serve, then the ports are closed themselves.\<close>

definition ep_Close :: "endpoint \<Rightarrow> net \<Rightarrow> endpoint \<times> net" where
  "ep_Close e n =
     (e\<lparr>ep_servers := [], ep_listeners := []\<rparr>,
      fold close_port (ep_listeners e) (fold (\<lambda>(l, _). close_port l) (ep_servers e) n))"

datatype run_error = ErrConsume string io_error | ErrListen string io_error | ErrAccept io_error

text \<open>The loop of \<open>Start\<close>; a port that cannot be opened closes those that were.\<close>

fun start_loop :: "((nat \<times> string) list \<Rightarrow> string \<Rightarrow> io_error option) \<Rightarrow> Consume list \<Rightarrow> endpoint \<Rightarrow> net \<Rightarrow>
    run_error option \<times> endpoint \<times> net" where
  "start_loop os [] e n = (None, e, n)"
| "start_loop os (c # cs) e n =
     (case opt_listen os (co_Listen c) n of
        (Inl err, n) \<Rightarrow> (Some (ErrConsume (co_Service c) err), ep_Close e n)
      | (Inr l, n) \<Rightarrow>
          start_loop os cs (e\<lparr>ep_listeners := ep_listeners e @ [l], ep_servers := ep_servers e @ [(l, co_Service c)]\<rparr>) n)"

definition Start :: "((nat \<times> string) list \<Rightarrow> string \<Rightarrow> io_error option) \<Rightarrow> endpoint \<Rightarrow> net \<Rightarrow> run_error option \<times> endpoint \<times> net" where
  "Start os e n = start_loop os (ep_consumes e) e n"

text \<open>
  \<open>Serve\<close>: HELLO, the connection attached while it runs, closed and detached at the end. \<open>k\<close> is the
  connection's number; \<open>running\<close> are the counts the jobs that were provided meanwhile have left.
\<close>

definition Serve :: "nat \<Rightarrow> (string \<Rightarrow> int) \<Rightarrow> endpoint \<Rightarrow> conn \<Rightarrow> peer_error \<times> endpoint \<times> conn" where
  "Serve k running e c =
     (case send (ep_hello e) c of
        (Inl err, c') \<Rightarrow> (err, e, c')
      | (Inr _, c') \<Rightarrow>
          (let e = attach (Some k) e
           in case cn_run c' of
                (err, c'') \<Rightarrow> (err, attach None (e\<lparr>ep_running := running\<rparr>), cn_Close c'')))"

subsection \<open>The provider side of a job\<close>

record upstream_request =
  uq_Method :: string
  uq_URL :: string
  uq_Host :: string
  uq_Header :: http_header
  uq_ContentLength :: nat
  uq_Body :: bytes

record upstream_response =
  ur_StatusCode :: int
  ur_Header :: http_header
  ur_reads :: "(bytes \<times> io_error option) list"
  ur_Trailer :: http_header

definition upstream_request_of :: "message \<Rightarrow> Provide \<Rightarrow> bytes \<Rightarrow> upstream_request" where
  "upstream_request_of req p body =
     (let h = toHTTP (req_Headers req) [''Content-Length'']
      in \<lparr>uq_Method = req_Method req, uq_URL = ''http://'' @ pv_Upstream p @ req_Target req, uq_Host = pv_Upstream p,
          uq_Header = (if map_of h ''User-Agent'' = None then AList.update ''User-Agent'' [] h else h),
          uq_ContentLength = length body, uq_Body = body\<rparr>)"

text \<open>The loop over the response body; \<^const>\<open>None\<close> is a body that is still arriving.\<close>

fun copy_body :: "u64 \<Rightarrow> (bytes \<times> io_error option) list \<Rightarrow> conn \<Rightarrow> ((peer_error + unit) \<times> conn) option" where
  "copy_body job [] c = None"
| "copy_body job ((bs, err) # reads) c =
     (case (if bs \<noteq> [] then send (Body job bs) c else (Inr (), c)) of
        (Inl e, c') \<Rightarrow> Some (Inl e, c')
      | (Inr _, c') \<Rightarrow>
          (case err of
             Some EOF \<Rightarrow> Some (Inr (), c')
           | Some e \<Rightarrow> Some (Inl (ErrUpstreamRead e), c')
           | None \<Rightarrow> copy_body job reads c'))"

definition runUpstream :: "(string \<Rightarrow> string \<Rightarrow> string option) \<Rightarrow> (upstream_request \<Rightarrow> string + upstream_response) \<Rightarrow>
    message \<Rightarrow> Provide \<Rightarrow> bytes \<Rightarrow> conn \<Rightarrow> ((peer_error + unit) \<times> conn) option" where
  "runUpstream new_request Do req p body c =
     (if \<not> HasPrefix (req_Target req) ''/'' then Some (Inl (ErrNotAPath (req_Target req)), c)
      else case new_request (req_Method req) (''http://'' @ pv_Upstream p @ req_Target req) of
             Some err \<Rightarrow> Some (Inl (ErrUpstream err), c)
           | None \<Rightarrow>
               (case Do (upstream_request_of req p body) of
                  Inl err \<Rightarrow> Some (Inl (ErrUpstream err), c)
                | Inr response \<Rightarrow>
                    if ur_StatusCode response < 100 \<or> ur_StatusCode response > 599
                    then Some (Inl (ErrUpstreamStatus (ur_StatusCode response)), c)
                    else
                      (case send (Response (req_Job req) (of_int (ur_StatusCode response)) (fromHTTP (ur_Header response) [])) c of
                         (Inl e, c') \<Rightarrow> Some (Inl e, c')
                       | (Inr _, c') \<Rightarrow>
                           (case copy_body (req_Job req) (ur_reads response) c' of
                              None \<Rightarrow> None
                            | Some (Inl e, c'') \<Rightarrow> Some (Inl e, c'')
                            | Some (Inr _, c'') \<Rightarrow>
                                Some (send (End (req_Job req) (fromHTTP (ur_Trailer response) [])) c'')))))"

text \<open>How \<open>provide\<close> begins: it looks its service up and takes a slot, or finds that there is none.\<close>

datatype entry = Unknown | TurnedDown Provide endpoint | Entered Provide endpoint

definition provide_enter :: "string \<Rightarrow> endpoint \<Rightarrow> entry" where
  "provide_enter service e =
     (case ep_byName e service of
        None \<Rightarrow> Unknown
      | Some p \<Rightarrow>
          (case ep_take service (pv_MaxConcurrent p) e of
             (False, e') \<Rightarrow> TurnedDown p e'
           | (True, e') \<Rightarrow> Entered p e'))"

text \<open>
  \<open>provide\<close>. \<open>err_text\<close> is the text of an error, \<open>cause\<close> that of the job's context when it is asked for.
  The deferred \<open>give\<close> and \<open>endJob\<close> run on every way out that is past them.
\<close>

definition provide :: "(peer_error \<Rightarrow> string) \<Rightarrow> (string \<Rightarrow> string \<Rightarrow> string option) \<Rightarrow>
    (upstream_request \<Rightarrow> string + upstream_response) \<Rightarrow> peer_error option \<Rightarrow> message \<Rightarrow> qevent list \<Rightarrow> jobQueue \<Rightarrow>
    endpoint \<Rightarrow> conn \<Rightarrow> (endpoint \<times> conn) option" where
  "provide err_text new_request Do cause req evs q e c =
     (let job = req_Job req; service = req_Service req
      in case provide_enter service e of
           Unknown \<Rightarrow> Some (e, endJob job (snd (send (Fail job (err_text (ErrNoService service))) c)))
         | TurnedDown p e' \<Rightarrow> Some (e', endJob job (cn_fail (ErrTooManyJobs (pv_MaxConcurrent p) service) c))
         | Entered p e' \<Rightarrow>
                  (case collect [] evs q of
                     None \<Rightarrow> None
                   | Some (Inl err, _, _) \<Rightarrow>
                       Some (ep_give service e', endJob job (snd (send (Fail job (reason err_text cause err)) c)))
                   | Some (Inr (body, _), _, _) \<Rightarrow>
                       (case runUpstream new_request Do req p body c of
                          None \<Rightarrow> None
                        | Some (Inr _, c') \<Rightarrow> Some (ep_give service e', endJob job c')
                        | Some (Inl err, c') \<Rightarrow>
                            Some (ep_give service e', endJob job (snd (send (Fail job (reason err_text cause err)) c'))))))"

lemma provide_enter_iff [simp]:
  "provide_enter s e = Unknown \<longleftrightarrow> ep_byName e s = None"
  "provide_enter s e = TurnedDown p e' \<longleftrightarrow> ep_byName e s = Some p \<and> ep_take s (pv_MaxConcurrent p) e = (False, e')"
  "provide_enter s e = Entered p e' \<longleftrightarrow> ep_byName e s = Some p \<and> ep_take s (pv_MaxConcurrent p) e = (True, e')"
  by (auto simp: provide_enter_def split: option.split prod.split bool.split)

lemma provide_eq:
  "provide err_text new_request Do cause req evs q e c =
     (let job = req_Job req; service = req_Service req
      in case ep_byName e service of
           None \<Rightarrow> Some (e, endJob job (snd (send (Fail job (err_text (ErrNoService service))) c)))
         | Some p \<Rightarrow>
             (case ep_take service (pv_MaxConcurrent p) e of
                (False, e') \<Rightarrow> Some (e', endJob job (cn_fail (ErrTooManyJobs (pv_MaxConcurrent p) service) c))
              | (True, e') \<Rightarrow>
                  (case collect [] evs q of
                     None \<Rightarrow> None
                   | Some (Inl err, _, _) \<Rightarrow>
                       Some (ep_give service e', endJob job (snd (send (Fail job (reason err_text cause err)) c)))
                   | Some (Inr (body, _), _, _) \<Rightarrow>
                       (case runUpstream new_request Do req p body c of
                          None \<Rightarrow> None
                        | Some (Inr _, c') \<Rightarrow> Some (ep_give service e', endJob job c')
                        | Some (Inl err, c') \<Rightarrow>
                            Some (ep_give service e', endJob job (snd (send (Fail job (reason err_text cause err)) c')))))))"
  by (auto simp: provide_def provide_enter_def Let_def split: option.split prod.split bool.split)

end
