(* ===== verification/Conn_System.thy ===== *)
theory Conn_System
  imports Conn
begin

text \<open>
  A connection as its goroutines use it. A step is one critical section of \<^verbatim>\<open>conn.go\<close> or
  \<^verbatim>\<open>queue.go\<close>: between taking a job out of the map and closing its queue, and between looking a
  queue up and pushing to it, anything else may happen. What \<open>endJob\<close>, \<open>fail\<close> and \<open>dispatch\<close> do under the
  lock, and what they then still owe, is what \<^const>\<open>endJob_lock\<close>, \<^const>\<open>fail_lock\<close> and \<^const>\<open>dispatch_lock\<close> say;
  \<open>z_closing\<close> are the closes still to be done, \<open>z_looked\<close> the pushes still to be done; \<open>z_owner\<close> and \<open>z_ids\<close> are history: the job a queue was
  opened for, and the ids \<open>newJob\<close> gave out.
\<close>

record csys =
  z_conn :: conn
  z_closing :: "(nat \<times> peer_error) set"
  z_looked :: "(message \<times> nat) set"
  z_owner :: "nat \<Rightarrow> u64"
  z_ids :: "u64 list"

definition init_csys :: "reader \<Rightarrow> writer \<Rightarrow> role \<Rightarrow> string \<Rightarrow> csys" where
  "init_csys r w role peer = \<lparr>z_conn = newConn r w role peer, z_closing = {}, z_looked = {},
     z_owner = (\<lambda>_. 0), z_ids = []\<rparr>"

text \<open>A queue that \<open>dispatch\<close> opened belongs to the job its message names.\<close>

definition started_by :: "message \<Rightarrow> conn \<Rightarrow> conn \<Rightarrow> (nat \<Rightarrow> u64) \<Rightarrow> nat \<Rightarrow> u64" where
  "started_by m c c' own = (if cn_nq c' = cn_nq c then own else own(cn_nq c := the (JobID m)))"

inductive conn_step :: "csys \<Rightarrow> csys \<Rightarrow> bool" where
  new_job: "newJob (z_conn z) = (Inr (job, q), c) \<Longrightarrow>
    conn_step z (z\<lparr>z_conn := c, z_owner := (z_owner z)(q := job), z_ids := z_ids z @ [job]\<rparr>)"
| forgets: "endJob_lock job (z_conn z) = (qs, c) \<Longrightarrow>
    conn_step z (z\<lparr>z_conn := c, z_closing := z_closing z \<union> (\<lambda>q. (q, ErrJobEnded)) ` qs\<rparr>)"
| fails: "fail_lock e (z_conn z) = Some (qs, c) \<Longrightarrow>
    conn_step z (z\<lparr>z_conn := c, z_closing := z_closing z \<union> (\<lambda>q. (q, e)) ` qs\<rparr>)"
| closes: "(q, e) \<in> z_closing z \<Longrightarrow>
    conn_step z (z\<lparr>z_conn := on_queue q (jq_close e) (z_conn z), z_closing := z_closing z - {(q, e)}\<rparr>)"
| hangs_up: "conn_step z (z\<lparr>z_conn := (z_conn z)\<lparr>cn_closed := True\<rparr>\<rparr>)"
| dispatches: "dispatch_lock m (z_conn z) = (r, c) \<Longrightarrow>
    conn_step z (z\<lparr>z_conn := c, z_owner := started_by m (z_conn z) c (z_owner z),
      z_looked := z_looked z \<union> {(m, q) |q. r = Inr (Some q)}\<rparr>)"
| pushes: "(m, q) \<in> z_looked z \<Longrightarrow>
    conn_step z (z\<lparr>z_conn := on_queue q (jq_push m) (z_conn z), z_looked := z_looked z - {(m, q)}\<rparr>)"
| reads: "q < cn_nq (z_conn z) \<Longrightarrow>
    conn_step z (z\<lparr>z_conn := on_queue q (\<lambda>jq. snd (jq_look jq)) (z_conn z)\<rparr>)"
| sends: "send m (z_conn z) = (r, c) \<Longrightarrow> conn_step z (z\<lparr>z_conn := c\<rparr>)"
| receives: "cn_receive (z_conn z) = (r, c) \<Longrightarrow> conn_step z (z\<lparr>z_conn := c\<rparr>)"
| pongs: "cn_pong (z_conn z) = Some (r, c) \<Longrightarrow> conn_step z (z\<lparr>z_conn := c\<rparr>)"

fun is_request :: "message \<Rightarrow> bool" where
  "is_request (Request _ _ _ _ _) = True"
| "is_request _ = False"

subsection \<open>The invariant\<close>

definition first_id :: "role \<Rightarrow> u64" where
  "first_id r = (if r = RoleServer then 2 else 1)"

definition jobs_ok :: "csys \<Rightarrow> bool" where
  "jobs_ok z \<longleftrightarrow> (\<forall>job q. cn_jobs (z_conn z) job = Some q \<longrightarrow>
     q < cn_nq (z_conn z) \<and> z_owner z q = job \<and> jq_err (cn_queues (z_conn z) q) = None \<and>
     (mine (z_conn z) job \<longrightarrow> job \<in> set (z_ids z)))"

definition closing_ok :: "csys \<Rightarrow> bool" where
  "closing_ok z \<longleftrightarrow> (\<forall>q e. (q, e) \<in> z_closing z \<longrightarrow> q < cn_nq (z_conn z) \<and> q \<notin> ran (cn_jobs (z_conn z)))"

definition covered :: "csys \<Rightarrow> bool" where
  "covered z \<longleftrightarrow> (\<forall>q < cn_nq (z_conn z). q \<in> ran (cn_jobs (z_conn z)) \<or> (\<exists>e. (q, e) \<in> z_closing z) \<or>
     jq_err (cn_queues (z_conn z) q) \<noteq> None) \<and>
   (cn_err (z_conn z) \<noteq> None \<longrightarrow> cn_jobs (z_conn z) = Map.empty)"

definition own_messages :: "csys \<Rightarrow> bool" where
  "own_messages z \<longleftrightarrow>
     (\<forall>q < cn_nq (z_conn z). \<forall>m \<in> set (jq_items (cn_queues (z_conn z) q)). JobID m = Some (z_owner z q)) \<and>
     (\<forall>m q. (m, q) \<in> z_looked z \<longrightarrow> q < cn_nq (z_conn z) \<and> JobID m = Some (z_owner z q))"

definition ids_ok :: "csys \<Rightarrow> bool" where
  "ids_ok z \<longleftrightarrow> z_ids z = map (\<lambda>i. first_id (cn_role (z_conn z)) + 2 * of_nat i) [0..<length (z_ids z)] \<and>
     cn_nextJob (z_conn z) = first_id (cn_role (z_conn z)) + 2 * of_nat (length (z_ids z))"

definition conn_inv :: "csys \<Rightarrow> bool" where
  "conn_inv z \<longleftrightarrow> jobs_ok z \<and> closing_ok z \<and> covered z \<and> own_messages z \<and> ids_ok z"

lemma init_csys_inv: "conn_inv (init_csys r w role peer)"
  by (simp add: conn_inv_def jobs_ok_def closing_ok_def covered_def own_messages_def ids_ok_def
      init_csys_def newConn_def first_id_def)

text \<open>What a step that leaves the jobs alone may do.\<close>

lemma conn_inv_frame:
  assumes "conn_inv z" "cn_jobs c = cn_jobs (z_conn z)" "cn_nq c = cn_nq (z_conn z)"
    "cn_queues c = cn_queues (z_conn z)" "cn_err c = cn_err (z_conn z)" "cn_role c = cn_role (z_conn z)"
    "cn_nextJob c = cn_nextJob (z_conn z)"
  shows "conn_inv (z\<lparr>z_conn := c\<rparr>)"
  using assms by (simp add: conn_inv_def jobs_ok_def closing_ok_def covered_def own_messages_def ids_ok_def mine_def)

lemma send_frame:
  "send m c = (r, c') \<Longrightarrow> cn_jobs c' = cn_jobs c \<and> cn_nq c' = cn_nq c \<and> cn_queues c' = cn_queues c \<and>
     cn_err c' = cn_err c \<and> cn_role c' = cn_role c \<and> cn_nextJob c' = cn_nextJob c"
  by (auto simp: send_def split: option.splits prod.splits)

lemma receive_frame:
  "cn_receive c = (r, c') \<Longrightarrow> cn_jobs c' = cn_jobs c \<and> cn_nq c' = cn_nq c \<and> cn_queues c' = cn_queues c \<and>
     cn_err c' = cn_err c \<and> cn_role c' = cn_role c \<and> cn_nextJob c' = cn_nextJob c"
  by (auto simp: cn_receive_def split: option.splits prod.splits sum.splits)

lemma pong_frame:
  "cn_pong c = Some (r, c') \<Longrightarrow> cn_jobs c' = cn_jobs c \<and> cn_nq c' = cn_nq c \<and> cn_queues c' = cn_queues c \<and>
     cn_err c' = cn_err c \<and> cn_role c' = cn_role c \<and> cn_nextJob c' = cn_nextJob c"
  using send_frame [of Pong "c\<lparr>cn_pongs := False\<rparr>" r c'] by (simp add: cn_pong_def split: if_splits)

lemma queue_sel [simp]:
  "jq_items (jq_push m q) = (if jq_err q = None then jq_items q @ [m] else jq_items q)"
  "jq_err (jq_push m q) = jq_err q"
  "jq_items (jq_close e q) = jq_items q"
  "jq_err (jq_close e q) = (case jq_err q of None \<Rightarrow> Some e | Some e' \<Rightarrow> Some e')"
  "jq_err (snd (jq_look q)) = jq_err q"
  by (auto simp: jq_push_def jq_close_def jq_wake_def jq_look_def split: list.splits option.splits)

lemma look_items: "set (jq_items (snd (jq_look q))) \<subseteq> set (jq_items q)"
  by (auto simp: jq_look_def split: list.splits option.splits)

lemma on_queue_sel [simp]:
  "cn_jobs (on_queue q f c) = cn_jobs c" "cn_nq (on_queue q f c) = cn_nq c" "cn_err (on_queue q f c) = cn_err c"
  "cn_role (on_queue q f c) = cn_role c" "cn_nextJob (on_queue q f c) = cn_nextJob c"
  "cn_queues (on_queue q f c) = (cn_queues c)(q := f (cn_queues c q))"
  by (simp_all add: on_queue_def)

lemma forget_sel [simp]:
  "cn_jobs (forget job c) = (cn_jobs c)(job := None)" "cn_nq (forget job c) = cn_nq c" "cn_err (forget job c) = cn_err c"
  "cn_role (forget job c) = cn_role c" "cn_nextJob (forget job c) = cn_nextJob c" "cn_queues (forget job c) = cn_queues c"
  by (simp_all add: forget_def)

lemma fail_mark_sel [simp]:
  "cn_jobs (fail_mark e c) = Map.empty" "cn_nq (fail_mark e c) = cn_nq c" "cn_err (fail_mark e c) = Some e"
  "cn_role (fail_mark e c) = cn_role c" "cn_nextJob (fail_mark e c) = cn_nextJob c" "cn_queues (fail_mark e c) = cn_queues c"
  by (simp_all add: fail_mark_def)

lemma conn_invD:
  assumes "conn_inv z"
  shows inv_job: "cn_jobs (z_conn z) job = Some q \<Longrightarrow>
      q < cn_nq (z_conn z) \<and> z_owner z q = job \<and> jq_err (cn_queues (z_conn z) q) = None \<and>
      (mine (z_conn z) job \<longrightarrow> job \<in> set (z_ids z))"
    and inv_closing: "(q, e) \<in> z_closing z \<Longrightarrow> q < cn_nq (z_conn z) \<and> q \<notin> ran (cn_jobs (z_conn z))"
    and inv_covered: "q < cn_nq (z_conn z) \<Longrightarrow> q \<in> ran (cn_jobs (z_conn z)) \<or> (\<exists>e. (q, e) \<in> z_closing z) \<or>
      jq_err (cn_queues (z_conn z) q) \<noteq> None"
    and inv_failed: "cn_err (z_conn z) \<noteq> None \<Longrightarrow> cn_jobs (z_conn z) = Map.empty"
    and inv_items: "q < cn_nq (z_conn z) \<Longrightarrow> m \<in> set (jq_items (cn_queues (z_conn z) q)) \<Longrightarrow> JobID m = Some (z_owner z q)"
    and inv_looked: "(m, q) \<in> z_looked z \<Longrightarrow> q < cn_nq (z_conn z) \<and> JobID m = Some (z_owner z q)"
    and inv_ids: "ids_ok z"
  using assms
  unfolding conn_inv_def jobs_ok_def closing_ok_def covered_def own_messages_def by blast+

lemma conn_invI:
  assumes "\<And>job q. cn_jobs (z_conn z) job = Some q \<Longrightarrow>
      q < cn_nq (z_conn z) \<and> z_owner z q = job \<and> jq_err (cn_queues (z_conn z) q) = None \<and>
      (mine (z_conn z) job \<longrightarrow> job \<in> set (z_ids z))"
    and "\<And>q e. (q, e) \<in> z_closing z \<Longrightarrow> q < cn_nq (z_conn z) \<and> q \<notin> ran (cn_jobs (z_conn z))"
    and "\<And>q. q < cn_nq (z_conn z) \<Longrightarrow> q \<in> ran (cn_jobs (z_conn z)) \<or> (\<exists>e. (q, e) \<in> z_closing z) \<or>
      jq_err (cn_queues (z_conn z) q) \<noteq> None"
    and "cn_err (z_conn z) \<noteq> None \<Longrightarrow> cn_jobs (z_conn z) = Map.empty"
    and "\<And>q m. q < cn_nq (z_conn z) \<Longrightarrow> m \<in> set (jq_items (cn_queues (z_conn z) q)) \<Longrightarrow> JobID m = Some (z_owner z q)"
    and "\<And>m q. (m, q) \<in> z_looked z \<Longrightarrow> q < cn_nq (z_conn z) \<and> JobID m = Some (z_owner z q)"
    and "ids_ok z"
  shows "conn_inv z"
  using assms unfolding conn_inv_def jobs_ok_def closing_ok_def covered_def own_messages_def by blast

subsection \<open>Job ids\<close>

lemma ids_even: "even (first_id r) \<longleftrightarrow> r = RoleServer"
  by (simp add: first_id_def)

lemma mine_even: "mine c job \<longleftrightarrow> even job = (cn_role c = RoleServer)"
  by (simp add: mine_def even_iff_mod_2_eq_zero)

lemma id_value:
  assumes "i < 2 ^ 63 - 1"
  shows "unat (first_id r + 2 * of_nat i) = unat (first_id r) + 2 * i"
proof -
  have "first_id r + 2 * of_nat i = of_nat (unat (first_id r) + 2 * i)"
    by (simp add: first_id_def)
  moreover have "unat (first_id r) \<le> 2"
    by (simp add: first_id_def)
  ultimately show ?thesis
    using assms by (simp only:) (rule unat_of_nat_small, simp)
qed

lemma ids_distinct:
  assumes "ids_ok z" "length (z_ids z) < 2 ^ 63"
  shows "distinct (z_ids z)" "job \<in> set (z_ids z) \<Longrightarrow> mine (z_conn z) job \<and> job \<noteq> 0"
    "length (z_ids z) < 2 ^ 63 - 1 \<Longrightarrow> cn_nextJob (z_conn z) \<notin> set (z_ids z)"
proof -
  let ?f = "\<lambda>i. first_id (cn_role (z_conn z)) + 2 * of_nat i :: u64"
  have ids: "z_ids z = map ?f [0..<length (z_ids z)]" and nxt: "cn_nextJob (z_conn z) = ?f (length (z_ids z))"
    using assms(1) unfolding ids_ok_def by blast+
  have inj: "i = j" if "i < 2 ^ 63 - 1" "j < 2 ^ 63 - 1" "?f i = ?f j" for i j
    using id_value [OF that(1), of "cn_role (z_conn z)"] id_value [OF that(2), of "cn_role (z_conn z)"]
      arg_cong [OF that(3), of unat] by linarith
  show "distinct (z_ids z)"
  proof (subst ids, unfold distinct_map, intro conjI inj_onI)
    fix i j
    assume "i \<in> set [0..<length (z_ids z)]" "j \<in> set [0..<length (z_ids z)]" "?f i = ?f j"
    then show "i = j"
      using assms(2) by (intro inj) simp_all
  qed simp
  show "cn_nextJob (z_conn z) \<notin> set (z_ids z)" if small: "length (z_ids z) < 2 ^ 63 - 1"
  proof
    assume "cn_nextJob (z_conn z) \<in> set (z_ids z)"
    then obtain i where "cn_nextJob (z_conn z) = ?f i" "i < length (z_ids z)"
      by (subst (asm) ids) auto
    then show False
      using inj [of i "length (z_ids z)"] small nxt by simp
  qed
  assume "job \<in> set (z_ids z)"
  then obtain i where i: "job = ?f i" "i < length (z_ids z)"
    by (subst (asm) ids) auto
  have "unat (first_id (cn_role (z_conn z))) > 0" and "i < 2 ^ 63 - 1"
    using i(2) assms(2) by (simp_all add: first_id_def)
  then have "unat job \<noteq> 0"
    using id_value [of i "cn_role (z_conn z)"] i(1) by simp
  then show "mine (z_conn z) job \<and> job \<noteq> 0"
    using i by (auto simp: mine_even ids_even)
qed

subsection \<open>Every step keeps the invariant\<close>

lemma opened_inv:
  assumes inv: "conn_inv z" and err: "cn_err (z_conn z) = None" and new: "cn_jobs (z_conn z) job = None"
    and o: "open_queue job ((z_conn z)\<lparr>cn_nextJob := nxt\<rparr>) = (q, c)"
    and ids: "ids_ok (z\<lparr>z_conn := c, z_owner := (z_owner z)(q := job), z_ids := ids\<rparr>)"
    and own: "mine (z_conn z) job \<Longrightarrow> job \<in> set ids" "set (z_ids z) \<subseteq> set ids"
  shows "conn_inv (z\<lparr>z_conn := c, z_owner := (z_owner z)(q := job), z_ids := ids\<rparr>)" (is "conn_inv ?z")
proof -
  have q: "q = cn_nq (z_conn z)" and c: "cn_jobs c = (cn_jobs (z_conn z))(job \<mapsto> q)" "cn_nq c = Suc q"
    "cn_queues c = (cn_queues (z_conn z))(q := newJobQueue)" "cn_err c = None" "cn_role c = cn_role (z_conn z)"
    using o err by (auto simp: open_queue_def)
  have mn: "mine c j = mine (z_conn z) j" for j
    by (simp add: mine_def c)
  have old: "q' \<noteq> q" if "cn_jobs (z_conn z) j = Some q'" for j q'
    using inv_job [OF inv that] q by simp
  show ?thesis
  proof (rule conn_invI)
    fix j q'
    assume "cn_jobs (z_conn ?z) j = Some q'"
    then show "q' < cn_nq (z_conn ?z) \<and> z_owner ?z q' = j \<and> jq_err (cn_queues (z_conn ?z) q') = None \<and>
        (mine (z_conn ?z) j \<longrightarrow> j \<in> set (z_ids ?z))"
      using inv_job [OF inv, of j q'] old [of j q'] own
      by (cases "j = job") (auto simp: c q mn newJobQueue_def)
  next
    fix q' e
    assume "(q', e) \<in> z_closing ?z"
    then show "q' < cn_nq (z_conn ?z) \<and> q' \<notin> ran (cn_jobs (z_conn ?z))"
      using inv_closing [OF inv, of q' e] new by (simp add: c q ran_map_upd)
  next
    fix q'
    assume "q' < cn_nq (z_conn ?z)"
    then show "q' \<in> ran (cn_jobs (z_conn ?z)) \<or> (\<exists>e. (q', e) \<in> z_closing ?z) \<or>
        jq_err (cn_queues (z_conn ?z) q') \<noteq> None"
      using inv_covered [OF inv, of q'] new by (cases "q' = q") (auto simp: c q ran_map_upd)
  next
    fix q' m
    assume "q' < cn_nq (z_conn ?z)" "m \<in> set (jq_items (cn_queues (z_conn ?z) q'))"
    then show "JobID m = Some (z_owner ?z q')"
      using inv_items [OF inv, of q' m] by (cases "q' = q") (auto simp: c q newJobQueue_def)
  next
    fix m q'
    assume "(m, q') \<in> z_looked ?z"
    then show "q' < cn_nq (z_conn ?z) \<and> JobID m = Some (z_owner ?z q')"
      using inv_looked [OF inv, of m q'] by (auto simp: c q)
  qed (use ids in \<open>simp_all add: c\<close>)
qed

lemma on_queue_inv:
  assumes inv: "conn_inv z" and q: "q < cn_nq (z_conn z)"
    and items: "\<And>m. m \<in> set (jq_items (f (cn_queues (z_conn z) q))) \<Longrightarrow> JobID m = Some (z_owner z q)"
    and err: "q \<in> ran (cn_jobs (z_conn z)) \<Longrightarrow> jq_err (f (cn_queues (z_conn z) q)) = None"
    and keep: "jq_err (cn_queues (z_conn z) q) \<noteq> None \<Longrightarrow> jq_err (f (cn_queues (z_conn z) q)) \<noteq> None"
    and cl: "C \<subseteq> z_closing z" "L \<subseteq> z_looked z"
    and gone: "\<And>p e. (p, e) \<in> z_closing z - C \<Longrightarrow> p = q \<and> jq_err (f (cn_queues (z_conn z) q)) \<noteq> None"
  shows "conn_inv (z\<lparr>z_conn := on_queue q f (z_conn z), z_closing := C, z_looked := L\<rparr>)" (is "conn_inv ?z")
proof (rule conn_invI)
  fix j q'
  assume j: "cn_jobs (z_conn ?z) j = Some q'"
  then have "q' \<in> ran (cn_jobs (z_conn z))" "mine (z_conn ?z) j = mine (z_conn z) j"
    by (auto simp: ran_def mine_def)
  with j show "q' < cn_nq (z_conn ?z) \<and> z_owner ?z q' = j \<and> jq_err (cn_queues (z_conn ?z) q') = None \<and>
      (mine (z_conn ?z) j \<longrightarrow> j \<in> set (z_ids ?z))"
    using inv_job [OF inv, of j q'] err by (cases "q' = q") auto
next
  fix q'
  assume "q' < cn_nq (z_conn ?z)"
  then show "q' \<in> ran (cn_jobs (z_conn ?z)) \<or> (\<exists>e. (q', e) \<in> z_closing ?z) \<or>
      jq_err (cn_queues (z_conn ?z) q') \<noteq> None"
    using inv_covered [OF inv, of q'] keep gone by (cases "q' = q") auto
qed (use inv_closing [OF inv] inv_failed [OF inv] inv_items [OF inv] inv_looked [OF inv] inv_ids [OF inv] cl items q
     in \<open>auto simp: ids_ok_def split: if_splits\<close>)

text \<open>The invariant holds as long as fewer than \<open>2 ^ 63\<close> ids have been given out, before they wrap.\<close>

definition conn_inv_bounded :: "csys \<Rightarrow> bool" where
  "conn_inv_bounded z \<longleftrightarrow> (length (z_ids z) < 2 ^ 63 \<longrightarrow> conn_inv z)"

lemma new_job_inv:
  assumes inv: "conn_inv z" and n: "newJob (z_conn z) = (Inr (job, q), c)" and small: "Suc (length (z_ids z)) < 2 ^ 63"
  shows "conn_inv (z\<lparr>z_conn := c, z_owner := (z_owner z)(q := job), z_ids := z_ids z @ [job]\<rparr>)"
proof -
  let ?n = "length (z_ids z)"
  from n have err: "cn_err (z_conn z) = None" and job: "job = cn_nextJob (z_conn z)"
    and o: "open_queue job ((z_conn z)\<lparr>cn_nextJob := job + 2\<rparr>) = (q, c)"
    by (auto simp: newJob_def Let_def split: option.splits prod.splits)
  note ids = inv_ids [OF inv]
  have c: "cn_role c = cn_role (z_conn z)" "cn_nextJob c = job + 2"
    using o by (auto simp: open_queue_def)
  have val: "job = first_id (cn_role (z_conn z)) + 2 * of_nat ?n"
    and old: "map (\<lambda>i. first_id (cn_role (z_conn z)) + 2 * of_nat i) [0..<?n] = z_ids z"
    using ids unfolding ids_ok_def job by simp_all
  then have "ids_ok (z\<lparr>z_conn := c, z_owner := (z_owner z)(q := job), z_ids := z_ids z @ [job]\<rparr>)"
    by (simp add: ids_ok_def c)
  moreover have "mine (z_conn z) job"
    by (simp add: mine_even val ids_even)
  then have "cn_jobs (z_conn z) job = None"
    using inv_job [OF inv, of job] ids_distinct(3) [OF ids] small job by (cases "cn_jobs (z_conn z) job") auto
  ultimately show ?thesis
    by (intro opened_inv [OF inv err _ o]) auto
qed

lemma open_job_inv:
  assumes inv: "conn_inv z" and "\<not> mine (z_conn z) job" and n: "openJob job (z_conn z) = (Inr q, c)"
  shows "conn_inv (z\<lparr>z_conn := c, z_owner := (z_owner z)(q := job)\<rparr>)"
proof -
  from n have err: "cn_err (z_conn z) = None" "cn_jobs (z_conn z) job = None"
    and o: "open_queue job (z_conn z) = (q, c)"
    by (auto simp: openJob_def split: option.splits if_splits prod.splits)
  have "cn_role c = cn_role (z_conn z)" "cn_nextJob c = cn_nextJob (z_conn z)"
    using o by (auto simp: open_queue_def)
  then have "ids_ok (z\<lparr>z_conn := c, z_owner := (z_owner z)(q := job), z_ids := z_ids z\<rparr>)"
    using inv_ids [OF inv] by (simp add: ids_ok_def)
  with opened_inv [OF inv err, of "cn_nextJob (z_conn z)" q c "z_ids z"] o assms(2) show ?thesis
    by simp
qed

lemma forgets_inv:
  assumes inv: "conn_inv z" and j: "cn_jobs (z_conn z) job = Some q"
  shows "conn_inv (z\<lparr>z_conn := forget job (z_conn z), z_closing := insert (q, ErrJobEnded) (z_closing z)\<rparr>)"
    (is "conn_inv ?z")
proof -
  have out: "p \<notin> ran ((cn_jobs (z_conn z))(job := None)) \<longleftrightarrow> p = q \<or> p \<notin> ran (cn_jobs (z_conn z))" for p
  proof -
    have "k = job" if "cn_jobs (z_conn z) k = Some q" for k
      using inv_job [OF inv that] inv_job [OF inv j] by simp
    then have "(\<exists>k. ((cn_jobs (z_conn z))(job := None)) k = Some p) \<longleftrightarrow> p \<noteq> q \<and> (\<exists>k. cn_jobs (z_conn z) k = Some p)"
      using j by (metis fun_upd_apply option.distinct(1) option.inject)
    then show ?thesis
      unfolding ran_def by blast
  qed
  show ?thesis
  proof (rule conn_invI)
    fix p e
    assume "(p, e) \<in> z_closing ?z"
    then show "p < cn_nq (z_conn ?z) \<and> p \<notin> ran (cn_jobs (z_conn ?z))"
      using inv_closing [OF inv, of p e] inv_job [OF inv j] out [of p] by auto
  next
    fix p
    assume "p < cn_nq (z_conn ?z)"
    then show "p \<in> ran (cn_jobs (z_conn ?z)) \<or> (\<exists>e. (p, e) \<in> z_closing ?z) \<or> jq_err (cn_queues (z_conn ?z) p) \<noteq> None"
      using inv_covered [OF inv, of p] out [of p] by auto
  next
    fix k p
    assume "cn_jobs (z_conn ?z) k = Some p"
    then show "p < cn_nq (z_conn ?z) \<and> z_owner ?z p = k \<and> jq_err (cn_queues (z_conn ?z) p) = None \<and>
        (mine (z_conn ?z) k \<longrightarrow> k \<in> set (z_ids ?z))"
      using inv_job [OF inv, of k p] by (simp add: mine_even split: if_splits)
  qed (use inv_failed [OF inv] inv_items [OF inv] inv_looked [OF inv] inv_ids [OF inv] in \<open>auto simp: ids_ok_def\<close>)
qed

lemma endJob_lock_inv:
  assumes inv: "conn_inv z" and j: "endJob_lock job (z_conn z) = (qs, c)"
  shows "conn_inv (z\<lparr>z_conn := c, z_closing := z_closing z \<union> (\<lambda>q. (q, ErrJobEnded)) ` qs\<rparr>)"
proof (cases "cn_jobs (z_conn z) job")
  case None
  with j have "qs = {}" "c = forget job (z_conn z)" "cn_jobs c = cn_jobs (z_conn z)"
    by (auto simp: endJob_lock_def)
  with conn_inv_frame [OF inv, of c] show ?thesis
    by simp
next
  case (Some q)
  with forgets_inv [OF inv Some] j show ?thesis
    by (auto simp: endJob_lock_def)
qed

lemma fails_inv:
  assumes inv: "conn_inv z"
  shows "conn_inv (z\<lparr>z_conn := fail_mark e (z_conn z),
      z_closing := z_closing z \<union> (\<lambda>q. (q, e)) ` ran (cn_jobs (z_conn z))\<rparr>)"
    (is "conn_inv ?z")
proof (rule conn_invI)
  fix p d
  assume "(p, d) \<in> z_closing ?z"
  then show "p < cn_nq (z_conn ?z) \<and> p \<notin> ran (cn_jobs (z_conn ?z))"
    using inv_closing [OF inv, of p d] inv_job [OF inv, of _ p] by (auto simp: ran_def)
next
  fix p
  assume "p < cn_nq (z_conn ?z)"
  then show "p \<in> ran (cn_jobs (z_conn ?z)) \<or> (\<exists>d. (p, d) \<in> z_closing ?z) \<or> jq_err (cn_queues (z_conn ?z) p) \<noteq> None"
    using inv_covered [OF inv, of p] by auto
qed (use inv_items [OF inv] inv_looked [OF inv] inv_ids [OF inv] in \<open>auto simp: ids_ok_def\<close>)

lemma closes_inv:
  assumes inv: "conn_inv z" and q: "(q, e) \<in> z_closing z"
  shows "conn_inv (z\<lparr>z_conn := on_queue q (jq_close e) (z_conn z), z_closing := z_closing z - {(q, e)}\<rparr>)"
proof -
  have "conn_inv (z\<lparr>z_conn := on_queue q (jq_close e) (z_conn z), z_closing := z_closing z - {(q, e)}, z_looked := z_looked z\<rparr>)"
    using inv_closing [OF inv q] inv_items [OF inv, of q]
    by (intro on_queue_inv [OF inv]) (auto split: option.splits)
  then show ?thesis by simp
qed

lemma pushes_inv:
  assumes inv: "conn_inv z" and q: "(m, q) \<in> z_looked z"
  shows "conn_inv (z\<lparr>z_conn := on_queue q (jq_push m) (z_conn z), z_looked := z_looked z - {(m, q)}\<rparr>)"
proof -
  have err: "jq_err (cn_queues (z_conn z) q) = None" if "q \<in> ran (cn_jobs (z_conn z))"
    using that inv_job [OF inv] by (auto simp: ran_def)
  have "conn_inv (z\<lparr>z_conn := on_queue q (jq_push m) (z_conn z), z_closing := z_closing z, z_looked := z_looked z - {(m, q)}\<rparr>)"
    using inv_looked [OF inv q] inv_items [OF inv, of q] err
    by (intro on_queue_inv [OF inv]) (auto split: if_splits)
  then show ?thesis by simp
qed

lemma reads_inv:
  assumes inv: "conn_inv z" and q: "q < cn_nq (z_conn z)"
  shows "conn_inv (z\<lparr>z_conn := on_queue q (\<lambda>jq. snd (jq_look jq)) (z_conn z)\<rparr>)"
proof -
  have err: "jq_err (cn_queues (z_conn z) q) = None" if "q \<in> ran (cn_jobs (z_conn z))"
    using that inv_job [OF inv] by (auto simp: ran_def)
  have "conn_inv (z\<lparr>z_conn := on_queue q (\<lambda>jq. snd (jq_look jq)) (z_conn z), z_closing := z_closing z, z_looked := z_looked z\<rparr>)"
    using inv_items [OF inv q] look_items [of "cn_queues (z_conn z) q"] err q
    by (intro on_queue_inv [OF inv]) (auto split: if_splits)
  then show ?thesis by simp
qed

lemma looks_inv:
  assumes inv: "conn_inv z" and "JobID m = Some job" "cn_jobs (z_conn z) job = Some q"
  shows "conn_inv (z\<lparr>z_looked := insert (m, q) (z_looked z)\<rparr>)"
  using inv inv_job [OF inv assms(3)] assms(2)
  by (auto simp: conn_inv_def jobs_ok_def closing_ok_def covered_def own_messages_def ids_ok_def)

lemma cn_start_opens:
  assumes "cn_start m job c = (r, c')"
  shows "(c' = c \<and> (\<exists>e. r = Inl e)) \<or>
    (\<not> mine c job \<and> (\<exists>q c1. openJob job c = (Inr q, c1) \<and> q = cn_nq c \<and> cn_nq c1 = Suc q \<and>
       c' = c1\<lparr>cn_started := cn_started c1 @ [(m, q)]\<rparr>))"
  using assms by (auto simp: cn_start_def openJob_def open_queue_def split: option.splits if_splits)

lemma dispatch_lock_inv:
  assumes inv: "conn_inv z" and d: "dispatch_lock m (z_conn z) = (r, c)"
  shows "conn_inv (z\<lparr>z_conn := c, z_owner := started_by m (z_conn z) c (z_owner z),
    z_looked := z_looked z \<union> {(m, q) |q. r = Inr (Some q)}\<rparr>)"
proof (cases "\<exists>job s me t hs. m = Request job s me t hs")
  case True
  then obtain job s me t hs where m: "m = Request job s me t hs" by blast
  with d obtain r1 where st: "cn_start m job (z_conn z) = (r1, c)" and r: "r \<noteq> Inr (Some q)" for q
    by (auto simp: dispatch_lock_def split: prod.splits sum.splits)
  from cn_start_opens [OF st] show ?thesis
  proof
    assume "c = z_conn z \<and> (\<exists>e. r1 = Inl e)"
    with inv r show ?thesis
      by (simp add: started_by_def)
  next
    assume "\<not> mine (z_conn z) job \<and> (\<exists>q c1. openJob job (z_conn z) = (Inr q, c1) \<and> q = cn_nq (z_conn z) \<and> cn_nq c1 = Suc q \<and>
       c = c1\<lparr>cn_started := cn_started c1 @ [(m, q)]\<rparr>)"
    then obtain q c1 where o: "\<not> mine (z_conn z) job" "openJob job (z_conn z) = (Inr q, c1)" "q = cn_nq (z_conn z)" "cn_nq c1 = Suc q"
        "c = c1\<lparr>cn_started := cn_started c1 @ [(m, q)]\<rparr>"
      by blast
    have "conn_inv ((z\<lparr>z_conn := c1, z_owner := (z_owner z)(q := job)\<rparr>)\<lparr>z_conn := c\<rparr>)"
      using open_job_inv [OF inv o(1,2)] by (rule conn_inv_frame) (simp_all add: o(5))
    moreover have "(z\<lparr>z_conn := c1, z_owner := (z_owner z)(q := job)\<rparr>)\<lparr>z_conn := c\<rparr> =
        z\<lparr>z_conn := c, z_owner := started_by m (z_conn z) c (z_owner z), z_looked := z_looked z \<union> {(m, q) |q. r = Inr (Some q)}\<rparr>"
      using o(3-5) r by (cases z) (simp add: started_by_def m)
    ultimately show ?thesis
      by simp
  qed
next
  case False
  then have c: "cn_jobs c = cn_jobs (z_conn z)" "cn_nq c = cn_nq (z_conn z)" "cn_queues c = cn_queues (z_conn z)"
      "cn_err c = cn_err (z_conn z)" "cn_role c = cn_role (z_conn z)" "cn_nextJob c = cn_nextJob (z_conn z)"
    using d by (auto simp: dispatch_lock_def split: message.splits option.splits)
  have job: "\<exists>job. JobID m = Some job \<and> cn_jobs (z_conn z) job = Some q" if "r = Inr (Some q)" for q
    using False d that by (auto simp: dispatch_lock_def split: message.splits option.splits)
  have "conn_inv (z\<lparr>z_conn := c\<rparr>)"
    by (rule conn_inv_frame [OF inv]) (use c in simp_all)
  then show ?thesis
    using job looks_inv [of "z\<lparr>z_conn := c\<rparr>" m] c
    by (cases "\<exists>q. r = Inr (Some q)") (auto simp: started_by_def)
qed

lemma conn_step_inv:
  assumes "conn_inv_bounded z" "conn_step z z'"
  shows "conn_inv_bounded z'"
  using assms(2,1)
proof (cases rule: conn_step.cases)
  case (new_job job q c)
  with assms(1) new_job_inv [of z job q c] show ?thesis
    by (simp add: conn_inv_bounded_def)
next
  case (forgets job qs c)
  with assms(1) endJob_lock_inv [of z job qs c] show ?thesis
    by (simp add: conn_inv_bounded_def)
next
  case (fails e qs c)
  with assms(1) fails_inv [of z e] show ?thesis
    by (simp add: conn_inv_bounded_def fail_lock_def split: if_splits)
next
  case (closes q e)
  with assms(1) closes_inv [of z q e] show ?thesis
    by (simp add: conn_inv_bounded_def)
next
  case hangs_up
  with assms(1) conn_inv_frame [of z "(z_conn z)\<lparr>cn_closed := True\<rparr>"] show ?thesis
    by (simp add: conn_inv_bounded_def)
next
  case (dispatches m r c)
  with assms(1) dispatch_lock_inv [of z m r c] show ?thesis
    by (simp add: conn_inv_bounded_def)
next
  case (pushes m q)
  with assms(1) pushes_inv [of z m q] show ?thesis
    by (simp add: conn_inv_bounded_def)
next
  case (reads q)
  with assms(1) reads_inv [of z q] show ?thesis
    by (simp add: conn_inv_bounded_def)
next
  case (sends m r c)
  with assms(1) conn_inv_frame [of z c] send_frame [of m "z_conn z" r c] show ?thesis
    by (simp add: conn_inv_bounded_def)
next
  case (receives r c)
  with assms(1) conn_inv_frame [of z c] receive_frame [of "z_conn z" r c] show ?thesis
    by (simp add: conn_inv_bounded_def)
next
  case (pongs r c)
  with assms(1) conn_inv_frame [of z c] pong_frame [of "z_conn z" r c] show ?thesis
    by (simp add: conn_inv_bounded_def)
qed

interpretation conn_sys: transition_system "\<lambda>z. z = init_csys r w role peer" conn_step conn_inv_bounded
proof unfold_locales
  show "conn_inv_bounded s" if "s = init_csys r w role peer" for s
    using that by (simp add: conn_inv_bounded_def init_csys_inv)
qed (rule conn_step_inv)

definition conn_reachable :: "role \<Rightarrow> csys \<Rightarrow> bool" where
  "conn_reachable role z \<longleftrightarrow> (\<exists>r w peer. conn_step\<^sup>*\<^sup>* (init_csys r w role peer) z)"

lemma conn_reachable_inv:
  "conn_reachable role z \<Longrightarrow> length (z_ids z) < 2 ^ 63 \<Longrightarrow> conn_inv z"
  unfolding conn_reachable_def
  using conn_sys.reachable_inv [OF refl] by (auto simp: conn_inv_bounded_def)

subsection \<open>The operations as runs of their critical sections\<close>

lemma close_all_insert: "q \<notin> qs \<Longrightarrow> close_all e (insert q qs) c = close_all e qs (on_queue q (jq_close e) c)"
proof -
  assume q: "q \<notin> qs"
  have "(\<lambda>p. if p \<in> insert q qs then jq_close e (cn_queues c p) else cn_queues c p) =
      (\<lambda>p. if p \<in> qs then jq_close e (((cn_queues c)(q := jq_close e (cn_queues c q))) p) else ((cn_queues c)(q := jq_close e (cn_queues c q))) p)"
    using q by (intro ext) auto
  then show ?thesis
    by (simp add: close_all_def on_queue_def cong: if_cong)
qed

text \<open>Nobody else between the unlock and the closes: the closes are done one after the other.\<close>

lemma close_all_run:
  assumes "finite qs" "\<And>q. q \<in> qs \<Longrightarrow> (q, e) \<notin> C"
  shows "conn_step\<^sup>*\<^sup>* (z\<lparr>z_closing := C \<union> (\<lambda>q. (q, e)) ` qs\<rparr>) (z\<lparr>z_conn := close_all e qs (z_conn z), z_closing := C\<rparr>)"
  using assms
proof (induction qs arbitrary: z rule: finite_induct)
  case empty
  then show ?case
    by (simp add: close_all_def)
next
  case (insert q qs)
  let ?z = "z\<lparr>z_closing := C \<union> (\<lambda>q. (q, e)) ` insert q qs\<rparr>"
  let ?z1 = "z\<lparr>z_conn := on_queue q (jq_close e) (z_conn z)\<rparr>"
  have "(C \<union> (\<lambda>q. (q, e)) ` insert q qs) - {(q, e)} = C \<union> (\<lambda>q. (q, e)) ` qs"
    using insert.hyps(2) insert.prems by auto
  then have "conn_step ?z (?z1\<lparr>z_closing := C \<union> (\<lambda>q. (q, e)) ` qs\<rparr>)"
    using conn_step.closes [of q e ?z] by simp
  moreover have "close_all e qs (on_queue q (jq_close e) (z_conn z)) = close_all e (insert q qs) (z_conn z)"
    using insert.hyps(2) by (simp add: close_all_insert)
  then have "conn_step\<^sup>*\<^sup>* (?z1\<lparr>z_closing := C \<union> (\<lambda>q. (q, e)) ` qs\<rparr>) (z\<lparr>z_conn := close_all e (insert q qs) (z_conn z), z_closing := C\<rparr>)"
    using insert.IH [of ?z1] insert.prems by simp
  ultimately show ?case
    by (rule converse_rtranclp_into_rtranclp)
qed

lemma close_all_owed:
  assumes "finite qs" "\<And>q. q \<in> qs \<Longrightarrow> (q, e) \<notin> z_closing z"
  shows "conn_step\<^sup>*\<^sup>* (z\<lparr>z_closing := z_closing z \<union> (\<lambda>q. (q, e)) ` qs\<rparr>) (z\<lparr>z_conn := close_all e qs (z_conn z)\<rparr>)"
proof -
  have "z\<lparr>z_conn := c, z_closing := z_closing z\<rparr> = z\<lparr>z_conn := c\<rparr>" for c
    by (cases z) simp
  with close_all_run [OF assms, of z] show ?thesis
    by (simp only:)
qed

lemma finite_ran_jobs: "finite (ran (cn_jobs c))"
  by (rule finite_ran) (rule finite)

lemma endJob_run:
  assumes "conn_inv z"
  shows "conn_step\<^sup>*\<^sup>* z (z\<lparr>z_conn := endJob job (z_conn z)\<rparr>)"
proof -
  obtain qs c where l: "endJob_lock job (z_conn z) = (qs, c)" by fastforce
  then have "qs \<subseteq> ran (cn_jobs (z_conn z))" "finite qs"
    by (auto simp: endJob_lock_def ran_def)
  then have "(q, ErrJobEnded) \<notin> z_closing z" if "q \<in> qs" for q
    using that inv_closing [OF assms] by blast
  with close_all_owed [OF \<open>finite qs\<close>, of ErrJobEnded "z\<lparr>z_conn := c\<rparr>"]
  have "conn_step\<^sup>*\<^sup>* (z\<lparr>z_conn := c, z_closing := z_closing z \<union> (\<lambda>q. (q, ErrJobEnded)) ` qs\<rparr>) (z\<lparr>z_conn := endJob job (z_conn z)\<rparr>)"
    by (simp add: endJob_def l)
  with conn_step.forgets [OF l] show ?thesis
    by (rule converse_rtranclp_into_rtranclp)
qed

lemma cn_fail_run:
  assumes "conn_inv z"
  shows "conn_step\<^sup>*\<^sup>* z (z\<lparr>z_conn := cn_fail e (z_conn z)\<rparr>)"
proof (cases "fail_lock e (z_conn z)")
  case None
  then show ?thesis
    by (simp add: cn_fail_def)
next
  case (Some l)
  then obtain qs c where l: "fail_lock e (z_conn z) = Some (qs, c)" by (cases l) simp
  then have "qs = ran (cn_jobs (z_conn z))"
    by (simp add: fail_lock_def split: if_splits)
  then have "(q, e) \<notin> z_closing z" if "q \<in> qs" for q
    using that inv_closing [OF assms] by blast
  then have "conn_step\<^sup>*\<^sup>* (z\<lparr>z_conn := c, z_closing := z_closing z \<union> (\<lambda>q. (q, e)) ` qs\<rparr>) (z\<lparr>z_conn := close_all e qs c\<rparr>)"
    using close_all_owed [of qs e "z\<lparr>z_conn := c\<rparr>"] finite_ran_jobs [of "z_conn z"] \<open>qs = _\<close> by simp
  moreover have "conn_step (z\<lparr>z_conn := close_all e qs c\<rparr>) (z\<lparr>z_conn := cn_fail e (z_conn z)\<rparr>)"
    using conn_step.hangs_up [of "z\<lparr>z_conn := close_all e qs c\<rparr>"] l by (simp add: cn_fail_def)
  ultimately show ?thesis
    using conn_step.fails [OF l] by (meson converse_rtranclp_into_rtranclp rtranclp.rtrancl_into_rtrancl)
qed

lemma cn_dispatch_run:
  assumes "cn_dispatch m (z_conn z) = (r, c)" "\<And>q. (m, q) \<notin> z_looked z"
  shows "conn_step\<^sup>*\<^sup>* z (z\<lparr>z_conn := c, z_owner := started_by m (z_conn z) c (z_owner z)\<rparr>)"
proof -
  obtain r1 c1 where l: "dispatch_lock m (z_conn z) = (r1, c1)" by fastforce
  note step = conn_step.dispatches [OF l]
  show ?thesis
  proof (cases "\<exists>q. r1 = Inr (Some q)")
    case False
    with assms(1) l have "c = c1"
      by (auto simp: cn_dispatch_def split: sum.splits option.splits)
    with False step show ?thesis
      by (simp add: r_into_rtranclp)
  next
    case True
    then obtain q where q: "r1 = Inr (Some q)" by blast
    with assms(1) l have c: "c = on_queue q (jq_push m) c1"
      by (simp add: cn_dispatch_def)
    let ?z1 = "z\<lparr>z_conn := c1, z_owner := started_by m (z_conn z) c1 (z_owner z), z_looked := insert (m, q) (z_looked z)\<rparr>"
    have "started_by m (z_conn z) c1 = started_by m (z_conn z) c" "insert (m, q) (z_looked z) - {(m, q)} = z_looked z"
      using assms(2) by (auto simp: started_by_def c intro!: ext)
    then have "z\<lparr>z_conn := c, z_owner := started_by m (z_conn z) c (z_owner z)\<rparr> =
        ?z1\<lparr>z_conn := on_queue q (jq_push m) (z_conn ?z1), z_looked := z_looked ?z1 - {(m, q)}\<rparr>"
      by (cases z) (simp add: c)
    then have "conn_step ?z1 (z\<lparr>z_conn := c, z_owner := started_by m (z_conn z) c (z_owner z)\<rparr>)"
      using conn_step.pushes [of m q ?z1] by (simp only:) simp
    moreover have "conn_step z ?z1"
      using step q by simp
    ultimately show ?thesis
      by (meson r_into_rtranclp rtranclp.rtrancl_into_rtrancl)
  qed
qed

end
