(* ===== verification/Answers.thy ===== *)
theory Answers
  imports Server_Laws Conn_System
begin

text \<open>
  The messages of one answer, which is what a provider, the server and a consumer promise each other:
  a RESPONSE, BODYs and an END or a FAIL, or a FAIL alone. Each of the three is shown to keep to it when
  the one before does: \<open>provide\<close> in \<^verbatim>\<open>Endpoint_Theorems\<close>, \<open>relay\<close> in \<^verbatim>\<open>Server_Theorems\<close> and
  \<open>relayAnswer\<close> in \<^verbatim>\<open>Consume_Theorems\<close>.
\<close>

text \<open>An answer, or the beginning of one, after its RESPONSE or before.\<close>

fun answers :: "bool \<Rightarrow> message list \<Rightarrow> bool" where
  "answers started [] = True"
| "answers started (Response _ _ _ # ms) = (\<not> started \<and> answers True ms)"
| "answers started (Body _ _ # ms) = (started \<and> answers True ms)"
| "answers started (End _ _ # ms) = (started \<and> ms = [])"
| "answers started (Fail _ _ # ms) = (ms = [])"
| "answers started (_ # ms) = False"

lemma answers_Cons:
  "answers s (m # ms) \<longleftrightarrow> is_answer m \<and> (is_response m \<longrightarrow> \<not> s) \<and> (\<not> is_response m \<and> \<not> is_fail m \<longrightarrow> s) \<and>
     (if is_last m then ms = [] else answers True ms)"
  by (cases m) auto

lemma answers_append_fail: "answers s ms \<Longrightarrow> \<forall>m \<in> set ms. \<not> is_last m \<Longrightarrow> answers s (ms @ [Fail job why])"
  by (induction ms arbitrary: s) (auto simp: answers_Cons)

lemma answers_take: "answers s ms \<Longrightarrow> answers s (take n ms)"
proof (induction ms arbitrary: s n)
  case (Cons m ms)
  then show ?case
    by (cases n) (auto simp: answers_Cons)
qed simp

lemma answers_begun: "answers False ms \<Longrightarrow> \<forall>m \<in> set ms. \<not> is_response m \<and> \<not> is_last m \<Longrightarrow> ms = []"
  by (cases ms) (auto simp: answers_Cons elim: is_fail.elims)

lemma answers_synth: "answers False (synthMessages job status why)"
  by (simp add: synthMessages_def Let_def)

text \<open>What is pushed to a queue before it is closed or its reader is stopped, and what a reader of it will get.\<close>

fun pushed :: "qevent list \<Rightarrow> message list" where
  "pushed (Pushed m # evs) = m # pushed evs"
| "pushed _ = []"

definition to_come :: "qevent list \<Rightarrow> jobQueue \<Rightarrow> message list" where
  "to_come evs q = jq_items q @ (if jq_err q = None then pushed evs else [])"

lemma to_come_new [simp]: "to_come evs newJobQueue = pushed evs"
  by (simp add: to_come_def newJobQueue_def)

text \<open>Whether nothing says that the reader's context ended.\<close>

definition undone :: "qevent list \<Rightarrow> jobQueue \<Rightarrow> bool" where
  "undone evs q \<longleftrightarrow> jq_err q \<noteq> Some ErrCtx \<and> Closed ErrCtx \<notin> set evs \<and> (\<forall>e. qevent.CtxDone e \<notin> set evs)"

lemma jq_next_message:
  assumes "jq_next evs q = Some (Inr m, q', evs')"
  shows "to_come evs q = m # to_come evs' q'" "undone evs q \<Longrightarrow> undone evs' q'"
proof -
  have "to_come evs q = m # to_come evs' q' \<and> (undone evs q \<longrightarrow> undone evs' q')"
  proof (cases "jq_items q")
    case Nil
    show ?thesis
    proof (cases "jq_err q")
      case None
      with Nil assms show ?thesis
        by (cases evs; cases "List.hd evs") (auto simp: jq_next_waiting to_come_def undone_def)
    qed (use Nil assms in \<open>simp add: jq_next_ended\<close>)
  qed (use assms in \<open>auto simp: jq_next_items to_come_def undone_def\<close>)
  then show "to_come evs q = m # to_come evs' q'" "undone evs q \<Longrightarrow> undone evs' q'"
    by blast+
qed

lemma jq_next_error:
  assumes "jq_next evs q = Some (Inl e, q', evs')" "undone evs q"
  shows "e \<noteq> ErrCtx"
proof (cases "jq_items q")
  case Nil
  show ?thesis
  proof (cases "jq_err q")
    case None
    with Nil assms show ?thesis
      by (cases evs; cases "List.hd evs") (auto simp: jq_next_waiting undone_def)
  qed (use Nil assms in \<open>auto simp: jq_next_ended undone_def\<close>)
qed (use assms in \<open>simp add: jq_next_items\<close>)

subsection \<open>Connections that accept writes\<close>

text \<open>A connection that is open, accepts writes, and has had its HELLO.\<close>

definition healthy :: "conn \<Rightarrow> bool" where
  "healthy c \<longleftrightarrow> \<not> cn_closed c \<and> wr_script (e_w (cn_enc c)) = [] \<and> (e_role (cn_enc c) = RoleClient \<longrightarrow> e_sentHello (cn_enc c))"

lemma helloOrder_healthy: "healthy c \<Longrightarrow> \<not> is_hello m \<Longrightarrow> helloOrder (cn_enc c) m = None"
  by (cases "e_role (cn_enc c)") (auto simp: helloOrder_def healthy_def Let_def)

lemma send_healthy:
  assumes "healthy c" "\<not> is_hello m" "ok_msg m"
  obtains c' where "send m c = (Inr (), c')" "healthy c'" "cn_sent c' = cn_sent c @ [m]" "cn_err c' = cn_err c"
proof -
  let ?w = "(e_w (cn_enc c))\<lparr>wr_data := wr_data (e_w (cn_enc c)) @ Kind m # enc_fields m\<rparr>"
  have "send m c = (Inr (), c\<lparr>cn_enc := (cn_enc c)\<lparr>e_w := ?w\<rparr>, cn_sent := cn_sent c @ [m]\<rparr>)"
    using assms helloOrder_healthy [OF assms(1,2)]
    by (simp add: send_def SetDeadline_def Encoder_Write_def Encode_ok Write_def healthy_def)
  then show thesis
    by (rule that) (use assms(1) in \<open>simp_all add: healthy_def\<close>)
qed

lemma send_unencodable:
  assumes "healthy c" "\<not> is_hello m" "\<not> ok_msg m"
  shows "\<exists>e. send m c = (Inl e, c)"
proof -
  obtain e where "Encode [] m = Inl e"
    using assms(3) Encode_Inr_iff [of "[]" m] by (cases "Encode [] m") auto
  then show ?thesis
    using assms(1) helloOrder_healthy [OF assms(1,2)]
    by (simp add: send_def SetDeadline_def Encoder_Write_def healthy_def)
qed

lemma send_keeps_healthy:
  assumes "healthy c" "\<not> is_hello m" "send m c = (r, c')"
  shows "healthy c'"
proof (cases "ok_msg m")
  case True
  with assms(1,2) obtain c1 where "send m c = (Inr (), c1)" "healthy c1"
    by (rule send_healthy)
  with assms(3) show ?thesis by simp
next
  case False
  from send_unencodable [OF assms(1,2) this] assms(1,3) show ?thesis by auto
qed

lemma endJob_healthy [simp]: "healthy (endJob job c) = healthy c" "cn_sent (endJob job c) = cn_sent c"
  by (simp_all add: endJob_eq forget_def on_queue_def healthy_def split: option.split)

definition fits :: "message list \<Rightarrow> bool" where
  "fits ms \<longleftrightarrow> list_all (\<lambda>m. ok_msg m \<and> \<not> is_hello m) ms"

lemma fits_simps [simp]: "fits []" "fits (m # ms) \<longleftrightarrow> ok_msg m \<and> \<not> is_hello m \<and> fits ms" "fits (xs @ ys) \<longleftrightarrow> fits xs \<and> fits ys"
  by (simp_all add: fits_def)

text \<open>\<open>sends ms c c'\<close>: \<open>ms\<close> went out on the healthy connection \<open>c\<close>, which is otherwise as it was.\<close>

definition sends :: "message list \<Rightarrow> conn \<Rightarrow> conn \<Rightarrow> bool" where
  "sends ms c c' \<longleftrightarrow> healthy c' \<and> cn_sent c' = cn_sent c @ ms \<and> cn_queues c' = cn_queues c \<and> cn_err c' = cn_err c"

lemma sends_trans: "sends xs c c1 \<Longrightarrow> sends ys c1 c2 \<Longrightarrow> sends (xs @ ys) c c2"
  by (simp add: sends_def)

lemma send_sends:
  assumes "healthy c" "ok_msg m" "\<not> is_hello m"
  obtains c' where "send m c = (Inr (), c')" "sends [m] c c'"
  using send_healthy [OF assms(1,3,2)] send_frame by (metis sends_def)

lemma send_each_sends:
  assumes "healthy c" "fits ms"
  obtains c' where "send_each ms c = (Inr (), c')" "sends ms c c'"
proof -
  have "\<exists>c'. send_each ms c = (Inr (), c') \<and> sends ms c c'"
    using assms
  proof (induction ms arbitrary: c)
    case (Cons m ms)
    then obtain c1 where c1: "send m c = (Inr (), c1)" "sends [m] c c1"
      using send_sends [of c m] by auto
    then have "healthy c1"
      by (simp add: sends_def)
    with Cons obtain c2 where "send_each ms c1 = (Inr (), c2)" "sends ms c1 c2"
      by auto
    with c1 show ?case
      using sends_trans [OF c1(2)] by (auto simp: bindE_def)
  qed (simp add: returnE_def sends_def)
  then show thesis
    using that by blast
qed

subsection \<open>Relaying an answer\<close>

lemma length_Itoa: "length (Itoa n) \<le> Suc (n div 10)"
proof -
  have "length (dec_digits n) \<le> Suc (n div 10)" for n
    by (induction n rule: dec_digits.induct) (subst dec_digits.simps, auto)
  then show ?thesis
    by (simp add: Itoa_def)
qed

lemma synth_fits:
  assumes "job \<noteq> 0" "100 \<le> status" "status \<le> 599" "length why < 65536"
  shows "fits (synthMessages job status why)"
proof -
  have len: "length (Itoa n) \<le> Suc (n div 10)" for n
    by (rule length_Itoa)
  have "ValidString ''Content-Type''" "ValidString ''Content-Length''" by code_simp+
  moreover have "length (Itoa (Suc (length why))) < 65536"
    using len [of "Suc (length why)"] assms(4) by simp
  ultimately show ?thesis
    using assms by (auto simp: synthMessages_def Let_def ok_headers_def ok_header_def minStatus_def maxStatus_def str_bytes_def)
qed

text \<open>One turn of the loop of \<open>dispatch\<close>.\<close>

lemma answer_loop_turn:
  assumes "answer_loop job j ctx s evs q c t = Some ((started, err), c', t')"
  obtains (ended) e q' evs' where "jq_next evs q = Some (Inl e, q', evs')" "started = s" "c' = c"
      "err = Some (if e = ErrCtx \<or> ctx then ErrCancelled else ErrProviderGone)"
  | (strange) m q' evs' where "jq_next evs q = Some (Inr m, q', evs')" "\<not> is_answer m" "started = s" "c' = c"
      "err = Some (ErrNotAnAnswer (Kind m))"
  | (refused) m q' evs' where "jq_next evs q = Some (Inr m, q', evs')" "is_fail m" "\<not> started" "c' = c"
      "err = Some (ErrProviderFail (fail_Reason m))"
  | (lost) m q' evs' e where "jq_next evs q = Some (Inr m, q', evs')" "is_answer m" "send (onward job m) c = (Inl e, c')"
      "err = Some ErrCancelled"
  | (last) m q' evs' u where "jq_next evs q = Some (Inr m, q', evs')" "is_answer m" "send (onward job m) c = (Inr u, c')"
      "is_last m" "err = None" "is_fail m \<longrightarrow> s"
  | (more) m q' evs' u c1 where "jq_next evs q = Some (Inr m, q', evs')" "is_answer m" "send (onward job m) c = (Inr u, c1)"
      "\<not> is_last m" "answer_loop job j ctx (s \<or> is_response m) evs' q' c1 t = Some ((started, err), c', t')"
proof -
  obtain r q' evs' where n: "jq_next evs q = Some (r, q', evs')"
    using assms by (subst (asm) answer_loop.simps) (auto split: option.splits)
  show thesis
  proof (cases r)
    case (Inl e)
    with n ended assms show thesis
      by (subst (asm) answer_loop.simps) (auto split: if_splits)
  next
    case (Inr m)
    note n = n [unfolded Inr]
    obtain r2 c2 where snd2: "send (onward job m) c = (r2, c2)"
      by fastforce
    note turn = assms [unfolded answer_loop.simps [of job j ctx s evs q c t] n option.case prod.case sum.case snd2 Let_def]
    show thesis
    proof (cases "is_answer m \<and> \<not> (is_fail m \<and> \<not> s)")
      case False
      with turn strange [OF n] refused [OF n] show thesis
        by (auto split: if_splits)
    next
      case ok: True
      show thesis
      proof (cases r2)
        case (Inl e)
        with turn ok lost [OF n] snd2 show thesis
          by auto
      next
        case (Inr u)
        with turn ok last [OF n] more [OF n] snd2 show thesis
          by (cases "is_last m") auto
      qed
    qed
  qed
qed

lemma onward_kind [simp]: "is_answer (onward job m) = is_answer m" "is_fail (onward job m) = is_fail m"
  by (cases m; simp)+

lemma answer_loop_answers:
  "answer_loop job j ctx s evs q c t = Some ((started, err), c', t') \<Longrightarrow> answers s (to_come evs q) \<Longrightarrow> grows (answers s) c c'"
proof (induction "pending evs q" arbitrary: s evs q c rule: less_induct)
  case less
  have nil: "grows (answers s) c c" by (simp add: grows_def)
  from less.prems(1) show ?case
  proof (cases rule: answer_loop_turn)
    case (lost m q' evs' e)
    with nil send_sent(2) [OF lost(3)] show ?thesis
      by (simp add: grows_def)
  next
    case (last m q' evs' u)
    have "answers s [onward job m]"
      using less.prems(2) last by (auto simp: jq_next_message(1) [OF last(1)] answers_Cons)
    with send_sent(1) [OF last(3)] show ?thesis
      by (simp add: grows_def)
  next
    case (more m q' evs' u c1)
    note ans = less.prems(2) [unfolded jq_next_message(1) [OF more(1)] answers_Cons]
    then have s: "s \<or> is_response m" and rest: "answers True (to_come evs' q')"
      using more(2,4) by (auto elim: is_fail.elims)
    with less.hyps [OF jq_next_pending [OF more(1)] more(5)] have "grows (answers True) c1 c'"
      by simp
    moreover have "answers s (onward job m # new)" if "answers True new" for new
      using ans that more(2,4) by (auto simp: answers_Cons)
    ultimately show ?thesis
      using send_sent(1) [OF more(3)] by (auto simp: grows_def)
  qed (use nil in simp_all)
qed

lemma answer_loop_whole:
  "answer_loop job j ctx s evs q c t = Some ((started, err), c', t') \<Longrightarrow> answers s (to_come evs q) \<Longrightarrow>
   healthy c \<Longrightarrow> \<not> ctx \<Longrightarrow> undone evs q \<Longrightarrow> fits (map (onward job) (to_come evs q)) \<Longrightarrow>
   healthy c' \<and> (err = None \<or> err = Some ErrProviderGone \<or> \<not> started \<and> (\<exists>why. err = Some (ErrProviderFail why) \<and> length why < 65536))"
proof (induction "pending evs q" arbitrary: s evs q c rule: less_induct)
  case less
  have sent: "\<exists>c1. send (onward job m) c = (Inr (), c1) \<and> healthy c1" if "jq_next evs q = Some (Inr m, q', evs')" for m q' evs'
  proof -
    have "\<not> is_hello (onward job m)" "ok_msg (onward job m)"
      using less.prems(6) by (simp_all add: jq_next_message(1) [OF that])
    from send_healthy [OF less.prems(3) this] show ?thesis by blast
  qed
  from less.prems(1) show ?case
  proof (cases rule: answer_loop_turn)
    case (ended e q' evs')
    with jq_next_error [OF ended(1) less.prems(5)] less.prems(3,4) show ?thesis
      by simp
  next
    case (strange m q' evs')
    with less.prems(2) show ?thesis
      by (simp add: jq_next_message(1) [OF strange(1)] answers_Cons)
  next
    case (refused m q' evs')
    with less.prems(3,6) show ?thesis
      by (cases m) (auto simp: jq_next_message(1) [OF refused(1)])
  next
    case (lost m q' evs' e)
    with sent [OF lost(1)] show ?thesis by auto
  next
    case (last m q' evs' u)
    with sent [OF last(1)] show ?thesis by auto
  next
    case (more m q' evs' u c1)
    have "answers (s \<or> is_response m) (to_come evs' q')"
      using less.prems(2) more(2,4) by (auto simp: jq_next_message(1) [OF more(1)] answers_Cons elim: is_fail.elims)
    moreover have "healthy c1"
      using sent [OF more(1)] more(3) by auto
    moreover have "fits (map (onward job) (to_come evs' q'))"
      using less.prems(6) by (simp add: jq_next_message(1) [OF more(1)])
    ultimately show ?thesis
      using less.hyps [OF jq_next_pending [OF more(1)] more(5)] less.prems(4) jq_next_message(2) [OF more(1) less.prems(5)]
      by blast
  qed
qed

lemma send_each_queues: "send_each ms c = (r, c') \<Longrightarrow> cn_queues c' = cn_queues c"
proof (induction ms arbitrary: c)
  case (Cons m ms)
  obtain r1 c1 where "send m c = (r1, c1)" by fastforce
  with send_frame [OF this] Cons show ?case
    by (cases r1) (auto simp: bindE_def)
qed (simp add: returnE_def)

lemma srv_dispatch_turn:
  assumes "srv_dispatch req body trailers ctx evs c target = Some ((started, err), c', target')"
  obtains (gone) "\<not> started" "err = Some ErrProviderGone" "c' = c"
  | (asked) job t t' where "answer_loop (req_Job req) job ctx False evs newJobQueue c t = Some ((started, err), c', t')"
proof -
  obtain r t1 where n: "newJob target = (r, t1)" by fastforce
  show thesis
  proof (cases r)
    case (Inl e)
    with assms n gone show thesis
      by (auto simp: srv_dispatch_def)
  next
    case (Inr jq)
    obtain job q where jq: "jq = (job, q)" by fastforce
    let ?out = "Request job (req_Service req) (req_Method req) (req_Target req) (req_Headers req)"
    obtain r2 t2 where s2: "send ?out t1 = (r2, t2)" by fastforce
    obtain r3 t3 where s3: "sendBodyEnd job body trailers t2 = (r3, t3)" by fastforce
    have "cn_queues t1 q = newJobQueue"
      using n Inr jq by (auto simp: newJob_def open_queue_def Let_def split: option.splits)
    moreover have "cn_queues t3 = cn_queues t1"
      using send_frame [OF s2] send_each_queues [OF s3 [unfolded sendBodyEnd_def]] by simp
    ultimately have q: "cn_queues t3 q = newJobQueue" by simp
    show thesis
    proof (cases "\<exists>u v. r2 = Inr u \<and> r3 = Inr v")
      case True
      with assms n Inr jq s2 s3 q asked show thesis
        by (auto simp: srv_dispatch_def Let_def)
    next
      case False
      with assms n Inr jq s2 s3 gone show thesis
        by (cases r2; cases r3) (auto simp: srv_dispatch_def Let_def)
    qed
  qed
qed

text \<open>What an attempt has relayed when it did not come to an end: nothing, unless it had begun the answer.\<close>

lemma srv_dispatch_answers:
  assumes d: "srv_dispatch req body trailers ctx evs c target = Some ((started, err), c', target')"
    and ans: "answers False (pushed evs)"
  obtains new where "cn_sent c' = cn_sent c @ new" "answers False new" "loop_post (req_Job req) False started err new"
    "err \<noteq> None \<and> \<not> started \<longrightarrow> new = []"
proof -
  obtain new where new: "cn_sent c' = cn_sent c @ new" "loop_post (req_Job req) False started err new"
    using srv_dispatch_post [OF d] by (auto simp: grows_def)
  have "grows (answers False) c c'"
    using d
  proof (cases rule: srv_dispatch_turn)
    case (asked job t t')
    then show ?thesis
      by (rule answer_loop_answers) (simp add: ans)
  qed (simp add: grows_def)
  with new(1) have "answers False new"
    by (auto simp: grows_def)
  moreover from this have "new = []" if "err \<noteq> None" "\<not> started"
    using new(2) that by (intro answers_begun) (auto simp: loop_post_def open_part_def)
  ultimately show thesis
    using that new by blast
qed

lemma send_each_takes: "\<exists>n. cn_sent (snd (send_each ms c)) = cn_sent c @ take n ms"
proof (induction ms arbitrary: c)
  case (Cons m ms)
  obtain r c1 where s: "send m c = (r, c1)" by fastforce
  show ?case
  proof (cases r)
    case (Inl e)
    with s send_sent(2) [of m c e c1] show ?thesis
      by (intro exI [of _ 0]) (simp add: bindE_def)
  next
    case (Inr u)
    from Cons.IH [of c1] obtain n where "cn_sent (snd (send_each ms c1)) = cn_sent c1 @ take n ms" by blast
    with s Inr send_sent(1) [of m c u c1] show ?thesis
      by (intro exI [of _ "Suc n"]) (simp add: bindE_def)
  qed
qed (simp add: returnE_def)

lemma answer_answers: "grows (answers False) c (answer job status why c)"
  using send_each_takes [of "synthMessages job status why" c] answers_take [OF answers_synth]
  by (auto simp: answer_def grows_def)

lemma relay_loop_answers:
  "relay_loop at et req body trailers front as c = (calls, Some c') \<Longrightarrow>
   \<forall>a \<in> set as. answers False (pushed (at_evs a)) \<Longrightarrow> grows (answers False) c c'"
proof (induction as arbitrary: front c calls)
  case (Cons a as)
  show ?case
  proof (cases "at_acquire a")
    case (Inl e)
    with Cons.prems(1) answer_answers show ?thesis
      by (auto simp: grows_def split: if_splits)
  next
    case (Inr l)
    show ?thesis
    proof (cases "at_target a")
      case None
      with Inr Cons.prems(1) answer_answers show ?thesis
        by auto
    next
      case (Some target)
      with Inr Cons.prems(1) obtain started err c1 t1 where d:
        "srv_dispatch req body trailers (at_ctx a) (at_evs a) c target = Some ((started, err), c1, t1)"
        by (auto split: option.splits)
      obtain new where new: "cn_sent c1 = cn_sent c @ new" "answers False new" "loop_post (req_Job req) False started err new"
          "err \<noteq> None \<and> \<not> started \<longrightarrow> new = []"
        by (rule srv_dispatch_answers [OF d]) (use Cons.prems(2) in auto)
      note turn = Cons.prems(1) [unfolded relay_loop.simps Inr Some d sum.case option.case prod.case Let_def]
      have here: "grows (answers False) c c1"
        using new by (auto simp: grows_def)
      have later: "grows (answers False) c c'" if "grows (answers False) c1 c'" "err \<noteq> None" "\<not> started"
        using that new(1,4) by (auto simp: grows_def)
      show ?thesis
      proof (cases err)
        case None
        with turn here show ?thesis by simp
      next
        case (Some e)
        show ?thesis
        proof (cases started)
          case True
          have "answers False (new @ [Fail (req_Job req) (et ErrProviderGone)])"
            using new(3) Some by (intro answers_append_fail [OF new(2)]) (auto simp: loop_post_def open_part_def)
          then have "grows (answers False) c (snd (send (Fail (req_Job req) (et ErrProviderGone)) c1))"
            using new(1,2) send_sent [of "Fail (req_Job req) (et ErrProviderGone)" c1]
            by (cases "send (Fail (req_Job req) (et ErrProviderGone)) c1"; cases "fst (send (Fail (req_Job req) (et ErrProviderGone)) c1)")
              (auto simp: grows_def)
          with turn Some True here show ?thesis
            by (auto split: if_splits)
        next
          case False
          note later = later [OF _ _ False]
          show ?thesis
          proof (cases "e = ErrProviderGone")
            case True
            with turn Some False obtain calls1 where "relay_loop at et req body trailers True as c1 = (calls1, Some c')"
              by (auto split: prod.splits)
            from Cons.IH [OF this] Cons.prems(2) later Some show ?thesis
              by simp
          next
            case False
            with turn Some \<open>\<not> started\<close> here later answer_answers show ?thesis
              by (auto split: if_splits)
          qed
        qed
      qed
    qed
  qed
qed simp

text \<open>
  An attempt that nothing outside the answer disturbs: the provider keeps to the form of an answer, its messages can
  be sent on, and nobody cancels the job.
\<close>

definition well_behaved :: "u64 \<Rightarrow> attempt \<Rightarrow> bool" where
  "well_behaved job a \<longleftrightarrow> answers False (pushed (at_evs a)) \<and> fits (map (onward job) (pushed (at_evs a))) \<and>
     at_acquire a \<noteq> Inl CtxErr \<and> \<not> at_ctx a \<and> undone (at_evs a) newJobQueue"

definition ends_whole :: "message list \<Rightarrow> bool" where
  "ends_whole ms \<longleftrightarrow> ms \<noteq> [] \<and> is_last (last ms)"

lemma answer_whole:
  assumes "healthy c" "job \<noteq> 0" "100 \<le> status" "status \<le> 599" "length why < 65536"
  shows "grows ends_whole c (answer job status why c)"
proof -
  from send_each_sends [OF assms(1) synth_fits [OF assms(2-)]] obtain c' where
    "send_each (synthMessages job status why) c = (Inr (), c')" "sends (synthMessages job status why) c c'"
    by blast
  then show ?thesis
    by (simp add: answer_def grows_def sends_def ends_whole_def synthMessages_def Let_def)
qed

lemma relay_loop_whole:
  assumes "req_Job req \<noteq> 0" "\<And>x. length (at x) < 65536" "length (et ErrProviderGone) < 65536" "ValidString (et ErrProviderGone)"
  shows "relay_loop at et req body trailers front as c = (calls, Some c') \<Longrightarrow> \<forall>a \<in> set as. well_behaved (req_Job req) a \<Longrightarrow>
    healthy c \<Longrightarrow> grows ends_whole c c'"
proof (induction as arbitrary: front c calls)
  case (Cons a as)
  have good: "answers False (pushed (at_evs a))" "fits (map (onward (req_Job req)) (pushed (at_evs a)))"
      "at_acquire a \<noteq> Inl CtxErr" "\<not> at_ctx a" "undone (at_evs a) newJobQueue"
    using Cons.prems(2) by (simp_all add: well_behaved_def)
  note answered = answer_whole [OF _ assms(1)]
  show ?case
  proof (cases "at_acquire a")
    case (Inl e)
    with Cons.prems(1) good(3,4) answered [OF Cons.prems(3), of 503 "at e"] assms(2) show ?thesis
      by (auto split: if_splits)
  next
    case (Inr l)
    show ?thesis
    proof (cases "at_target a")
      case None
      with Inr Cons.prems(1) answered [OF Cons.prems(3), of 502 "''the provider has no connection''"] show ?thesis
        by auto
    next
      case (Some target)
      with Inr Cons.prems(1) obtain started err c1 t1 where d:
        "srv_dispatch req body trailers (at_ctx a) (at_evs a) c target = Some ((started, err), c1, t1)"
        by (auto split: option.splits)
      obtain new where new: "cn_sent c1 = cn_sent c @ new" "loop_post (req_Job req) False started err new"
          "err \<noteq> None \<and> \<not> started \<longrightarrow> new = []"
        by (rule srv_dispatch_answers [OF d good(1)])
      have out: "healthy c1 \<and> (err = None \<or> err = Some ErrProviderGone \<or> \<not> started \<and> (\<exists>why. err = Some (ErrProviderFail why) \<and> length why < 65536))"
        using d
      proof (cases rule: srv_dispatch_turn)
        case (asked job t t')
        then show ?thesis
          by (rule answer_loop_whole) (use good Cons.prems(3) in simp_all)
      qed (use Cons.prems(3) in simp)
      note turn = Cons.prems(1) [unfolded relay_loop.simps Inr Some d sum.case option.case prod.case Let_def]
      have more: "grows ends_whole c c'" if "grows ends_whole c1 c'"
        using that new(1) by (auto simp: grows_def ends_whole_def)
      from out consider "err = None" | "err = Some ErrProviderGone" "started" | "err = Some ErrProviderGone" "\<not> started"
        | why where "err = Some (ErrProviderFail why)" "\<not> started" "length why < 65536"
        by blast
      then show ?thesis
      proof cases
        case 1
        with turn new(1,2) show ?thesis
          by (auto simp: grows_def loop_post_def ends_whole_def)
      next
        case 2
        have "\<not> is_hello (Fail (req_Job req) (et ErrProviderGone))" "ok_msg (Fail (req_Job req) (et ErrProviderGone))"
          using assms by simp_all
        from send_healthy [OF conjunct1 [OF out] this] obtain c2 where
          "send (Fail (req_Job req) (et ErrProviderGone)) c1 = (Inr (), c2)" "cn_sent c2 = cn_sent c1 @ [Fail (req_Job req) (et ErrProviderGone)]"
          by blast
        with turn 2 have "grows ends_whole c1 c'"
          by (auto simp: grows_def ends_whole_def)
        then show ?thesis
          by (rule more)
      next
        case 3
        with turn obtain calls1 where "relay_loop at et req body trailers True as c1 = (calls1, Some c')"
          by (auto split: prod.splits)
        from Cons.IH [OF this] Cons.prems(2) out more show ?thesis
          by simp
      next
        case 4
        with turn have "c' = answer (req_Job req) 502 why c1"
          by simp
        with answered [OF conjunct1 [OF out], of 502 why] 4 more show ?thesis
          by simp
      qed
    qed
  qed
qed simp

end
