(* ===== verification/Endpoint_Theorems.thy ===== *)
theory Endpoint_Theorems
  imports Endpoint Answers
begin

text \<open>The properties of an endpoint's slots, of what it announces, and of the provider side of a job.\<close>

subsection \<open>Slots\<close>

text \<open>
  The endpoint as its jobs use it: \<open>es_active s\<close> counts the goroutines that are between their
  \<open>take\<close> and their \<open>give\<close> for service \<open>s\<close>.
\<close>

record esys =
  es_ep :: endpoint
  es_active :: "string \<Rightarrow> nat"

inductive slot_step :: "esys \<Rightarrow> esys \<Rightarrow> bool" where
  took: "provide_enter s (es_ep z) = Entered p e \<Longrightarrow>
    slot_step z (z\<lparr>es_ep := e, es_active := (es_active z)(s := Suc (es_active z s))\<rparr>)"
| refused: "provide_enter s (es_ep z) = TurnedDown p e \<Longrightarrow>
    slot_step z (z\<lparr>es_ep := e\<rparr>)"
| gave: "es_active z s = Suc n \<Longrightarrow>
    slot_step z (z\<lparr>es_ep := ep_give s (es_ep z), es_active := (es_active z)(s := n)\<rparr>)"
| attached: "slot_step z (z\<lparr>es_ep := attach c (es_ep z)\<rparr>)"

definition slots_start :: "Conf \<Rightarrow> esys" where
  "slots_start cfg = \<lparr>es_ep = NewEndpoint cfg, es_active = (\<lambda>_. 0)\<rparr>"

definition slots_inv :: "esys \<Rightarrow> bool" where
  "slots_inv z \<longleftrightarrow> (\<forall>s. ep_running (es_ep z) s = int (es_active z s) \<and>
     es_active z s \<le> (case ep_byName (es_ep z) s of Some p \<Rightarrow> unat (pv_MaxConcurrent p) | None \<Rightarrow> 0))"

lemma slots_inv_step:
  assumes "slot_step z z'" "slots_inv z"
  shows "slots_inv z'"
  using assms
proof induction
  case (took s z p e)
  then have "int (es_active z s) < int (unat (pv_MaxConcurrent p))"
    and "e = (es_ep z)\<lparr>ep_running := (ep_running (es_ep z))(s := ep_running (es_ep z) s + 1)\<rparr>"
    by (auto simp: ep_take_def slots_inv_def split: if_splits)
  moreover from this(1) have "Suc (es_active z s) \<le> unat (pv_MaxConcurrent p)"
    by (simp only: of_nat_less_iff Suc_le_eq)
  ultimately show ?case
    using took by (auto simp: slots_inv_def split: option.splits)
next
  case (gave z s n)
  then have "Suc n \<le> (case ep_byName (es_ep z) s of Some p \<Rightarrow> unat (pv_MaxConcurrent p) | None \<Rightarrow> 0)"
    "ep_running (es_ep z) s = int (Suc n)"
    by (metis slots_inv_def)+
  with gave show ?case
    by (auto simp: slots_inv_def ep_give_def split: option.splits)
qed (auto simp: slots_inv_def ep_take_def attach_def split: if_splits)


lemma slots_inv_start: "slots_inv (slots_start cfg)"
  by (simp add: slots_inv_def slots_start_def NewEndpoint_def)

interpretation slot_sys: transition_system "\<lambda>z. \<exists>cfg. z = slots_start cfg" slot_step slots_inv
  by unfold_locales (auto intro: slots_inv_step slots_inv_start)

lemma slot_byName: "slot_step\<^sup>*\<^sup>* z z' \<Longrightarrow> ep_byName (es_ep z') = ep_byName (es_ep z)"
proof (induction rule: rtranclp_induct)
  case (step y z)
  from step.hyps(2) have "ep_byName (es_ep z) = ep_byName (es_ep y)"
    by (induction) (auto simp: ep_take_def ep_give_def attach_def split: if_splits)
  with step.IH show ?case
    by simp
qed simp

text \<open>
  C27. The upstream is never asked for more than was announced. However jobs start and end, over any
  number of connections, the jobs of a service that are running are exactly what the endpoint
  counts, at most the service's \<open>max_concurrent\<close>, and none for a service that is not provided.
\<close>

theorem upstream_load_bounded:
  assumes "slot_step\<^sup>*\<^sup>* (slots_start cfg) z"
  shows "ep_running (es_ep z) s = int (es_active z s) \<and>
    es_active z s \<le> (case ep_byName (NewEndpoint cfg) s of Some p \<Rightarrow> unat (pv_MaxConcurrent p) | None \<Rightarrow> 0)"
proof -
  have "slots_inv z"
    using slot_sys.reachable_inv [OF _ assms] by blast
  moreover have "ep_byName (es_ep z) = ep_byName (NewEndpoint cfg)"
    using slot_byName [OF assms] by (simp add: slots_start_def)
  ultimately show ?thesis
    by (simp add: slots_inv_def)
qed

definition one_slot :: Conf where
  "one_slot = (new_conf None)\<lparr>cf_Provide := [\<lparr>pv_Service = ''s'', pv_Upstream = ''h:1'', pv_MaxConcurrent = 1, pv_Priority = 0\<rparr>]\<rparr>"

definition one_slot_taken :: esys where
  "one_slot_taken = \<lparr>es_ep = snd (ep_take ''s'' 1 (NewEndpoint one_slot)), es_active = (\<lambda>_. 0)(''s'' := 1)\<rparr>"

theorem upstream_load_bounded_witness: "ep_running (es_ep one_slot_taken) ''s'' = 1"
proof -
  have "slot_step (slots_start one_slot) one_slot_taken"
    using slot_step.took [of "''s''" "slots_start one_slot" "\<lparr>pv_Service = ''s'', pv_Upstream = ''h:1'', pv_MaxConcurrent = 1, pv_Priority = 0\<rparr>"
        "snd (ep_take ''s'' 1 (NewEndpoint one_slot))"]
    by (simp add: slots_start_def one_slot_taken_def NewEndpoint_def one_slot_def ep_take_def)
  from upstream_load_bounded [OF r_into_rtranclp [of slot_step, OF this], of "''s''"] show ?thesis
    by (simp add: one_slot_taken_def)
qed

text \<open>
  Every slot a job takes is given back. On every way through \<open>provide\<close> that returns, the counts
  of the endpoint are what they were before; a job for which there was no slot has ended the
  connection instead.
\<close>

theorem provide_gives_its_slot_back:
  assumes "provide err_text new_request Do cause req evs q e c = Some (e', c')"
  shows "e' = e \<and>
    (\<forall>p. ep_byName e (req_Service req) = Some p \<longrightarrow> ep_running e (req_Service req) \<ge> int (unat (pv_MaxConcurrent p)) \<longrightarrow>
       cn_err c' \<noteq> None)"
proof -
  have give: "ep_give s e' = e" if "ep_take s n e = (True, e')" for s n e'
    using that by (auto simp: ep_take_def ep_give_def split: if_splits)
  have refused: "e' = e" if "ep_take s n e = (False, e')" for s n e'
    using that by (auto simp: ep_take_def split: if_splits)
  have err: "cn_err (endJob j (cn_fail x c)) \<noteq> None" for j x
    by (auto simp: endJob_eq cn_fail_eq close_all_def fail_mark_def forget_def on_queue_def split: option.split)
  show ?thesis
  proof (cases "ep_byName e (req_Service req)")
    case None
    with assms show ?thesis
      by (simp add: provide_eq Let_def)
  next
    case (Some p)
    obtain ok e1 where t: "ep_take (req_Service req) (pv_MaxConcurrent p) e = (ok, e1)" by fastforce
    show ?thesis
    proof (cases ok)
      case True
      with assms Some t have "e' = ep_give (req_Service req) e1"
        by (auto simp: provide_eq Let_def split: option.splits sum.splits prod.splits)
      with give t True Some show ?thesis
        by (auto simp: ep_take_def split: if_splits)
    next
      case False
      with assms Some t have "e' = e1" "c' = endJob (req_Job req) (cn_fail (ErrTooManyJobs (pv_MaxConcurrent p) (req_Service req)) c)"
        by (simp_all add: provide_eq Let_def)
      with refused t False err show ?thesis
        by simp
    qed
  qed
qed

definition open_conn :: conn where
  "open_conn = (newConn \<lparr>rd_data = [], rd_end = EOF\<rparr> \<lparr>wr_data = [], wr_script = []\<rparr> RoleClient ''p'')
     \<lparr>cn_enc := \<lparr>e_w = \<lparr>wr_data = [], wr_script = []\<rparr>, e_role = RoleClient, e_sentHello = True\<rparr>\<rparr>"

definition job_queue_end :: jobQueue where
  "job_queue_end = jq_push (End 2 []) newJobQueue"

lemma collect_job_queue_end: "collect [] [] job_queue_end = Some (Inr ([], []), job_queue_end\<lparr>jq_items := []\<rparr>, [])"
  by (subst collect.simps) (simp add: job_queue_end_def jq_push_def newJobQueue_def jq_wake_def jq_next_items)

theorem provide_gives_its_slot_back_witness:
  "\<exists>c'. provide (\<lambda>_. ''no'') (\<lambda>_ _. None) (\<lambda>_. Inl ''down'') None (Request 2 ''s'' ''GET'' ''/'' []) [] job_queue_end
     (NewEndpoint one_slot) open_conn = Some (NewEndpoint one_slot, c')"
proof -
  obtain e' c' where p: "provide (\<lambda>_. ''no'') (\<lambda>_ _. None) (\<lambda>_. Inl ''down'') None (Request 2 ''s'' ''GET'' ''/'' []) [] job_queue_end
     (NewEndpoint one_slot) open_conn = Some (e', c')"
    by (simp add: provide_eq Let_def NewEndpoint_def one_slot_def ep_take_def collect_job_queue_end runUpstream_def HasPrefix_def)
  from provide_gives_its_slot_back [OF this] p show ?thesis
    by blast
qed

subsection \<open>The answer of a provider\<close>

lemma grows_chain: "grows P c c1 \<Longrightarrow> grows Q c1 c2 \<Longrightarrow> (\<And>xs ys. P xs \<Longrightarrow> Q ys \<Longrightarrow> R (xs @ ys)) \<Longrightarrow> grows R c c2"
  by (fastforce simp: grows_def)

definition bodies_of :: "u64 \<Rightarrow> message list \<Rightarrow> bool" where
  "bodies_of job ms \<longleftrightarrow> (\<forall>m \<in> set ms. \<exists>bs. m = Body job bs)"

lemma bodies_answer: "bodies_of job ms \<Longrightarrow> answers True (ms @ ns) = answers True ns"
  by (induction ms) (auto simp: bodies_of_def)

lemma send_body: "send (Body job bs) c = (r, c') \<Longrightarrow> grows (bodies_of job) c c'"
  by (cases r) (auto simp: grows_def bodies_of_def dest: send_sent)

lemma copy_body_bodies:
  "copy_body job reads c = Some (r, c') \<Longrightarrow> grows (bodies_of job) c c' \<and> (healthy c \<longrightarrow> healthy c')"
proof (induction job reads c rule: copy_body.induct)
  case (2 job bs err reads c)
  obtain r1 c1 where s: "(if bs \<noteq> [] then send (Body job bs) c else (Inr (), c)) = (r1, c1)" by fastforce
  have c1: "grows (bodies_of job) c c1" "healthy c \<longrightarrow> healthy c1"
    using s send_body [of job bs c r1 c1] send_keeps_healthy [of c "Body job bs" r1 c1]
    by (auto simp: grows_def bodies_of_def split: if_splits)
  show ?case
  proof (cases r1)
    case (Inl e)
    with s c1 "2.prems" show ?thesis by simp
  next
    case (Inr u)
    show ?thesis
    proof (cases err)
      case None
      with Inr s "2.prems" have "copy_body job reads c1 = Some (r, c')" by simp
      from "2.IH" [OF s [symmetric] Inr None this] have rest: "grows (bodies_of job) c1 c'" "healthy c1 \<longrightarrow> healthy c'"
        by blast+
      have "grows (bodies_of job) c c'"
        by (rule grows_chain [OF c1(1) rest(1)]) (auto simp: bodies_of_def)
      with c1(2) rest(2) show ?thesis by blast
    next
      case (Some e)
      with Inr s "2.prems" have "c' = c1"
        by (cases e) simp_all
      with c1 show ?thesis by simp
    qed
  qed
qed simp

text \<open>A body whose reader comes to an end or fails is copied to an end.\<close>

lemma copy_body_returns: "\<exists>x \<in> set reads. snd x \<noteq> None \<Longrightarrow> copy_body job reads c \<noteq> None"
proof (induction job reads c rule: copy_body.induct)
  case (2 job bs err reads c)
  obtain r1 c1 where s: "(if bs \<noteq> [] then send (Body job bs) c else (Inr (), c)) = (r1, c1)" by fastforce
  show ?case
  proof (cases r1)
    case (Inr u)
    show ?thesis
    proof (cases err)
      case None
      with "2.IH" [OF s [symmetric] Inr None] "2.prems" s Inr show ?thesis
        by simp
    next
      case (Some e)
      with s Inr show ?thesis
        by (cases e) simp_all
    qed
  qed (use s in simp)
qed simp

text \<open>The answer of a job: begun and not ended when the upstream failed, whole when it did not.\<close>

definition upstream_part :: "u64 \<Rightarrow> peer_error + unit \<Rightarrow> message list \<Rightarrow> bool" where
  "upstream_part job r ms \<longleftrightarrow> answers False ms \<and> (\<forall>m \<in> set ms. JobID m = Some job) \<and>
     (case r of Inl _ \<Rightarrow> \<forall>m \<in> set ms. \<not> is_last m | Inr _ \<Rightarrow> ms \<noteq> [] \<and> (\<exists>ts. last ms = End job ts))"

lemma upstream_part_begun:
  assumes "bodies_of job ms"
  shows "upstream_part job (Inl e) (Response job st hs # ms)" "upstream_part job (Inr u) (Response job st hs # ms @ [End job ts])"
  using assms bodies_answer [OF assms, of "[]"] bodies_answer [OF assms, of "[End job ts]"]
  by (auto simp: upstream_part_def bodies_of_def)

lemma runUpstream_part:
  assumes "runUpstream new_request Do req p body c = Some (r, c')"
  shows "grows (upstream_part (req_Job req) r) c c' \<and> (healthy c \<longrightarrow> healthy c')"
proof -
  let ?job = "req_Job req"
  have nil: "grows (upstream_part ?job (Inl e)) c c" for e
    by (simp add: grows_def upstream_part_def)
  show ?thesis
  proof (cases "\<exists>res. Do (upstream_request_of req p body) = Inr res \<and> HasPrefix (req_Target req) ''/'' \<and>
      new_request (req_Method req) (''http://'' @ pv_Upstream p @ req_Target req) = None \<and> 100 \<le> ur_StatusCode res \<and> ur_StatusCode res \<le> 599")
    case False
    with assms obtain e where "r = Inl e" "c' = c"
      by (auto simp: runUpstream_def split: if_splits option.splits sum.splits)
    with nil show ?thesis by simp
  next
    case True
    then obtain res where res: "Do (upstream_request_of req p body) = Inr res" "HasPrefix (req_Target req) ''/''"
      "new_request (req_Method req) (''http://'' @ pv_Upstream p @ req_Target req) = None" "\<not> (ur_StatusCode res < 100 \<or> ur_StatusCode res > 599)"
      by auto
    let ?m = "Response ?job (of_int (ur_StatusCode res)) (fromHTTP (ur_Header res) [])"
    let ?e = "End ?job (fromHTTP (ur_Trailer res) [])"
    obtain r1 c1 where s: "send ?m c = (r1, c1)" by fastforce
    have c1: "healthy c \<longrightarrow> healthy c1"
      using send_keeps_healthy [OF _ _ s] by auto
    show ?thesis
    proof (cases r1)
      case (Inl e)
      with assms res s have "r = Inl e" "c' = c1"
        by (simp_all add: runUpstream_def)
      with c1 nil send_sent(2) [OF s [unfolded Inl]] show ?thesis
        by (simp add: grows_def)
    next
      case (Inr u)
      note sent = send_sent(1) [OF s [unfolded Inr]]
      obtain r2 c2 where b: "copy_body ?job (ur_reads res) c1 = Some (r2, c2)"
        using assms res s Inr by (auto simp: runUpstream_def split: option.splits)
      from copy_body_bodies [OF b] obtain ms where ms: "cn_sent c2 = cn_sent c1 @ ms" "bodies_of ?job ms" and c2: "healthy c1 \<longrightarrow> healthy c2"
        by (auto simp: grows_def)
      note parts = upstream_part_begun [OF ms(2)]
      show ?thesis
      proof (cases r2)
        case (Inl e)
        with assms res s Inr b have "r = Inl e" "c' = c2"
          by (simp_all add: runUpstream_def)
        with sent ms parts c1 c2 show ?thesis
          by (simp add: grows_def)
      next
        case Inr2: (Inr v)
        have e: "send ?e c2 = (r, c')"
          using assms res s Inr b Inr2 by (simp add: runUpstream_def)
        have "grows (upstream_part ?job r) c c'"
          using sent ms(1) parts send_sent [of ?e c2] e by (cases r) (auto simp: grows_def)
        with send_keeps_healthy [OF _ _ e] c1 c2 show ?thesis
          by simp
      qed
    qed
  qed
qed

lemma runUpstream_returns:
  assumes "\<And>res. Do (upstream_request_of req p body) = Inr res \<Longrightarrow> \<exists>x \<in> set (ur_reads res). snd x \<noteq> None"
  shows "runUpstream new_request Do req p body c \<noteq> None"
proof (cases "Do (upstream_request_of req p body)")
  case (Inl e)
  then show ?thesis
    by (simp add: runUpstream_def split: option.split)
next
  case (Inr res)
  let ?m = "Response (req_Job req) (of_int (ur_StatusCode res)) (fromHTTP (ur_Header res) [])"
  obtain r1 c1 where s: "send ?m c = (r1, c1)" by fastforce
  obtain r2 c2 where b: "copy_body (req_Job req) (ur_reads res) c1 = Some (r2, c2)"
    using copy_body_returns [OF assms [OF Inr], of "req_Job req" c1] by auto
  show ?thesis
    by (cases r1; cases r2) (simp_all add: runUpstream_def Inr s b split: option.split)
qed

text \<open>Whether a text fits a FAIL; and one that is sent ends the answer, while one that is not leaves it as it was.\<close>

definition sendable :: "string \<Rightarrow> bool" where
  "sendable why \<longleftrightarrow> length why < 65536 \<and> ValidString why"

lemma send_fail_tells:
  assumes "grows (upstream_part job (Inl x)) c c1" "healthy c1" "job \<noteq> 0"
  shows "grows (\<lambda>ms. answers False ms \<and> (\<forall>m \<in> set ms. JobID m = Some job) \<and>
      (if sendable why then ms \<noteq> [] \<and> last ms = Fail job why else \<forall>m \<in> set ms. \<not> is_last m)) c
    (endJob job (snd (send (Fail job why) c1)))"
proof -
  from assms(1) obtain ms where ms: "cn_sent c1 = cn_sent c @ ms" "upstream_part job (Inl x) ms"
    by (auto simp: grows_def)
  show ?thesis
  proof (cases "sendable why")
    case True
    with send_healthy [OF assms(2), of "Fail job why"] assms(3) obtain c2 where
      "send (Fail job why) c1 = (Inr (), c2)" "cn_sent c2 = cn_sent c1 @ [Fail job why]"
      by (auto simp: sendable_def)
    with True ms answers_append_fail [of False ms job why] show ?thesis
      by (auto simp: grows_def upstream_part_def)
  next
    case False
    with send_unencodable [OF assms(2), of "Fail job why"] obtain e where "send (Fail job why) c1 = (Inl e, c1)"
      by (auto simp: sendable_def)
    with False ms show ?thesis
      by (simp add: grows_def upstream_part_def)
  qed
qed

text \<open>The failure \<open>provide\<close> comes to, as it is then told, if it comes to one.\<close>

definition told :: "(peer_error \<Rightarrow> string) \<Rightarrow> (string \<Rightarrow> string \<Rightarrow> string option) \<Rightarrow>
    (upstream_request \<Rightarrow> string + upstream_response) \<Rightarrow> peer_error option \<Rightarrow> message \<Rightarrow> qevent list \<Rightarrow> jobQueue \<Rightarrow>
    endpoint \<Rightarrow> conn \<Rightarrow> string option" where
  "told err_text new_request Do cause req evs q e c =
     (case ep_byName e (req_Service req) of
        None \<Rightarrow> Some (err_text (ErrNoService (req_Service req)))
      | Some p \<Rightarrow>
          (case collect [] evs q of
             None \<Rightarrow> None
           | Some (Inl err, _, _) \<Rightarrow> Some (reason err_text cause err)
           | Some (Inr (body, _), _, _) \<Rightarrow>
               (case runUpstream new_request Do req p body c of
                  Some (Inl err, _) \<Rightarrow> Some (reason err_text cause err)
                | _ \<Rightarrow> None)))"

text \<open>
  C28. A job that a provider takes on is answered to the end. On a connection that accepts writes, once the body of
  the request has come to its end one way or another, with an upstream whose answer comes to an end or fails
  when it is read, \<open>provide\<close> returns, whatever the request, the upstream and its answer are; the slot is given back,
  and what has been sent is one answer under the job's id, in the form the protocol gives it. If nothing failed it
  ends in the END; if something did it ends in a FAIL with that reason, unless the reason does not
  fit a FAIL: then the answer stays without an end.
\<close>

theorem provide_ends_its_answer:
  assumes "healthy c" "req_Job req \<noteq> 0" "collect [] evs q \<noteq> None"
    and "\<And>u res. Do u = Inr res \<Longrightarrow> \<exists>x \<in> set (ur_reads res). snd x \<noteq> None"
    and "\<And>p. ep_byName e (req_Service req) = Some p \<Longrightarrow> ep_running e (req_Service req) < int (unat (pv_MaxConcurrent p))"
  shows "\<exists>c' new. provide err_text new_request Do cause req evs q e c = Some (e, c') \<and> cn_sent c' = cn_sent c @ new \<and>
    answers False new \<and> (\<forall>m \<in> set new. JobID m = Some (req_Job req)) \<and>
    (case told err_text new_request Do cause req evs q e c of
       None \<Rightarrow> new \<noteq> [] \<and> (\<exists>ts. last new = End (req_Job req) ts)
     | Some why \<Rightarrow> if sendable why then new \<noteq> [] \<and> last new = Fail (req_Job req) why else \<forall>m \<in> set new. \<not> is_last m)"
proof -
  let ?job = "req_Job req" and ?provide = "provide err_text new_request Do cause req evs q e c"
  let ?told = "told err_text new_request Do cause req evs q e c"
  have same: "grows (upstream_part ?job (Inl ErrCtx)) c c"
    by (simp add: grows_def upstream_part_def)
  have fails: ?thesis
    if "?provide = Some (e, endJob ?job (snd (send (Fail ?job why) c1)))" "?told = Some why"
      "grows (upstream_part ?job (Inl x)) c c1" "healthy c1" for why c1 x
    using that(1,2) send_fail_tells [OF that(3,4) assms(2), of why] by (auto simp: grows_def)
  show ?thesis
  proof (cases "ep_byName e (req_Service req)")
    case None
    then show ?thesis
      by (intro fails [OF _ _ same assms(1)]) (simp_all add: provide_eq told_def Let_def)
  next
    case (Some p)
    let ?e1 = "e\<lparr>ep_running := (ep_running e)(req_Service req := ep_running e (req_Service req) + 1)\<rparr>"
    have t: "ep_take (req_Service req) (pv_MaxConcurrent p) e = (True, ?e1)" "ep_give (req_Service req) ?e1 = e"
      using assms(5) [OF Some] by (simp_all add: ep_take_def ep_give_def)
    obtain r0 q' evs' where col: "collect [] evs q = Some (r0, q', evs')"
      using assms(3) by (cases "collect [] evs q") auto
    show ?thesis
    proof (cases r0)
      case (Inl err)
      then show ?thesis
        by (intro fails [OF _ _ same assms(1)]) (simp_all add: provide_eq told_def Let_def Some t col)
    next
      case (Inr bt)
      obtain body ts where bt: "bt = (body, ts)" by fastforce
      have "runUpstream new_request Do req p body c \<noteq> None"
        by (rule runUpstream_returns) (rule assms(4))
      then obtain r c1 where run: "runUpstream new_request Do req p body c = Some (r, c1)"
        by auto
      from runUpstream_part [OF run] assms(1) have part: "grows (upstream_part ?job r) c c1" "healthy c1" by simp_all
      show ?thesis
      proof (cases r)
        case (Inl err)
        with part show ?thesis
          by (intro fails [of _ c1 err]) (simp_all add: provide_eq told_def Let_def Some t col Inr bt run)
      next
        case Inr2: (Inr u)
        then have "?provide = Some (e, endJob ?job c1)" "?told = None"
          by (simp_all add: provide_eq told_def Let_def Some t col Inr bt run)
        with part(1) Inr2 show ?thesis
          by (auto simp: grows_def upstream_part_def)
      qed
    qed
  qed
qed

lemma open_conn_healthy: "healthy open_conn"
  by (simp add: open_conn_def healthy_def newConn_def)

lemma one_slot_free: "ep_byName (NewEndpoint one_slot) ''s'' = Some p \<Longrightarrow> ep_running (NewEndpoint one_slot) ''s'' < int (unat (pv_MaxConcurrent p))"
  by (auto simp: NewEndpoint_def one_slot_def)

theorem provide_ends_its_answer_witness:
  "\<exists>c' new. provide (\<lambda>_. ''no'') (\<lambda>_ _. None) (\<lambda>_. Inl ''down'') None (Request 2 ''s'' ''GET'' ''/'' []) [] job_queue_end
     (NewEndpoint one_slot) open_conn = Some (NewEndpoint one_slot, c') \<and> cn_sent c' = new \<and> last new = Fail 2 ''no''"
proof -
  have "told (\<lambda>_. ''no'') (\<lambda>_ _. None) (\<lambda>_. Inl ''down'') None (Request 2 ''s'' ''GET'' ''/'' []) [] job_queue_end (NewEndpoint one_slot) open_conn =
      Some ''no''"
    by (simp add: told_def NewEndpoint_def one_slot_def collect_job_queue_end runUpstream_def HasPrefix_def reason_def)
  moreover have "sendable ''no''"
  proof -
    have "ValidString ''no''" by code_simp
    then show ?thesis by (simp add: sendable_def)
  qed
  moreover have "cn_sent open_conn = []"
    by (simp add: open_conn_def newConn_def)
  ultimately show ?thesis
    using provide_ends_its_answer [OF open_conn_healthy, of "Request 2 ''s'' ''GET'' ''/'' []" "[]" job_queue_end "\<lambda>_. Inl ''down''"
        "NewEndpoint one_slot" "\<lambda>_. ''no''" "\<lambda>_ _. None" None] collect_job_queue_end one_slot_free
    by auto
qed

text \<open>
  C39. An error text that does not fit a FAIL is never told. When the upstream cannot be asked and the
  reason is longer than 65535 bytes or not UTF-8, \<open>provide\<close> returns having sent nothing, on a connection that
  stays up: the other side goes on waiting for an answer to the job.
\<close>

theorem unsendable_reason_is_silent:
  assumes "ep_byName e (req_Service req) = Some p" "ep_running e (req_Service req) < int (unat (pv_MaxConcurrent p))"
    and "collect [] evs q = Some (Inr (body, ts), q', evs')" "HasPrefix (req_Target req) ''/''"
    and "new_request (req_Method req) (''http://'' @ pv_Upstream p @ req_Target req) = None"
    and "Do (upstream_request_of req p body) = Inl why"
    and "healthy c" "cause = None" "length (err_text (ErrUpstream why)) > 65535 \<or> \<not> ValidString (err_text (ErrUpstream why))"
  shows "provide err_text new_request Do cause req evs q e c = Some (e, endJob (req_Job req) c) \<and>
    cn_sent (endJob (req_Job req) c) = cn_sent c \<and> healthy (endJob (req_Job req) c)"
proof -
  have run: "runUpstream new_request Do req p body c = Some (Inl (ErrUpstream why), c)"
    using assms(4-6) by (simp add: runUpstream_def)
  have "reason err_text cause (ErrUpstream why) = err_text (ErrUpstream why)"
    using assms(8) by (simp add: reason_def)
  then obtain x where "send (Fail (req_Job req) (reason err_text cause (ErrUpstream why))) c = (Inl x, c)"
    using send_unencodable [OF assms(7), of "Fail (req_Job req) (err_text (ErrUpstream why))"] assms(9) by auto
  moreover have "ep_take (req_Service req) (pv_MaxConcurrent p) e =
      (True, e\<lparr>ep_running := (ep_running e)(req_Service req := ep_running e (req_Service req) + 1)\<rparr>)"
    using assms(2) by (simp add: ep_take_def)
  ultimately have "provide err_text new_request Do cause req evs q e c = Some (e, endJob (req_Job req) c)"
    using assms(1,3) run by (simp add: provide_eq Let_def ep_give_def)
  with assms(7) show ?thesis
    by simp
qed

theorem unsendable_reason_is_silent_witness:
  "provide (\<lambda>_. replicate 70000 (CHR ''x'')) (\<lambda>_ _. None) (\<lambda>_. Inl ''down'') None (Request 2 ''s'' ''GET'' ''/'' []) [] job_queue_end
     (NewEndpoint one_slot) open_conn = Some (NewEndpoint one_slot, endJob 2 open_conn) \<and> cn_sent (endJob 2 open_conn) = []"
proof -
  have "ep_byName (NewEndpoint one_slot) ''s'' = Some \<lparr>pv_Service = ''s'', pv_Upstream = ''h:1'', pv_MaxConcurrent = 1, pv_Priority = 0\<rparr>"
    "cn_sent open_conn = []"
    by (simp_all add: NewEndpoint_def one_slot_def open_conn_def newConn_def)
  with unsendable_reason_is_silent [of "NewEndpoint one_slot" "Request 2 ''s'' ''GET'' ''/'' []"
      "\<lparr>pv_Service = ''s'', pv_Upstream = ''h:1'', pv_MaxConcurrent = 1, pv_Priority = 0\<rparr>" "[]" job_queue_end "[]" "[]"
      "job_queue_end\<lparr>jq_items := []\<rparr>" "[]" "\<lambda>_ _. None" "\<lambda>_. Inl ''down''" "''down''" open_conn None "\<lambda>_. replicate 70000 (CHR ''x'')"]
  show ?thesis
    using open_conn_healthy collect_job_queue_end by (simp add: HasPrefix_def) (simp add: NewEndpoint_def)
qed

subsection \<open>What an endpoint announces\<close>

lemma register_loop_accepts:
  "distinct (map pi_Service infos) \<Longrightarrow> seen \<inter> pi_Service ` set infos = {} \<Longrightarrow>
   \<exists>added' p'. register_loop target name seen added infos p = (Inr added', p')"
proof (induction infos arbitrary: seen added p)
  case (Cons info infos)
  obtain i p1 where "new_provider name (pi_Service info) (pi_MaxConcurrent info) (pi_Priority info) target p = (i, p1)"
    by fastforce
  moreover have "insert (pi_Service info) seen \<inter> pi_Service ` set infos = {}"
    using Cons.prems by auto
  ultimately show ?case
    using Cons.IH [of "insert (pi_Service info) seen" "added @ [i]" "Add i p1"] Cons.prems by auto
qed simp

lemma hello_fits:
  assumes "conf_ok cfg"
  shows "ok_msg (ep_hello (NewEndpoint cfg)) \<longleftrightarrow> length (cf_Provide cfg) \<le> 255"
proof -
  let ?infos = "hello_Providers (ep_hello (NewEndpoint cfg))"
  have v: "valid_name (cf_Name cfg)" "list_all provide_ok (cf_Provide cfg)"
    using assms by (simp_all add: conf_ok_def values_ok_def)
  have "ok_provider x" if "x \<in> set ?infos" for x
  proof -
    from that obtain y where y: "y \<in> set (cf_Provide cfg)" and x: "pi_Service x = pv_Service y" "pi_MaxConcurrent x = pv_MaxConcurrent y"
      by (auto simp: ep_hello_def NewEndpoint_def)
    from v(2) y have "provide_ok y" by (simp add: list_all_iff)
    then show ?thesis
      unfolding ok_provider_def provide_ok_def valid_name_def x by (auto simp: word_less_nat_alt)
  qed
  then show ?thesis
    using v(1) by (auto simp: ep_hello_def NewEndpoint_def valid_name_def)
qed

lemma hello_registers:
  assumes "conf_ok cfg"
  obtains added p' where "register target (cf_Name cfg) (hello_Providers (ep_hello (NewEndpoint cfg))) p = (Inr added, p')"
proof -
  have "distinct (map pi_Service (hello_Providers (ep_hello (NewEndpoint cfg))))"
    using assms by (simp add: conf_ok_def values_ok_def ep_hello_def NewEndpoint_def comp_def)
  from register_loop_accepts [OF this, of "{}" target "cf_Name cfg" "[]" p] that show thesis
    by (auto simp: register_def)
qed

text \<open>
  C37. What a conf provides can be announced and is accepted. The HELLO of an endpoint made from a
  conf the reader accepted fits the wire exactly when the conf has at most 255 \<open>[provide]\<close>
  sections, and the server's \<open>register\<close> never refuses it.
\<close>

theorem conf_is_announced:
  assumes "conf_ok cfg"
  shows "((\<exists>bs. Encode [] (ep_hello (NewEndpoint cfg)) = Inr bs) \<longleftrightarrow> length (cf_Provide cfg) \<le> 255) \<and>
    (\<exists>added p'. register target (cf_Name cfg) (hello_Providers (ep_hello (NewEndpoint cfg))) p = (Inr added, p'))"
  using hello_fits [OF assms] hello_registers [OF assms, of target p] by (simp add: Encode_Inr_iff) blast

lemma one_slot_ok: "conf_ok one_slot"
  by code_simp

theorem conf_is_announced_witness: "\<exists>bs. Encode [] (ep_hello (NewEndpoint one_slot)) = Inr bs"
proof -
  have "length (cf_Provide one_slot) \<le> 255"
    by (simp add: one_slot_def)
  with conf_is_announced [OF one_slot_ok, of "()" "New 5"] show ?thesis
    by blast
qed

end
