(* ===== verification/Slot_Race.thy ===== *)
theory Slot_Race
  imports Server_System Endpoint_Theorems
begin

text \<open>
  Who counts a slot when. The server counts a provider's slot by its lease, the provider by the
  goroutine of \<open>provide\<close>; both follow one attempt, but not at the same moments. This theory
  puts the pool and one endpoint side by side, for one service and one provider of it, and follows every
  attempt by its lease. It starts with an endpoint none of whose slots is held by an attempt of an earlier connection.
\<close>

text \<open>
  Where the provider stands with the attempt of a lease: the REQUEST has not been sent, it is under
  way, its goroutine has taken a slot; the lease was released before the slot was taken, the slot is
  taken although the answer has been ended or the lease released, the slot was given back, or
  there was none and the connection was failed.
\<close>

datatype attempt_at = NotSent | Sent | Busy | Late | Lingering | Given | TurnedAway

fun after_release :: "attempt_at \<Rightarrow> attempt_at" where
  "after_release Sent = Late"
| "after_release Busy = Lingering"
| "after_release a = a"

record race =
  rc_sys :: "nat psys"
  rc_ep :: endpoint
  rc_at :: "nat \<Rightarrow> attempt_at"

definition set_at :: "nat \<Rightarrow> attempt_at \<Rightarrow> race \<Rightarrow> race" where
  "set_at l a r = r\<lparr>rc_at := (rc_at r)(l := a)\<rparr>"

text \<open>\<open>i\<close> is the provider in the pool, \<open>s\<close> its service and \<open>p\<close> its section in the endpoint's conf.\<close>

inductive race_step :: "nat \<Rightarrow> string \<Rightarrow> Provide \<Rightarrow> race \<Rightarrow> race \<Rightarrow> bool" for i s p where
  pool: "pool_step (rc_sys r) y \<Longrightarrow>
    race_step i s p r (r\<lparr>rc_sys := y, rc_at := (\<lambda>l. if l \<in> live (y_pool (rc_sys r)) i \<and> l \<notin> live (y_pool y) i
      then after_release (rc_at r l) else rc_at r l)\<rparr>)"
| request: "l \<in> y_held (rc_sys r) \<Longrightarrow> l \<in> live (y_pool (rc_sys r)) i \<Longrightarrow> rc_at r l = NotSent \<Longrightarrow>
    race_step i s p r (set_at l Sent r)"
| takes: "rc_at r l = Sent \<Longrightarrow> provide_enter s (rc_ep r) = Entered p e \<Longrightarrow>
    race_step i s p r (set_at l Busy (r\<lparr>rc_ep := e\<rparr>))"
| takes_late: "rc_at r l = Late \<Longrightarrow> provide_enter s (rc_ep r) = Entered p e \<Longrightarrow>
    race_step i s p r (set_at l Lingering (r\<lparr>rc_ep := e\<rparr>))"
| turned_away: "rc_at r l \<in> {Sent, Late} \<Longrightarrow> provide_enter s (rc_ep r) = TurnedDown p e \<Longrightarrow>
    race_step i s p r (set_at l TurnedAway (r\<lparr>rc_ep := e\<rparr>))"
| ends: "rc_at r l = Busy \<Longrightarrow> race_step i s p r (set_at l Lingering r)"
| gives: "rc_at r l = Lingering \<Longrightarrow>
    race_step i s p r (set_at l Given (r\<lparr>rc_ep := ep_give s (rc_ep r)\<rparr>))"

definition race_init :: "int \<Rightarrow> nat \<Rightarrow> string \<Rightarrow> Provide \<Rightarrow> race \<Rightarrow> bool" where
  "race_init t i s p r \<longleftrightarrow> reachable t (rc_sys r) \<and> i < p_nprov (y_pool (rc_sys r)) \<and>
     Slots (p_prov (y_pool (rc_sys r)) i) = pv_MaxConcurrent p \<and> live (y_pool (rc_sys r)) i = {} \<and>
     ep_running (rc_ep r) s = 0 \<and> rc_at r = (\<lambda>_. NotSent)"

definition taken_at :: "race \<Rightarrow> nat set" where
  "taken_at r = {l. rc_at r l \<in> {Busy, Lingering}}"

definition race_inv :: "nat \<Rightarrow> string \<Rightarrow> Provide \<Rightarrow> race \<Rightarrow> bool" where
  "race_inv i s p r \<longleftrightarrow> sys_inv (rc_sys r) \<and> i < p_nprov (y_pool (rc_sys r)) \<and>
     Slots (p_prov (y_pool (rc_sys r)) i) = pv_MaxConcurrent p \<and>
     (\<forall>l. rc_at r l \<in> {Sent, Busy} \<longrightarrow> l \<in> live (y_pool (rc_sys r)) i) \<and>
     finite (taken_at r) \<and> ep_running (rc_ep r) s = int (card (taken_at r))"

lemma pool_step_slots:
  assumes step: "pool_step y z" and inv: "sys_inv y" and i: "i < p_nprov (y_pool y)"
  shows "i < p_nprov (y_pool z) \<and> Slots (p_prov (y_pool z) i) = Slots (p_prov (y_pool y) i)"
proof -
  have p: "pool_inv (y_pool y)" "counted (y_pool y)" and lp: "leases_placed y"
    using inv by (simp_all add: sys_inv_def pool_inv_def)
  have same: ?thesis if "same_offer (y_pool y) (y_pool z)"
    using same_offer_sel [OF that] i by simp
  from step show ?thesis
  proof cases
    case (add peer service slots prio target j q)
    then show ?thesis
      using Add_offer(2) [OF p(1) add(2), of i] Add_frame(2,3) [OF p(1) add(2)] i by (simp add: offer_of_def)
  next
    case (remove j)
    then show ?thesis
      using Remove_sel [OF p(2) remove(2)] i by simp
  next
    case (give w l)
    then show ?thesis
      using same Release_offer [OF p(2)] placed_giving [OF lp] by simp
  next
    case (release l)
    then show ?thesis
      using same Release_offer [OF p(2)] placed_held [OF lp] by simp
  qed (rule same, simp add: Acquire_offer recv_offer abandon_offer)+
qed

lemma after_release_taken: "after_release a \<in> {Busy, Lingering} \<longleftrightarrow> a \<in> {Busy, Lingering}" "after_release a \<notin> {Sent, Busy}"
  by (cases a; simp)+

lemma taken_at_set: "taken_at (set_at l a r) = (if a \<in> {Busy, Lingering} then insert l (taken_at r) else taken_at r - {l})"
  by (auto simp: taken_at_def set_at_def)

lemma race_step_inv:
  assumes "race_inv i s p r" "race_step i s p r r'"
  shows "race_inv i s p r'"
proof -
  have inv: "sys_inv (rc_sys r)" "i < p_nprov (y_pool (rc_sys r))" "Slots (p_prov (y_pool (rc_sys r)) i) = pv_MaxConcurrent p"
      and lv: "\<And>l. rc_at r l \<in> {Sent, Busy} \<Longrightarrow> l \<in> live (y_pool (rc_sys r)) i"
      and cnt: "finite (taken_at r)" "ep_running (rc_ep r) s = int (card (taken_at r))"
    using assms(1) unfolding race_inv_def by blast+
  have ep: "taken_at (r\<lparr>rc_ep := e\<rparr>) = taken_at r" for e
    by (simp add: taken_at_def)
  from assms(2) show ?thesis
  proof cases
    case (pool y)
    have "taken_at r' = taken_at r"
      unfolding taken_at_def using after_release_taken(1) by (simp add: pool(1)) blast
    moreover have "l \<in> live (y_pool y) i" if "rc_at r' l \<in> {Sent, Busy}" for l
      using that lv [of l] after_release_taken(2) [of "rc_at r l"]
      by (cases "l \<in> live (y_pool (rc_sys r)) i \<and> l \<notin> live (y_pool y) i") (simp_all add: pool(1))
    moreover have "rc_sys r' = y" "rc_ep r' = rc_ep r"
      by (simp_all add: pool(1))
    ultimately show ?thesis
      using pool_step_slots [OF pool(2) inv(1,2)] pool_step_inv [OF pool(2) inv(1)] inv(3) cnt
      unfolding race_inv_def by metis
  next
    case (request l)
    have "l \<notin> taken_at r"
      by (simp add: taken_at_def request)
    then show ?thesis
      using inv lv cnt request by (auto simp: race_inv_def taken_at_set) (auto simp: set_at_def split: if_splits)
  next
    case (takes l e)
    have "l \<notin> taken_at r" "ep_running e s = ep_running (rc_ep r) s + 1"
      using takes by (auto simp: taken_at_def ep_take_def split: if_splits)
    then show ?thesis
      using inv lv cnt takes by (auto simp: race_inv_def taken_at_set ep) (auto simp: set_at_def split: if_splits)
  next
    case (takes_late l e)
    have "l \<notin> taken_at r" "ep_running e s = ep_running (rc_ep r) s + 1"
      using takes_late by (auto simp: taken_at_def ep_take_def split: if_splits)
    then show ?thesis
      using inv lv cnt takes_late by (auto simp: race_inv_def taken_at_set ep) (auto simp: set_at_def split: if_splits)
  next
    case (turned_away l e)
    have "l \<notin> taken_at r" "ep_running e s = ep_running (rc_ep r) s"
      using turned_away by (auto simp: taken_at_def ep_take_def split: if_splits)
    then show ?thesis
      using inv lv cnt turned_away by (auto simp: race_inv_def taken_at_set ep) (auto simp: set_at_def split: if_splits)
  next
    case (ends l)
    have "l \<in> taken_at r"
      by (simp add: taken_at_def ends)
    then show ?thesis
      using inv lv cnt ends by (auto simp: race_inv_def taken_at_set insert_absorb) (auto simp: set_at_def split: if_splits)
  next
    case (gives l)
    have l: "l \<in> taken_at r"
      by (simp add: taken_at_def gives)
    then have "0 < card (taken_at r)"
      using cnt(1) by (auto simp: card_gt_0_iff)
    then have "int (card (taken_at r - {l})) = int (card (taken_at r)) - 1"
      using l by (simp add: card_Diff_singleton)
    then show ?thesis
      using inv lv cnt gives by (auto simp: race_inv_def taken_at_set ep ep_give_def) (auto simp: set_at_def split: if_splits)
  qed
qed

lemma race_init_inv: "race_init t i s p r \<Longrightarrow> race_inv i s p r"
  by (auto simp: race_init_def race_inv_def taken_at_def dest: reachable_sys_inv)

interpretation race_sys: transition_system "race_init t i s p" "race_step i s p" "race_inv i s p"
  by unfold_locales (auto intro: race_step_inv race_init_inv)

text \<open>
  C32. A provider is never sent too much, only too early. However the pool hands out the leases of a
  provider and however late its goroutines are, if a REQUEST finds no slot left, which fails
  the whole connection, then either its own lease had been released before it was looked at, or
  there is an attempt whose slot is still taken although its answer has been ended or its lease
  released. Without such an attempt the server's count and the provider's agree.
\<close>

theorem turned_away_only_in_a_race:
  assumes "race_init t i s p r0" "(race_step i s p)\<^sup>*\<^sup>* r0 r"
    and "rc_at r l \<in> {Sent, Late}" "ep_take s (pv_MaxConcurrent p) (rc_ep r) = (False, e)"
  shows "rc_at r l = Late \<or> (\<exists>l'. rc_at r l' = Lingering)"
proof (rule ccontr)
  assume "\<not> ?thesis"
  then have l: "rc_at r l = Sent" and none: "taken_at r = {l. rc_at r l = Busy}"
    using assms(3) by (auto simp: taken_at_def)
  have inv: "race_inv i s p r"
    by (rule race_sys.reachable_inv [OF assms(1,2)])
  let ?live = "live (y_pool (rc_sys r)) i"
  have "insert l (taken_at r) \<subseteq> ?live" "l \<notin> taken_at r" "finite (taken_at r)"
    using inv l none by (auto simp: race_inv_def)
  then have "Suc (card (taken_at r)) \<le> card ?live"
    by (metis card_insert_disjoint card_mono finite_live)
  also have "\<dots> \<le> unat (pv_MaxConcurrent p)"
    using inv counted_slots [of "y_pool (rc_sys r)" i] by (simp add: race_inv_def sys_inv_def pool_inv_def)
  finally have "int (card (taken_at r)) < int (unat (pv_MaxConcurrent p))"
    by linarith
  moreover have "int (unat (pv_MaxConcurrent p)) \<le> int (card (taken_at r))"
    using assms(4) inv by (simp add: ep_take_def race_inv_def split: if_splits)
  ultimately show False
    by linarith
qed

text \<open>
  The race happens. One provider with one slot: its first attempt has ended its answer, the server has
  released the lease and given the next one, whose REQUEST arrives before the slot is given back.
\<close>

definition race_section :: Provide where
  "race_section = \<lparr>pv_Service = ''s'', pv_Upstream = ''h:1'', pv_MaxConcurrent = 1, pv_Priority = 0\<rparr>"

definition race_pool0 :: "nat psys" where
  "race_pool0 = (init_sys 9)\<lparr>y_pool := Add 0 (snd (new_provider ''p'' ''s'' 1 0 7 (New 9)))\<rparr>"

definition race_got :: "nat \<Rightarrow> nat psys \<Rightarrow> nat psys" where
  "race_got l y = y\<lparr>y_pool := snd (Acquire_enter ''s'' False (y_pool y)), y_held := insert l (y_held y)\<rparr>"

definition race_pool1 :: "nat psys" where "race_pool1 = race_got 0 race_pool0"
definition race_pool2 :: "nat psys" where "race_pool2 = race_pool1\<lparr>y_pool := Release 0 (y_pool race_pool1)\<rparr>"
definition race_pool3 :: "nat psys" where "race_pool3 = race_got 1 race_pool2"

definition race_state :: "nat psys \<Rightarrow> endpoint \<Rightarrow> (nat \<Rightarrow> attempt_at) \<Rightarrow> race" where
  "race_state y e at = \<lparr>rc_sys = y, rc_ep = e, rc_at = at\<rparr>"

definition race_end :: race where
  "race_end = race_state race_pool3 (snd (ep_take ''s'' 1 (NewEndpoint one_slot))) ((\<lambda>_. NotSent)(0 := Lingering, 1 := Sent))"

lemma race_facts:
  "fst (Acquire_enter ''s'' False (y_pool race_pool0)) = Got 0" "fst (Acquire_enter ''s'' False (y_pool race_pool2)) = Got 1"
  "p_nprov (y_pool race_pool0) = 1" "p_nlease (y_pool race_pool0) = 0" "Slots (p_prov (y_pool race_pool0) 0) = 1"
  "p_nlease (y_pool race_pool1) = 1" "l_provider (p_lease (y_pool race_pool1) 0) = 0" "\<not> l_released (p_lease (y_pool race_pool1) 0)"
  "p_nlease (y_pool race_pool3) = 2" "l_provider (p_lease (y_pool race_pool3) 1) = 0" "\<not> l_released (p_lease (y_pool race_pool3) 1)"
  "l_released (p_lease (y_pool race_pool3) 0)"
  by code_simp+

lemma race_pool_step:
  assumes "pool_step y y'" "\<And>l. after_release (at l) = at l"
  shows "race_step i s p (race_state y e at) (race_state y' e at)"
proof -
  let ?r = "\<lparr>rc_sys = y, rc_ep = e, rc_at = at\<rparr>"
  have "(\<lambda>l. if l \<in> live (y_pool y) i \<and> l \<notin> live (y_pool y') i then after_release (at l) else at l) = at"
    by (rule ext) (simp add: assms(2))
  then show ?thesis
    using race_step.pool [of ?r y' i s p] assms(1) by (simp only: race_state_def race.simps race.update_convs refl)
qed

lemma race_got_step: "fst (Acquire_enter ''s'' False (y_pool y)) = Got l \<Longrightarrow> pool_step y (race_got l y)"
  unfolding race_got_def by (rule pool_step.got [of "''s''" False]) (metis prod.collapse)

lemma race_starts: "race_init 9 0 ''s'' race_section (race_state race_pool0 (NewEndpoint one_slot) (\<lambda>_. NotSent))"
proof -
  have "pool_step (init_sys 9) race_pool0"
    unfolding race_pool0_def by (rule pool_step.add [of "''p''" "''s''" 1 0 7]) (simp add: init_sys_def new_provider_def New_def)
  then have "reachable 9 race_pool0"
    unfolding reachable_def by (rule r_into_rtranclp)
  then show ?thesis
    by (simp add: race_init_def race_state_def race_facts live_def race_section_def NewEndpoint_def)
qed

lemma race_reached:
  "(race_step 0 ''s'' race_section)\<^sup>*\<^sup>* (race_state race_pool0 (NewEndpoint one_slot) (\<lambda>_. NotSent)) race_end"
proof -
  let ?S = "race_step 0 ''s'' race_section"
  let ?e0 = "NewEndpoint one_slot" and ?e1 = "snd (ep_take ''s'' 1 (NewEndpoint one_slot))" and ?no = "\<lambda>_ :: nat. NotSent"
  have held: "0 \<in> y_held race_pool1" "1 \<in> y_held race_pool3"
    by (simp_all add: race_pool1_def race_pool3_def race_got_def)
  have live: "0 \<in> live (y_pool race_pool1) 0" "1 \<in> live (y_pool race_pool3) 0"
    using race_facts(6-11) by (simp_all add: live_def)
  have take: "ep_byName ?e0 ''s'' = Some race_section" "ep_take ''s'' (pv_MaxConcurrent race_section) ?e0 = (True, ?e1)"
    by (simp_all add: ep_take_def race_section_def NewEndpoint_def one_slot_def)
  have "?S (race_state race_pool0 ?e0 ?no) (race_state race_pool1 ?e0 ?no)"
    unfolding race_pool1_def by (rule race_pool_step [OF race_got_step [OF race_facts(1)]]) simp
  moreover have "?S (race_state race_pool1 ?e0 ?no) (race_state race_pool1 ?e0 (?no(0 := Sent)))"
    using race_step.request [of 0 "race_state race_pool1 ?e0 ?no" 0 "''s''" race_section] held live by (simp add: race_state_def set_at_def)
  moreover have "?S (race_state race_pool1 ?e0 (?no(0 := Sent))) (race_state race_pool1 ?e1 (?no(0 := Busy)))"
    using race_step.takes [of "race_state race_pool1 ?e0 (?no(0 := Sent))" 0 "''s''" race_section ?e1 0] take
    by (simp add: race_state_def set_at_def)
  moreover have "?S (race_state race_pool1 ?e1 (?no(0 := Busy))) (race_state race_pool1 ?e1 (?no(0 := Lingering)))"
    using race_step.ends [of "race_state race_pool1 ?e1 (?no(0 := Busy))" 0 0 "''s''" race_section] by (simp add: race_state_def set_at_def)
  moreover have "?S (race_state race_pool1 ?e1 (?no(0 := Lingering))) (race_state race_pool2 ?e1 (?no(0 := Lingering)))"
    unfolding race_pool2_def by (rule race_pool_step [OF pool_step.release [OF held(1)]]) simp
  moreover have "?S (race_state race_pool2 ?e1 (?no(0 := Lingering))) (race_state race_pool3 ?e1 (?no(0 := Lingering)))"
    unfolding race_pool3_def by (rule race_pool_step [OF race_got_step [OF race_facts(2)]]) simp
  moreover have "?S (race_state race_pool3 ?e1 (?no(0 := Lingering))) race_end"
    using race_step.request [of 1 "race_state race_pool3 ?e1 (?no(0 := Lingering))" 0 "''s''" race_section] held live
    by (simp add: race_end_def race_state_def set_at_def)
  ultimately show ?thesis
    by (meson converse_rtranclp_into_rtranclp rtranclp.rtrancl_refl)
qed

lemma race_end_refuses: "ep_take ''s'' (pv_MaxConcurrent race_section) (rc_ep race_end) = (False, rc_ep race_end)" "rc_at race_end 1 = Sent"
  by (simp_all add: race_end_def race_state_def race_section_def ep_take_def NewEndpoint_def)

theorem turned_away_only_in_a_race_witness: "\<exists>l'. rc_at race_end l' = Lingering"
  using turned_away_only_in_a_race [OF race_starts race_reached _ race_end_refuses(1), of 1] race_end_refuses(2) by simp

text \<open>
  C33. It happens although the server keeps count. There is a run of the pool and of a provider with
  one slot at whose end the server holds exactly one lease on it, as announced, and yet the REQUEST of
  that lease is turned away and the connection failed: the answer before it has been
  ended and its lease released, but its goroutine has not given the slot back yet.
\<close>

theorem turned_away_though_counted:
  "\<exists>r0 r. race_init 9 0 ''s'' race_section r0 \<and> (race_step 0 ''s'' race_section)\<^sup>*\<^sup>* r0 r \<and>
     rc_at r 1 = Sent \<and> live (y_pool (rc_sys r)) 0 = {1} \<and> unat (pv_MaxConcurrent race_section) = 1 \<and>
     (\<forall>err_text new_request Do cause evs q c. \<exists>c'.
        provide err_text new_request Do cause (Request job ''s'' m u hs) evs q (rc_ep r) c = Some (rc_ep r, c') \<and> cn_err c' \<noteq> None)"
proof -
  have "live (y_pool (rc_sys race_end)) 0 = {1}"
    using race_facts(9-12) by (auto simp: live_def race_end_def race_state_def less_Suc_eq numeral_2_eq_2)
  moreover have "ep_byName (rc_ep race_end) ''s'' = Some race_section"
    by (simp add: race_end_def race_state_def race_section_def ep_take_def NewEndpoint_def one_slot_def)
  then have "provide err_text new_request Do cause (Request job ''s'' m u hs) evs q (rc_ep race_end) c =
      Some (rc_ep race_end, endJob job (cn_fail (ErrTooManyJobs (pv_MaxConcurrent race_section) ''s'') c))"
    for err_text new_request Do cause evs q c
    using race_end_refuses(1) by (simp add: provide_eq Let_def)
  moreover have "cn_err (endJob job (cn_fail x c)) \<noteq> None" for x c
    by (auto simp: endJob_eq cn_fail_eq close_all_def fail_mark_def forget_def on_queue_def split: option.split)
  ultimately show ?thesis
    using race_starts race_reached race_end_refuses(2)
    by (intro exI [of _ "race_state race_pool0 (NewEndpoint one_slot) (\<lambda>_. NotSent)"] exI [of _ race_end]) (simp add: race_section_def)
qed

end
