(* ===== verification/Endpoint_Ports.thy ===== *)
theory Endpoint_Ports
  imports Endpoint
begin

text \<open>
  The consume ports of an endpoint: what \<open>Start\<close> opens and what \<open>Close\<close> leaves. Both roles open
  and close their ports through these two.
\<close>

subsection \<open>Opening and closing\<close>

definition ports_ok :: "net \<Rightarrow> bool" where
  "ports_ok n \<longleftrightarrow> (\<forall>p \<in> set (nt_open n). fst p < nt_next n)"

text \<open>\<open>holds_ports e ps n0 n\<close>: beyond what was open in \<open>n0\<close>, exactly the ports of \<open>e\<close> are, at the addresses \<open>ps\<close>.\<close>

definition holds_ports :: "endpoint \<Rightarrow> (string \<times> string) list \<Rightarrow> net \<Rightarrow> net \<Rightarrow> bool" where
  "holds_ports e ps n0 n \<longleftrightarrow> ports_ok n \<and> nt_next n0 \<le> nt_next n \<and>
     length (ep_listeners e) = length ps \<and> nt_open n = nt_open n0 @ zip (ep_listeners e) (map snd ps) \<and>
     ep_servers e = zip (ep_listeners e) (map fst ps) \<and> (\<forall>l \<in> set (ep_listeners e). nt_next n0 \<le> l)"

lemma close_port_open: "nt_open (close_port l n) = filter (\<lambda>p. fst p \<noteq> l) (nt_open n)" "nt_next (close_port l n) = nt_next n"
  by (simp_all add: close_port_def)

lemma close_ports_open:
  "nt_open (fold close_port ls n) = filter (\<lambda>p. fst p \<notin> set ls) (nt_open n)" "nt_next (fold close_port ls n) = nt_next n"
proof (induction ls arbitrary: n)
  case (Cons l ls)
  {
    case 1
    show ?case
      using Cons.IH(1) [of "close_port l n"] by (auto simp: close_port_open filter_filter intro: filter_cong)
  next
    case 2
    show ?case
      using Cons.IH(2) by (simp add: close_port_open)
  }
qed simp_all

lemma close_servers: "fold (\<lambda>(l, _). close_port l) ss n = fold close_port (map fst ss) n"
  by (induction ss arbitrary: n) (simp_all add: case_prod_beta)

lemma ports_ok_sub: "ports_ok n \<Longrightarrow> set (nt_open n') \<subseteq> set (nt_open n) \<Longrightarrow> nt_next n' = nt_next n \<Longrightarrow> ports_ok n'"
  by (auto simp: ports_ok_def)

lemma ep_Close_ports:
  assumes "holds_ports e ps n0 n" "ports_ok n0" "ep_Close e n = (e', n')"
  shows "nt_open n' = nt_open n0 \<and> ep_listeners e' = [] \<and> ep_servers e' = [] \<and> ports_ok n' \<and> nt_next n' = nt_next n"
proof -
  have e: "nt_open n = nt_open n0 @ zip (ep_listeners e) (map snd ps)" "length (ep_listeners e) = length ps"
      "ep_servers e = zip (ep_listeners e) (map fst ps)" "\<And>l. l \<in> set (ep_listeners e) \<Longrightarrow> nt_next n0 \<le> l"
    using assms(1) by (auto simp: holds_ports_def)
  have n': "nt_open n' = filter (\<lambda>p. fst p \<notin> set (ep_listeners e)) (nt_open n)" "nt_next n' = nt_next n"
    using assms(3) e(2,3) by (auto simp: ep_Close_def close_servers close_ports_open case_prod_beta intro: filter_cong)
  have "filter (\<lambda>p. fst p \<notin> set (ep_listeners e)) (nt_open n0) = nt_open n0"
    using assms(2) e(4) by (fastforce simp: filter_id_conv ports_ok_def)
  moreover have "filter (\<lambda>p. fst p \<notin> set (ep_listeners e)) (zip (ep_listeners e) xs) = []" for xs :: "string list"
    by (auto simp: filter_empty_conv dest: set_zip_leftD)
  ultimately have "nt_open n' = nt_open n0"
    by (simp add: n' e(1))
  moreover have "ports_ok n'"
    using assms(1) n' by (intro ports_ok_sub [of n n']) (auto simp: holds_ports_def)
  ultimately show ?thesis
    using assms(3) n'(2) by (auto simp: ep_Close_def)
qed

lemma start_loop_ports:
  assumes "start_loop os cs e n = (r, e', n')" "holds_ports e ps n0 n" "ports_ok n0"
  shows "case r of None \<Rightarrow> holds_ports e' (ps @ map (\<lambda>c. (co_Service c, co_Listen c)) cs) n0 n'
    | Some _ \<Rightarrow> nt_open n' = nt_open n0 \<and> ep_listeners e' = [] \<and> ep_servers e' = [] \<and> ports_ok n'"
  using assms(1,2)
proof (induction cs arbitrary: e n ps)
  case (Cons c cs)
  show ?case
  proof (cases "os (nt_open n) (co_Listen c)")
    case (Some err)
    with Cons.prems(1) have "ep_Close e n = (e', n')" "r = Some (ErrConsume (co_Service c) err)"
      by (simp_all add: opt_listen_def)
    with ep_Close_ports [OF Cons.prems(2) assms(3)] show ?thesis
      by simp
  next
    case None
    let ?e = "e\<lparr>ep_listeners := ep_listeners e @ [nt_next n], ep_servers := ep_servers e @ [(nt_next n, co_Service c)]\<rparr>"
    let ?n = "n\<lparr>nt_open := nt_open n @ [(nt_next n, co_Listen c)], nt_next := Suc (nt_next n)\<rparr>"
    have "start_loop os cs ?e ?n = (r, e', n')"
      using Cons.prems(1) None by (simp add: opt_listen_def)
    moreover have "holds_ports ?e (ps @ [(co_Service c, co_Listen c)]) n0 ?n"
      using Cons.prems(2) by (auto simp: holds_ports_def ports_ok_def less_Suc_eq)
    ultimately show ?thesis
      using Cons.IH [of ?e ?n "ps @ [(co_Service c, co_Listen c)]"] by (cases r) simp_all
  qed
qed simp

lemma start_loop_conn: "start_loop os cs e n = (r, e', n') \<Longrightarrow> ep_conn e' = ep_conn e"
  by (induction cs arbitrary: e n) (auto simp: ep_Close_def split: prod.splits sum.splits)

text \<open>
  C34. The consume ports open together or not at all. When \<open>Start\<close> succeeds, the ports that were open
  before still are and each \<open>[consume]\<close> section has one more, at its address and with its service's
  handler, in the order of the conf; when any cannot be opened, \<open>Start\<close> fails and exactly the ports
  that were open before are open again. And whatever was opened, \<open>Close\<close> closes that and nothing else.
\<close>

theorem ports_all_or_none:
  assumes "ports_ok n" "Start os (NewEndpoint cfg) n = (r, e, n')"
  shows "(case r of
      None \<Rightarrow> length (ep_listeners e) = length (cf_Consume cfg) \<and>
        nt_open n' = nt_open n @ zip (ep_listeners e) (map co_Listen (cf_Consume cfg)) \<and>
        ep_servers e = zip (ep_listeners e) (map co_Service (cf_Consume cfg))
    | Some _ \<Rightarrow> nt_open n' = nt_open n) \<and>
    nt_open (snd (ep_Close e n')) = nt_open n"
proof -
  have "holds_ports (NewEndpoint cfg) [] n n"
    using assms(1) by (simp add: holds_ports_def NewEndpoint_def)
  from start_loop_ports [OF assms(2) [unfolded Start_def] this assms(1)]
  have r: "case r of None \<Rightarrow> holds_ports e (map (\<lambda>c. (co_Service c, co_Listen c)) (cf_Consume cfg)) n n'
      | Some _ \<Rightarrow> nt_open n' = nt_open n \<and> ep_listeners e = [] \<and> ep_servers e = [] \<and> ports_ok n'"
    by (cases r) (simp_all add: NewEndpoint_def)
  show ?thesis
  proof (cases r)
    case None
    with r have h: "holds_ports e (map (\<lambda>c. (co_Service c, co_Listen c)) (cf_Consume cfg)) n n'"
      by simp
    obtain e2 n2 where "ep_Close e n' = (e2, n2)" by fastforce
    with ep_Close_ports [OF h assms(1) this] h None show ?thesis
      by (simp add: holds_ports_def comp_def)
  next
    case (Some err)
    with r show ?thesis
      by (simp add: ep_Close_def)
  qed
qed

definition two_ports :: Conf where
  "two_ports = (new_conf None)\<lparr>cf_Consume := [\<lparr>co_Service = ''s'', co_Listen = '':1''\<rparr>, \<lparr>co_Service = ''t'', co_Listen = '':1''\<rparr>]\<rparr>"

theorem ports_all_or_none_witness:
  "\<exists>e n'. Start (\<lambda>ps a. if a \<in> snd ` set ps then Some (IOError ''in use'') else None) (NewEndpoint two_ports) \<lparr>nt_open = [(0, '':9'')], nt_next = 1\<rparr> =
     (Some (ErrConsume ''t'' (IOError ''in use'')), e, n') \<and> nt_open n' = [(0, '':9'')]"
proof -
  let ?os = "\<lambda>ps :: (nat \<times> string) list. \<lambda>a. if a \<in> snd ` set ps then Some (IOError ''in use'') else None"
  let ?n = "\<lparr>nt_open = [(0, '':9'')], nt_next = 1\<rparr>"
  obtain e n' where r: "Start ?os (NewEndpoint two_ports) ?n = (Some (ErrConsume ''t'' (IOError ''in use'')), e, n')"
    by (simp add: Start_def NewEndpoint_def two_ports_def opt_listen_def ep_Close_def)
  from ports_all_or_none [OF _ r] r show ?thesis
    by (auto simp: ports_ok_def)
qed

end
