(* ===== verification/Sha256.thy ===== *)
theory Sha256
  imports Prelude
begin

text \<open>
  The part of the Go standard library the handshake hashes with: \<^verbatim>\<open>crypto/sha256\<close> (FIPS 180-4),
  \<^verbatim>\<open>crypto/hmac\<close> (RFC 2104) and \<^verbatim>\<open>crypto/hkdf\<close> (RFC 5869) over it.
\<close>

subsection \<open>SHA-256\<close>

text \<open>
  The standard's constants: the first 32 bits of the fractional parts of the cube roots of the
  first 64 primes and, for the initial state, of the square roots of the first 8. \<open>root_floor\<close> is
  the largest \<open>r < 2 ^ 36\<close> with \<open>r ^ k \<le> n\<close>, found bit by bit.
\<close>

definition primes_upto :: "int \<Rightarrow> int list" where
  "primes_upto n = filter (\<lambda>p. list_all (\<lambda>d. p mod d \<noteq> 0) [2..p - 1]) [2..n]"

definition root_floor :: "nat \<Rightarrow> int \<Rightarrow> int" where
  "root_floor k n = fold (\<lambda>i r. if (r + 2 ^ i) ^ k \<le> n then r + 2 ^ i else r) (rev [0..<36]) 0"

definition sha_K :: "u32 list" where
  "sha_K = map (\<lambda>p. of_int (root_floor 3 (p * 2 ^ 96))) (primes_upto 311)"

type_synonym sha_state = "u32 \<times> u32 \<times> u32 \<times> u32 \<times> u32 \<times> u32 \<times> u32 \<times> u32"

definition sha_init :: sha_state where
  "sha_init = (case map (\<lambda>p. of_int (root_floor 2 (p * 2 ^ 64))) (primes_upto 19) of
     [a, b, c, d, e, f, g, h] \<Rightarrow> (a, b, c, d, e, f, g, h) | _ \<Rightarrow> (0, 0, 0, 0, 0, 0, 0, 0))"

definition rotr :: "nat \<Rightarrow> u32 \<Rightarrow> u32" where
  "rotr n x = drop_bit n x OR push_bit (32 - n) x"

fun sha_round :: "sha_state \<Rightarrow> u32 \<times> u32 \<Rightarrow> sha_state" where
  "sha_round (a, b, c, d, e, f, g, h) (k, w) =
     (let t1 = h + (rotr 6 e XOR rotr 11 e XOR rotr 25 e) + ((e AND f) XOR (NOT e AND g)) + k + w;
          t2 = (rotr 2 a XOR rotr 13 a XOR rotr 22 a) + ((a AND b) XOR (a AND c) XOR (b AND c))
      in (t1 + t2, a, b, c, d + t1, e, f, g))"

text \<open>The message schedule, kept newest word first.\<close>

definition sha_next :: "u32 list \<Rightarrow> u32 list" where
  "sha_next ws =
     (let x = ws ! 1; y = ws ! 14
      in ((rotr 17 x XOR rotr 19 x XOR drop_bit 10 x) + ws ! 6
          + (rotr 7 y XOR rotr 18 y XOR drop_bit 3 y) + ws ! 15) # ws)"

fun sha_add :: "sha_state \<Rightarrow> sha_state \<Rightarrow> sha_state" where
  "sha_add (a, b, c, d, e, f, g, h) (a', b', c', d', e', f', g', h') =
     (a + a', b + b', c + c', d + d', e + e', f + f', g + g', h + h')"

definition sha_words :: "bytes \<Rightarrow> u32 list" where
  "sha_words blk = map (\<lambda>i. un_le (rev (take 4 (drop (4 * i) blk)))) [0..<16]"

definition sha_block :: "bytes \<Rightarrow> sha_state \<Rightarrow> sha_state" where
  "sha_block blk s =
     (let ws = rev ((sha_next ^^ 48) (rev (sha_words blk)))
      in sha_add s (fold (\<lambda>kw s. sha_round s kw) (zip sha_K ws) s))"

definition sha_pad :: "bytes \<Rightarrow> bytes" where
  "sha_pad m = m @ [0x80] @ replicate ((119 - length m mod 64) mod 64) 0
     @ rev (le 8 (of_nat (8 * length m) :: u64))"

fun sha_out :: "sha_state \<Rightarrow> bytes" where
  "sha_out (a, b, c, d, e, f, g, h) = concat (map (\<lambda>x. rev (le 4 x)) [a, b, c, d, e, f, g, h])"

definition sha256 :: "bytes \<Rightarrow> bytes" where
  "sha256 m =
     (let p = sha_pad m
      in sha_out (fold (\<lambda>i. sha_block (take 64 (drop (64 * i) p))) [0..<length p div 64] sha_init))"

lemma length_sha256 [simp]: "length (sha256 m) = 32"
proof -
  have "length (sha_out s) = 32" for s
    by (cases s rule: sha_out.cases) simp
  then show ?thesis
    by (simp add: sha256_def Let_def)
qed

subsection \<open>HMAC and HKDF\<close>

definition hmac :: "bytes \<Rightarrow> bytes \<Rightarrow> bytes" where
  "hmac key m =
     (let k0 = (if length key > 64 then sha256 key else key);
          k = k0 @ replicate (64 - length k0) 0
      in sha256 (map (\<lambda>b. b XOR 0x5c) k @ sha256 (map (\<lambda>b. b XOR 0x36) k @ m)))"

text \<open>\<open>hkdf.Extract(sha256.New, secret, salt)\<close>: an absent salt is 32 zero bytes.\<close>

definition hkdf_Extract :: "bytes \<Rightarrow> bytes \<Rightarrow> bytes" where
  "hkdf_Extract secret salt = hmac (if salt = [] then replicate 32 0 else salt) secret"

text \<open>
  \<open>hkdf.Expand(sha256.New, prk, info, n)\<close>: the blocks \<open>T(i) = HMAC(prk, T(i-1), info, i)\<close>
  concatenated and cut to \<open>n\<close> bytes; more than 255 blocks are refused.
\<close>

fun hkdf_T :: "bytes \<Rightarrow> bytes \<Rightarrow> bytes \<Rightarrow> byte \<Rightarrow> nat \<Rightarrow> bytes" where
  "hkdf_T prk info prev i 0 = []"
| "hkdf_T prk info prev i (Suc n) =
     (let t = hmac prk (prev @ info @ [i]) in t @ hkdf_T prk info t (i + 1) n)"

definition hkdf_Expand :: "bytes \<Rightarrow> bytes \<Rightarrow> nat \<Rightarrow> bytes option" where
  "hkdf_Expand prk info n =
     (if n > 255 * 32 then None else Some (take n (hkdf_T prk info [] 1 ((n + 31) div 32))))"

lemma length_hmac [simp]: "length (hmac key m) = 32"
  by (simp add: hmac_def Let_def)

lemma length_hkdf_T [simp]: "length (hkdf_T prk info prev i n) = 32 * n"
  by (induction n arbitrary: prev i) (simp_all add: Let_def)

end
