(* ===== verification/Noise.thy ===== *)
theory Noise
  imports Sha256
begin

text \<open>
  \<^verbatim>\<open>internal/noise\<close>: the symmetric state, the cipher states and the two-message handshake of
  \<open>Noise_NNpsk0_25519_ChaChaPoly_SHA256\<close>. SHA-256 and HKDF are computed. ChaCha20-Poly1305 (of
  \<^verbatim>\<open>golang.org/x/crypto\<close>) and the X25519 function are parameters, the record \<open>suite\<close>; what they
  promise is \<open>aead_ok\<close> and \<open>dh_ok\<close>.
\<close>

subsection \<open>Primitives\<close>

text \<open>The arguments of \<open>aead_Seal\<close> and \<open>aead_Open\<close> are the key, the nonce, the text and the associated data.\<close>

record suite =
  aead_Seal :: "bytes \<Rightarrow> bytes \<Rightarrow> bytes \<Rightarrow> bytes \<Rightarrow> bytes"
  aead_Open :: "bytes \<Rightarrow> bytes \<Rightarrow> bytes \<Rightarrow> bytes \<Rightarrow> bytes option"
  x_PublicKey :: "bytes \<Rightarrow> bytes"
  x_ECDH :: "bytes \<Rightarrow> bytes \<Rightarrow> bytes option"

definition aead_ok :: "suite \<Rightarrow> bool" where
  "aead_ok S \<longleftrightarrow> (\<forall>k n p ad. length (aead_Seal S k n p ad) = length p + 16 \<and>
     aead_Open S k n (aead_Seal S k n p ad) ad = Some p \<and>
     (\<forall>c q. aead_Open S k n c ad = Some q \<longrightarrow> length c = length q + 16))"

definition dh_ok :: "suite \<Rightarrow> bool" where
  "dh_ok S \<longleftrightarrow> (\<forall>a b. length (x_PublicKey S a) = 32 \<and>
     x_ECDH S a (x_PublicKey S b) = x_ECDH S b (x_PublicKey S a))"

definition protocolName :: string where
  "protocolName = ''Noise_NNpsk0_25519_ChaChaPoly_SHA256''"

definition KeySize :: nat where "KeySize = 32"
definition PublicKeySize :: nat where "PublicKeySize = 32"
definition TagSize :: nat where "TagSize = 16"
definition HandshakeMessageSize :: nat where "HandshakeMessageSize = PublicKeySize + TagSize"
definition MaxMessageSize :: nat where "MaxMessageSize = 65535"
definition MaxPlaintextSize :: nat where "MaxPlaintextSize = MaxMessageSize - TagSize"
definition nonceReserved :: u64 where "nonceReserved = NOT 0"

lemmas size_defs = KeySize_def PublicKeySize_def TagSize_def HandshakeMessageSize_def
  MaxMessageSize_def MaxPlaintextSize_def

datatype noise_error =
    BadPSK nat | HandshakeFailed | AlreadyComplete | NotTurnToWrite | NotTurnToRead
  | ShortHandshake nat | NotComplete | BadEphemeral nat | X25519Failed | RandomFailed io_error
  | BadPrivateKey nat | EncryptUnkeyed | DecryptUnkeyed | BadCipherKey nat | ExpandFailed
  | CounterExhausted | PlaintextTooLong nat | BadMessageSize nat | NotAuthentic u64 | NilPointer

subsection \<open>Cipher states (\<^verbatim>\<open>state.go\<close>)\<close>

record CipherState =
  cs_key :: bytes
  cs_nonce :: u64

definition newCipherState :: "bytes \<Rightarrow> noise_error + CipherState" where
  "newCipherState key =
     (if length key \<noteq> KeySize then Inl (BadCipherKey (length key)) else Inr \<lparr>cs_key = key, cs_nonce = 0\<rparr>)"

definition nonceBytes :: "CipherState \<Rightarrow> bytes" where
  "nonceBytes c = [0, 0, 0, 0] @ le 8 (cs_nonce c)"

definition cs_seal :: "suite \<Rightarrow> bytes \<Rightarrow> bytes \<Rightarrow> bytes \<Rightarrow> (CipherState, noise_error, bytes) op" where
  "cs_seal S out ad plaintext c =
     (if cs_nonce c = nonceReserved then (Inl CounterExhausted, c)
      else if length plaintext > MaxPlaintextSize then (Inl (PlaintextTooLong (length plaintext)), c)
      else (Inr (out @ aead_Seal S (cs_key c) (nonceBytes c) plaintext ad), c\<lparr>cs_nonce := cs_nonce c + 1\<rparr>))"

definition cs_open :: "suite \<Rightarrow> bytes \<Rightarrow> bytes \<Rightarrow> bytes \<Rightarrow> (CipherState, noise_error, bytes) op" where
  "cs_open S out ad ciphertext c =
     (if cs_nonce c = nonceReserved then (Inl CounterExhausted, c)
      else if length ciphertext < TagSize \<or> length ciphertext > MaxMessageSize
        then (Inl (BadMessageSize (length ciphertext)), c)
      else case aead_Open S (cs_key c) (nonceBytes c) ciphertext ad of
             None \<Rightarrow> (Inl (NotAuthentic (cs_nonce c)), c)
           | Some plaintext \<Rightarrow> (Inr (out @ plaintext), c\<lparr>cs_nonce := cs_nonce c + 1\<rparr>))"

definition Encrypt :: "suite \<Rightarrow> bytes \<Rightarrow> bytes \<Rightarrow> (CipherState, noise_error, bytes) op" where
  "Encrypt S out plaintext = cs_seal S out [] plaintext"

definition Decrypt :: "suite \<Rightarrow> bytes \<Rightarrow> bytes \<Rightarrow> (CipherState, noise_error, bytes) op" where
  "Decrypt S out ciphertext = cs_open S out [] ciphertext"

definition Nonce :: "CipherState \<Rightarrow> u64" where
  "Nonce c = cs_nonce c"

subsection \<open>The symmetric state (\<^verbatim>\<open>state.go\<close>)\<close>

record symmetric =
  sy_h :: bytes
  sy_ck :: bytes
  sy_cipher :: "CipherState option"

definition sym_mixHash :: "bytes \<Rightarrow> symmetric \<Rightarrow> symmetric" where
  "sym_mixHash data s = s\<lparr>sy_h := sha256 (sy_h s @ data)\<rparr>"

definition newSymmetric :: "bytes \<Rightarrow> symmetric" where
  "newSymmetric prologue =
     (let h = sha256 (str_bytes protocolName)
      in sym_mixHash prologue \<lparr>sy_h = h, sy_ck = h, sy_cipher = None\<rparr>)"

definition hkdfExpand :: "bytes \<Rightarrow> bytes \<Rightarrow> nat \<Rightarrow> noise_error + bytes list" where
  "hkdfExpand ck ikm outputs =
     (case hkdf_Expand (hkdf_Extract ikm ck) [] (outputs * KeySize) of
        None \<Rightarrow> Inl ExpandFailed
      | Some stream \<Rightarrow> Inr (map (\<lambda>i. take KeySize (drop (i * KeySize) stream)) [0..<outputs]))"

definition sym_mixKey :: "bytes \<Rightarrow> (symmetric, noise_error, unit) op" where
  "sym_mixKey ikm s =
     (case hkdfExpand (sy_ck s) ikm 2 of
        Inl e \<Rightarrow> (Inl e, s)
      | Inr out \<Rightarrow>
          (case newCipherState (out ! 1) of
             Inl e \<Rightarrow> (Inl e, s)
           | Inr c \<Rightarrow> (Inr (), s\<lparr>sy_ck := out ! 0, sy_cipher := Some c\<rparr>)))"

definition sym_mixKeyAndHash :: "bytes \<Rightarrow> (symmetric, noise_error, unit) op" where
  "sym_mixKeyAndHash ikm s =
     (case hkdfExpand (sy_ck s) ikm 3 of
        Inl e \<Rightarrow> (Inl e, s)
      | Inr out \<Rightarrow>
          (case newCipherState (out ! 2) of
             Inl e \<Rightarrow> (Inl e, s)
           | Inr c \<Rightarrow> (Inr (), (sym_mixHash (out ! 1) (s\<lparr>sy_ck := out ! 0\<rparr>))\<lparr>sy_cipher := Some c\<rparr>)))"

definition encryptAndHash :: "suite \<Rightarrow> bytes \<Rightarrow> (symmetric, noise_error, bytes) op" where
  "encryptAndHash S plaintext s =
     (case sy_cipher s of
        None \<Rightarrow> (Inl EncryptUnkeyed, s)
      | Some c \<Rightarrow>
          (case cs_seal S [] (sy_h s) plaintext c of
             (Inl e, c') \<Rightarrow> (Inl e, s\<lparr>sy_cipher := Some c'\<rparr>)
           | (Inr ciphertext, c') \<Rightarrow>
               (Inr ciphertext, sym_mixHash ciphertext (s\<lparr>sy_cipher := Some c'\<rparr>))))"

definition decryptAndHash :: "suite \<Rightarrow> bytes \<Rightarrow> (symmetric, noise_error, bytes) op" where
  "decryptAndHash S ciphertext s =
     (case sy_cipher s of
        None \<Rightarrow> (Inl DecryptUnkeyed, s)
      | Some c \<Rightarrow>
          (case cs_open S [] (sy_h s) ciphertext c of
             (Inl e, c') \<Rightarrow> (Inl e, s\<lparr>sy_cipher := Some c'\<rparr>)
           | (Inr plaintext, c') \<Rightarrow>
               (Inr plaintext, sym_mixHash ciphertext (s\<lparr>sy_cipher := Some c'\<rparr>))))"

definition sym_split :: "symmetric \<Rightarrow> noise_error + CipherState \<times> CipherState" where
  "sym_split s =
     (case hkdfExpand (sy_ck s) [] 2 of
        Inl e \<Rightarrow> Inl e
      | Inr out \<Rightarrow>
          (case newCipherState (out ! 0) of
             Inl e \<Rightarrow> Inl e
           | Inr i2r \<Rightarrow>
               (case newCipherState (out ! 1) of
                  Inl e \<Rightarrow> Inl e
                | Inr r2i \<Rightarrow> Inr (i2r, r2i))))"

subsection \<open>The handshake (\<^verbatim>\<open>noise.go\<close>)\<close>

datatype step = InitiatorMessage | ResponderMessage | Complete

fun next_step :: "step \<Rightarrow> step" where
  "next_step InitiatorMessage = ResponderMessage"
| "next_step ResponderMessage = Complete"
| "next_step Complete = Complete"

record Config =
  cf_Initiator :: bool
  cf_PSK :: bytes
  cf_Prologue :: bytes
  cf_Random :: "reader option"

text \<open>\<open>hs_e\<close> is this side's ephemeral private key, \<open>hs_re\<close> the peer's public key.\<close>

record Handshake =
  hs_sym :: symmetric
  hs_initiator :: bool
  hs_psk :: bytes
  hs_random :: reader
  hs_e :: "bytes option"
  hs_re :: "bytes option"
  hs_step :: step
  hs_failed :: bool

definition NewHandshake :: "reader \<Rightarrow> Config \<Rightarrow> noise_error + Handshake" where
  "NewHandshake rand_Reader cfg =
     (if length (cf_PSK cfg) \<noteq> KeySize then Inl (BadPSK (length (cf_PSK cfg)))
      else Inr \<lparr>hs_sym = newSymmetric (cf_Prologue cfg), hs_initiator = cf_Initiator cfg,
        hs_psk = cf_PSK cfg,
        hs_random = (case cf_Random cfg of None \<Rightarrow> rand_Reader | Some r \<Rightarrow> r),
        hs_e = None, hs_re = None, hs_step = InitiatorMessage, hs_failed = False\<rparr>)"

text \<open>A method of the embedded symmetric state, run on the handshake.\<close>

definition on_sym :: "(symmetric, noise_error, 'a) op \<Rightarrow> (Handshake, noise_error, 'a) op" where
  "on_sym m h = (case m (hs_sym h) of (r, s) \<Rightarrow> (r, h\<lparr>hs_sym := s\<rparr>))"

text \<open>\<open>ecdh.X25519().NewPrivateKey\<close> and \<open>NewPublicKey\<close> check the length and nothing else.\<close>

definition generateKeypair :: "(Handshake, noise_error, bytes) op" where
  "generateKeypair h =
     (case ReadFull KeySize (hs_random h) of
        (Inl e, r) \<Rightarrow> (Inl (RandomFailed e), h\<lparr>hs_random := r\<rparr>)
      | (Inr key, r) \<Rightarrow>
          (if length key \<noteq> 32 then (Inl (BadPrivateKey (length key)), h\<lparr>hs_random := r\<rparr>)
           else (Inr key, h\<lparr>hs_random := r\<rparr>)))"

definition mixDH :: "suite \<Rightarrow> (Handshake, noise_error, unit) op" where
  "mixDH S h =
     (case (hs_e h, hs_re h) of
        (Some e, Some re) \<Rightarrow>
          (case x_ECDH S e re of
             None \<Rightarrow> (Inl X25519Failed, h)
           | Some shared \<Rightarrow> on_sym (sym_mixKey shared) h)
      | _ \<Rightarrow> (Inl NilPointer, h))"

text \<open>The token \<open>psk\<close>, which only the first message has, and \<open>ee\<close>, which only the second has.\<close>

definition token_psk :: "(Handshake, noise_error, unit) op" where
  "token_psk h = (if hs_step h = InitiatorMessage then on_sym (sym_mixKeyAndHash (hs_psk h)) h else (Inr (), h))"

definition token_ee :: "suite \<Rightarrow> (Handshake, noise_error, unit) op" where
  "token_ee S h = (if hs_step h = ResponderMessage then mixDH S h else (Inr (), h))"

text \<open>The token \<open>e\<close>: the public key is mixed into the hash and into the chaining key.\<close>

definition token_e :: "bytes \<Rightarrow> (Handshake, noise_error, unit) op" where
  "token_e public = on_sym (\<lambda>s. sym_mixKey public (sym_mixHash public s))"

definition hs_writeMessage :: "suite \<Rightarrow> bytes \<Rightarrow> (Handshake, noise_error, bytes) op" where
  "hs_writeMessage S payload =
     bindE token_psk (\<lambda>_.
     bindE generateKeypair (\<lambda>e.
     bindE (modifyE (hs_e_update (\<lambda>_. Some e))) (\<lambda>_.
     bindE (token_e (x_PublicKey S e)) (\<lambda>_.
     bindE (token_ee S) (\<lambda>_.
     bindE (on_sym (encryptAndHash S payload)) (\<lambda>ciphertext.
     returnE (x_PublicKey S e @ ciphertext)))))))"

definition hs_readMessage :: "suite \<Rightarrow> bytes \<Rightarrow> (Handshake, noise_error, bytes) op" where
  "hs_readMessage S message =
     (let re = take PublicKeySize message
      in bindE token_psk (\<lambda>_.
         if length re \<noteq> 32 then failE (BadEphemeral (length re))
         else
           bindE (modifyE (hs_re_update (\<lambda>_. Some re))) (\<lambda>_.
           bindE (token_e re) (\<lambda>_.
           bindE (token_ee S) (\<lambda>_.
           on_sym (decryptAndHash S (drop PublicKeySize message)))))))"

text \<open>What \<open>WriteMessage\<close> and \<open>ReadMessage\<close> do with the outcome of the tokens.\<close>

definition advance :: "(Handshake, noise_error, bytes) op \<Rightarrow> (Handshake, noise_error, bytes) op" where
  "advance m h =
     (case m h of
        (Inl e, h') \<Rightarrow> (Inl e, h'\<lparr>hs_failed := True\<rparr>)
      | (Inr b, h') \<Rightarrow> (Inr b, h'\<lparr>hs_step := next_step (hs_step h')\<rparr>))"

definition WriteMessage :: "suite \<Rightarrow> bytes \<Rightarrow> (Handshake, noise_error, bytes) op" where
  "WriteMessage S payload h =
     (if hs_failed h then (Inl HandshakeFailed, h)
      else if hs_step h = Complete then (Inl AlreadyComplete, h)
      else if hs_initiator h \<noteq> (hs_step h = InitiatorMessage) then (Inl NotTurnToWrite, h)
      else advance (hs_writeMessage S payload) h)"

definition ReadMessage :: "suite \<Rightarrow> bytes \<Rightarrow> (Handshake, noise_error, bytes) op" where
  "ReadMessage S message h =
     (if hs_failed h then (Inl HandshakeFailed, h)
      else if hs_step h = Complete then (Inl AlreadyComplete, h)
      else if hs_initiator h = (hs_step h = InitiatorMessage) then (Inl NotTurnToRead, h)
      else if length message < HandshakeMessageSize then (Inl (ShortHandshake (length message)), h)
      else advance (hs_readMessage S message) h)"

text \<open>The pair is what this side sends with and what it receives with.\<close>

definition Split :: "(Handshake, noise_error, CipherState \<times> CipherState) op" where
  "Split h =
     (if hs_failed h then (Inl HandshakeFailed, h)
      else if hs_step h \<noteq> Complete then (Inl NotComplete, h)
      else case sym_split (hs_sym h) of
             Inl e \<Rightarrow> (Inl e, h\<lparr>hs_failed := True\<rparr>)
           | Inr (i2r, r2i) \<Rightarrow> (Inr (if hs_initiator h then (i2r, r2i) else (r2i, i2r)), h))"

end
