(* ===== verification/Wire_Record.thy ===== *)
theory Wire_Record
  imports Noise
begin

text \<open>
  \<^verbatim>\<open>internal/wire/wire.go\<close> and \<^verbatim>\<open>internal/wire/record.go\<close>: the preamble, the framed handshake
  and the record streams that carry every message.
\<close>

subsection \<open>The preamble (\<^verbatim>\<open>wire.go\<close>)\<close>

definition VersionNewest :: byte where "VersionNewest = 0"
definition PreambleSize :: nat where "PreambleSize = 5"
definition magic :: bytes where "magic = str_bytes ''HPOL''"

definition Preamble :: bytes where
  "Preamble = magic @ [VersionNewest]"

datatype wire_setup_error =
    ReadingPreamble io_error | ErrNotPeer | VersionError byte byte
  | ReadingHandshake io_error | HandshakeShort nat | HandshakeLong nat
  | SetupNoise noise_error | SetupWrite io_error

definition ReadPreamble :: "(reader, wire_setup_error, byte) op" where
  "ReadPreamble r =
     (case ReadFull PreambleSize r of
        (Inl e, r') \<Rightarrow> (Inl (ReadingPreamble e), r')
      | (Inr buf, r') \<Rightarrow> if take 4 buf \<noteq> magic then (Inl ErrNotPeer, r') else (Inr (buf ! 4), r'))"

subsection \<open>Writing records (\<^verbatim>\<open>record.go\<close>)\<close>

definition maxRecordSize :: nat where "maxRecordSize = MaxMessageSize"
definition minRecordSize :: nat where "minRecordSize = TagSize + 1"
definition maxRecordPlaintext :: nat where "maxRecordPlaintext = MaxPlaintextSize"

datatype record_error = Encrypting noise_error | Decrypting noise_error | RecordIO io_error | RecordShort nat

record RecordWriter =
  rw_w :: writer
  rw_cipher :: CipherState

definition NewRecordWriter :: "writer \<Rightarrow> CipherState \<Rightarrow> RecordWriter" where
  "NewRecordWriter w c = \<lparr>rw_w = w, rw_cipher = c\<rparr>"

text \<open>The loop of \<open>RecordWriter.Write\<close>; the result is the error, if any, and the bytes written.\<close>

function rw_loop :: "suite \<Rightarrow> bytes \<Rightarrow> nat \<Rightarrow> RecordWriter \<Rightarrow> (record_error option \<times> nat) \<times> RecordWriter" where
  "rw_loop S p written rw =
     (if p = [] then ((None, written), rw)
      else
        let chunk = (if length p > maxRecordPlaintext then take maxRecordPlaintext p else p)
        in case Encrypt S [0, 0] chunk (rw_cipher rw) of
             (Inl e, c) \<Rightarrow> ((Some (Encrypting e), written), rw\<lparr>rw_cipher := c\<rparr>)
           | (Inr buf, c) \<Rightarrow>
               (let rec = le 2 (of_nat (length buf - 2) :: u16) @ drop 2 buf
                in case Write rec (rw_w rw) of
                     (Some e, w) \<Rightarrow> ((Some (RecordIO e), written), rw\<lparr>rw_cipher := c, rw_w := w\<rparr>)
                   | (None, w) \<Rightarrow>
                       rw_loop S (drop (length chunk) p) (written + length chunk)
                         (rw\<lparr>rw_cipher := c, rw_w := w\<rparr>)))"
  by pat_completeness auto
termination
  by (relation "measure (\<lambda>(S, p, written, rw). length p)")
    (auto simp: maxRecordPlaintext_def size_defs)

declare rw_loop.simps [simp del]

definition RecordWriter_Write :: "suite \<Rightarrow> bytes \<Rightarrow> RecordWriter \<Rightarrow> (record_error option \<times> nat) \<times> RecordWriter" where
  "RecordWriter_Write S p rw = (if p = [] then ((None, 0), rw) else rw_loop S p 0 rw)"

subsection \<open>Reading records (\<^verbatim>\<open>record.go\<close>)\<close>

record RecordReader =
  rr_r :: reader
  rr_cipher :: CipherState
  rr_plain :: bytes

definition NewRecordReader :: "reader \<Rightarrow> CipherState \<Rightarrow> RecordReader" where
  "NewRecordReader r c = \<lparr>rr_r = r, rr_cipher = c, rr_plain = []\<rparr>"

definition rr_next :: "suite \<Rightarrow> (RecordReader, record_error, unit) op" where
  "rr_next S rr =
     (case ReadFull 2 (rr_r rr) of
        (Inl e, r) \<Rightarrow> (Inl (RecordIO e), rr\<lparr>rr_r := r\<rparr>)
      | (Inr header, r) \<Rightarrow>
          (let size = unat (un_le header :: u16)
           in if size < minRecordSize then (Inl (RecordShort size), rr\<lparr>rr_r := r\<rparr>)
              else case ReadFull size r of
                     (Inl e, r) \<Rightarrow> (Inl (RecordIO e), rr\<lparr>rr_r := r\<rparr>)
                   | (Inr rec, r) \<Rightarrow>
                       (case Decrypt S [] rec (rr_cipher rr) of
                          (Inl e, c) \<Rightarrow> (Inl (Decrypting e), rr\<lparr>rr_r := r, rr_cipher := c\<rparr>)
                        | (Inr plain, c) \<Rightarrow> (Inr (), rr\<lparr>rr_r := r, rr_cipher := c, rr_plain := plain\<rparr>))))"

text \<open>\<open>Read\<close> into a buffer of \<open>n\<close> bytes.\<close>

definition RecordReader_Read :: "suite \<Rightarrow> nat \<Rightarrow> (RecordReader, record_error, bytes) op" where
  "RecordReader_Read S n rr =
     (let give = (\<lambda>rr. (Inr (take n (rr_plain rr)), rr\<lparr>rr_plain := drop n (rr_plain rr)\<rparr>))
      in if rr_plain rr = [] then
           (case rr_next S rr of (Inl e, rr') \<Rightarrow> (Inl e, rr') | (Inr _, rr') \<Rightarrow> give rr')
         else give rr)"

subsection \<open>Setting a session up (\<^verbatim>\<open>record.go\<close>)\<close>

text \<open>A connection is what it delivers and what it takes.\<close>

record link =
  lk_in :: reader
  lk_out :: writer

record Session =
  sn_Reader :: RecordReader
  sn_Writer :: RecordWriter

definition on_in :: "(reader, 'e, 'a) op \<Rightarrow> (link, 'e, 'a) op" where
  "on_in m l = (case m (lk_in l) of (x, r) \<Rightarrow> (x, l\<lparr>lk_in := r\<rparr>))"

definition readVersion :: "(reader, wire_setup_error, unit) op" where
  "readVersion = bindE ReadPreamble (\<lambda>version.
     if version \<noteq> VersionNewest then failE (VersionError VersionNewest version) else returnE ())"

definition writeFramed :: "bytes \<Rightarrow> bytes \<Rightarrow> (link, wire_setup_error, unit) op" where
  "writeFramed prefix message l =
     (if length message > maxRecordSize then (Inl (HandshakeLong (length message)), l)
      else case Write (prefix @ le 2 (of_nat (length message) :: u16) @ message) (lk_out l) of
             (Some e, w) \<Rightarrow> (Inl (SetupWrite e), l\<lparr>lk_out := w\<rparr>)
           | (None, w) \<Rightarrow> (Inr (), l\<lparr>lk_out := w\<rparr>))"

definition readFramed :: "(reader, wire_setup_error, bytes) op" where
  "readFramed r =
     (case ReadFull 2 r of
        (Inl e, r) \<Rightarrow> (Inl (ReadingHandshake e), r)
      | (Inr header, r) \<Rightarrow>
          (let size = unat (un_le header :: u16)
           in if size < HandshakeMessageSize then (Inl (HandshakeShort size), r)
              else case ReadFull size r of
                     (Inl e, r) \<Rightarrow> (Inl (ReadingHandshake e), r)
                   | (Inr message, r) \<Rightarrow> (Inr message, r)))"

text \<open>A step of the handshake object, its errors passed on; the link is untouched.\<close>

definition lift_noise :: "(Handshake, noise_error, 'a) op \<Rightarrow> Handshake \<Rightarrow> (link, wire_setup_error, 'a \<times> Handshake) op" where
  "lift_noise m h l = (case m h of (Inl e, _) \<Rightarrow> (Inl (SetupNoise e), l) | (Inr x, h') \<Rightarrow> (Inr (x, h'), l))"

definition initiator_setup :: "suite \<Rightarrow> Handshake \<Rightarrow> (link, wire_setup_error, Handshake) op" where
  "initiator_setup S hs =
     bindE (lift_noise (WriteMessage S []) hs) (\<lambda>(message, hs).
     bindE (writeFramed Preamble message) (\<lambda>_.
     bindE (on_in readVersion) (\<lambda>_.
     bindE (on_in readFramed) (\<lambda>answer.
     bindE (lift_noise (ReadMessage S answer) hs) (\<lambda>(_, hs).
     returnE hs)))))"

definition responder_setup :: "suite \<Rightarrow> Handshake \<Rightarrow> (link, wire_setup_error, Handshake) op" where
  "responder_setup S hs =
     bindE (on_in readVersion) (\<lambda>_.
     bindE (on_in readFramed) (\<lambda>message.
     bindE (lift_noise (ReadMessage S message) hs) (\<lambda>(_, hs).
     bindE (lift_noise (WriteMessage S []) hs) (\<lambda>(answer, hs).
     bindE (writeFramed Preamble answer) (\<lambda>_.
     returnE hs)))))"

text \<open>\<open>Handshake\<close>; the first argument is the random source. The streams of the session share the link.\<close>

definition wire_Handshake :: "suite \<Rightarrow> reader \<Rightarrow> bytes \<Rightarrow> bool \<Rightarrow> (link, wire_setup_error, Session) op" where
  "wire_Handshake S rand_Reader psk initiator l =
     (case NewHandshake rand_Reader \<lparr>cf_Initiator = initiator, cf_PSK = psk, cf_Prologue = Preamble, cf_Random = None\<rparr> of
        Inl e \<Rightarrow> (Inl (SetupNoise e), l)
      | Inr hs \<Rightarrow>
          bindE (if initiator then initiator_setup S hs else responder_setup S hs) (\<lambda>hs.
          bindE (lift_noise Split hs) (\<lambda>((snd_c, rcv_c), _) l.
            (Inr \<lparr>sn_Reader = NewRecordReader (lk_in l) rcv_c, sn_Writer = NewRecordWriter (lk_out l) snd_c\<rparr>, l))) l)"

end
