(* ===== verification/Noise_Laws.thy ===== *)
theory Noise_Laws
  imports Noise
begin

text \<open>
  The handshake and the cipher states: both sides of a handshake that goes by undisturbed derive
  the same pair of keys, each message's plaintext comes back, counters never repeat, and the steps
  go in the order of the pattern.
\<close>

subsection \<open>Key derivation\<close>

text \<open>The specification's \<open>HKDF(ck, ikm, n)\<close>: \<open>temp = HMAC(ck, ikm)\<close> and the chained outputs.\<close>

fun noise_outputs :: "bytes \<Rightarrow> bytes \<Rightarrow> byte \<Rightarrow> nat \<Rightarrow> bytes list" where
  "noise_outputs temp prev i 0 = []"
| "noise_outputs temp prev i (Suc n) = (let t = hmac temp (prev @ [i]) in t # noise_outputs temp t (i + 1) n)"

definition noise_hkdf :: "bytes \<Rightarrow> bytes \<Rightarrow> nat \<Rightarrow> bytes list" where
  "noise_hkdf ck ikm n = noise_outputs (hmac ck ikm) [] 1 n"

lemma length_noise_outputs [simp]: "length (noise_outputs temp prev i n) = n"
  by (induction n arbitrary: prev i) (simp_all add: Let_def)

lemma noise_outputs_size: "x \<in> set (noise_outputs temp prev i n) \<Longrightarrow> length x = 32"
  by (induction n arbitrary: prev i) (auto simp: Let_def)

lemma hkdf_T_outputs: "hkdf_T temp [] prev i n = concat (noise_outputs temp prev i n)"
  by (induction n arbitrary: prev i) (simp_all add: Let_def)

lemma chunks_concat:
  assumes "\<And>x. x \<in> set xss \<Longrightarrow> length x = k"
  shows "map (\<lambda>i. take k (drop (i * k) (concat xss))) [0..<length xss] = xss"
  using assms
proof (induction xss)
  case (Cons x xss)
  have "map (\<lambda>i. take k (drop (Suc i * k) (concat (x # xss)))) [0..<length xss] = xss"
    using Cons by simp
  then show ?case
    using Cons.prems [of x] by (simp add: upt_conv_Cons map_Suc_upt [symmetric] comp_def del: upt_Suc)
qed simp

lemma hkdfExpand_noise:
  assumes "ck \<noteq> []" "n \<le> 255"
  shows "hkdfExpand ck ikm n = Inr (noise_hkdf ck ikm n)"
proof -
  have "(n * 32 + 31) div 32 = n"
    by simp
  moreover have "length (concat (noise_outputs temp prev i n)) = n * 32" for temp prev i
    by (simp add: hkdf_T_outputs [symmetric])
  ultimately show ?thesis
    using assms chunks_concat [of "noise_outputs (hmac ck ikm) [] 1 n" 32] noise_outputs_size
    by (simp add: hkdfExpand_def hkdf_Expand_def hkdf_Extract_def KeySize_def hkdf_T_outputs noise_hkdf_def)
qed

lemma noise_hkdf_nth: "i < n \<Longrightarrow> length (noise_hkdf ck ikm n ! i) = 32"
  unfolding noise_hkdf_def by (rule noise_outputs_size [OF nth_mem]) simp

subsection \<open>The symmetric state\<close>

text \<open>The chaining key is always as long as the hash, so the derivations never fail.\<close>

definition sym_ok :: "symmetric \<Rightarrow> bool" where
  "sym_ok s \<longleftrightarrow> length (sy_ck s) = 32"

definition fresh :: "bytes \<Rightarrow> CipherState" where
  "fresh k = \<lparr>cs_key = k, cs_nonce = 0\<rparr>"

lemma newCipherState_fresh: "length k = 32 \<Longrightarrow> newCipherState k = Inr (fresh k)"
  by (simp add: newCipherState_def fresh_def KeySize_def)

lemma newSymmetric_ok: "sym_ok (newSymmetric prologue)"
  by (simp add: sym_ok_def newSymmetric_def Let_def sym_mixHash_def)

lemma sym_mixHash_ok [simp]: "sym_ok (sym_mixHash d s) \<longleftrightarrow> sym_ok s" "sy_ck (sym_mixHash d s) = sy_ck s"
  "sy_cipher (sym_mixHash d s) = sy_cipher s"
  by (simp_all add: sym_ok_def sym_mixHash_def)

lemma sym_ok_nonempty: "sym_ok s \<Longrightarrow> sy_ck s \<noteq> []"
  by (auto simp: sym_ok_def)

lemma sym_mixKey_ok:
  assumes "sym_ok s"
  obtains s' k where "sym_mixKey ikm s = (Inr (), s')" "sym_ok s'" "sy_cipher s' = Some (fresh k)"
    "length k = 32" "sy_h s' = sy_h s"
proof -
  let ?o = "noise_hkdf (sy_ck s) ikm 2"
  have "sym_mixKey ikm s = (Inr (), s\<lparr>sy_ck := ?o ! 0, sy_cipher := Some (fresh (?o ! 1))\<rparr>)"
    using assms by (simp add: sym_mixKey_def hkdfExpand_noise sym_ok_nonempty newCipherState_fresh noise_hkdf_nth)
  then show ?thesis
    by (rule that [where k = "?o ! 1"]) (simp_all add: sym_ok_def noise_hkdf_nth)
qed

lemma sym_mixKeyAndHash_ok:
  assumes "sym_ok s"
  obtains s' k where "sym_mixKeyAndHash ikm s = (Inr (), s')" "sym_ok s'" "sy_cipher s' = Some (fresh k)"
    "length k = 32"
proof -
  let ?o = "noise_hkdf (sy_ck s) ikm 3"
  have "sym_mixKeyAndHash ikm s =
      (Inr (), (sym_mixHash (?o ! 1) (s\<lparr>sy_ck := ?o ! 0\<rparr>))\<lparr>sy_cipher := Some (fresh (?o ! 2))\<rparr>)"
    using assms by (simp add: sym_mixKeyAndHash_def hkdfExpand_noise sym_ok_nonempty newCipherState_fresh noise_hkdf_nth)
  then show ?thesis
    by (rule that [where k = "?o ! 2"]) (simp_all add: sym_ok_def noise_hkdf_nth)
qed

lemma sym_split_ok:
  assumes "sym_ok s"
  obtains k1 k2 where "sym_split s = Inr (fresh k1, fresh k2)" "length k1 = 32" "length k2 = 32"
proof -
  let ?o = "noise_hkdf (sy_ck s) [] 2"
  have "sym_split s = Inr (fresh (?o ! 0), fresh (?o ! 1))"
    using assms by (simp add: sym_split_def hkdfExpand_noise sym_ok_nonempty newCipherState_fresh noise_hkdf_nth)
  then show ?thesis
    by (rule that) (simp_all add: noise_hkdf_nth)
qed

lemma encrypt_decrypt:
  assumes "aead_ok S" "sy_cipher s = Some (fresh k)" "length p \<le> MaxPlaintextSize" "sym_ok s"
  obtains c s' where "encryptAndHash S p s = (Inr c, s')" "decryptAndHash S c s = (Inr p, s')"
    "length c = length p + 16" "sym_ok s'"
proof -
  let ?c = "aead_Seal S k (nonceBytes (fresh k)) p (sy_h s)"
  let ?s = "sym_mixHash ?c (s\<lparr>sy_cipher := Some ((fresh k)\<lparr>cs_nonce := 1\<rparr>)\<rparr>)"
  have n: "cs_nonce (fresh k) \<noteq> nonceReserved" "cs_nonce (fresh k) = 0" "cs_key (fresh k) = k"
    by (simp_all add: fresh_def nonceReserved_def)
  have l: "length ?c = length p + 16" and o: "aead_Open S k (nonceBytes (fresh k)) ?c (sy_h s) = Some p"
    using assms(1) by (simp_all add: aead_ok_def)
  show ?thesis
  proof (rule that)
    show "encryptAndHash S p s = (Inr ?c, ?s)"
      using assms n by (simp add: encryptAndHash_def cs_seal_def)
    show "decryptAndHash S ?c s = (Inr p, ?s)"
      using assms n l o by (simp add: decryptAndHash_def cs_open_def size_defs)
    show "length ?c = length p + 16"
      by (rule l)
    show "sym_ok ?s"
      using assms(4) by (simp add: sym_ok_def)
  qed
qed

subsection \<open>One message of the handshake\<close>

lemma on_sym_Inr: "m (hs_sym h) = (Inr x, s) \<Longrightarrow> on_sym m h = (Inr x, h\<lparr>hs_sym := s\<rparr>)"
  by (simp add: on_sym_def)

text \<open>\<open>paired h g\<close>: the two sides have mixed the same things and wait for the same message.\<close>

definition paired :: "Handshake \<Rightarrow> Handshake \<Rightarrow> bool" where
  "paired h g \<longleftrightarrow> hs_sym h = hs_sym g \<and> sym_ok (hs_sym h) \<and> hs_step h = hs_step g \<and>
     hs_psk h = hs_psk g \<and> hs_initiator h \<noteq> hs_initiator g \<and> \<not> hs_failed h \<and> \<not> hs_failed g"

lemma token_psk_paired:
  assumes "sym_ok (hs_sym h)"
  obtains s where "sym_ok s" "token_psk h = (Inr (), h\<lparr>hs_sym := s\<rparr>)"
    "\<And>g. hs_sym g = hs_sym h \<Longrightarrow> hs_step g = hs_step h \<Longrightarrow> hs_psk g = hs_psk h \<Longrightarrow>
       token_psk g = (Inr (), g\<lparr>hs_sym := s\<rparr>)"
proof (cases "hs_step h = InitiatorMessage")
  case True
  from sym_mixKeyAndHash_ok [OF assms, of "hs_psk h"] obtain s k
    where "sym_mixKeyAndHash (hs_psk h) (hs_sym h) = (Inr (), s)" "sym_ok s" by blast
  with True show ?thesis
    by (intro that [of s]) (simp_all add: token_psk_def on_sym_def)
next
  case False
  with assms show ?thesis
    by (intro that [of "hs_sym h"]) (auto simp: token_psk_def)
qed

lemma token_e_ok:
  assumes "sym_ok s"
  obtains s' k where "sym_ok s'" "sy_cipher s' = Some (fresh k)"
    "\<And>g. hs_sym g = s \<Longrightarrow> token_e public g = (Inr (), g\<lparr>hs_sym := s'\<rparr>)"
proof -
  have "sym_ok (sym_mixHash public s)"
    using assms by simp
  from sym_mixKey_ok [OF this, of public] obtain s' k
    where "sym_mixKey public (sym_mixHash public s) = (Inr (), s')" "sym_ok s'" "sy_cipher s' = Some (fresh k)"
    by blast
  then show ?thesis
    by (intro that [of s' k]) (simp_all add: token_e_def on_sym_def)
qed

text \<open>The two ephemerals meet: the keys the two sides hold give the same secret.\<close>

definition ee_ready :: "suite \<Rightarrow> Handshake \<Rightarrow> Handshake \<Rightarrow> bytes \<Rightarrow> bool" where
  "ee_ready S h g e \<longleftrightarrow> (hs_step h = ResponderMessage \<longrightarrow>
     (\<exists>re a sh. hs_re h = Some re \<and> hs_e g = Some a \<and> x_ECDH S e re = Some sh \<and>
        x_ECDH S a (x_PublicKey S e) = Some sh))"

lemma token_ee_ok:
  assumes ok: "sym_ok s" "sy_cipher s = Some (fresh k)" and ready: "ee_ready S h0 g0 e"
    and h: "hs_sym h = s" "hs_step h = hs_step h0" "hs_re h = hs_re h0" "hs_e h = Some e"
    and g: "hs_sym g = s" "hs_step g = hs_step h0" "hs_e g = hs_e g0" "hs_re g = Some (x_PublicKey S e)"
  obtains s' k' where "sym_ok s'" "sy_cipher s' = Some (fresh k')"
    "token_ee S h = (Inr (), h\<lparr>hs_sym := s'\<rparr>)" "token_ee S g = (Inr (), g\<lparr>hs_sym := s'\<rparr>)"
proof (cases "hs_step h0 = ResponderMessage")
  case True
  with ready obtain re a sh where sh: "hs_re h0 = Some re" "hs_e g0 = Some a" "x_ECDH S e re = Some sh"
      "x_ECDH S a (x_PublicKey S e) = Some sh"
    by (auto simp: ee_ready_def)
  from sym_mixKey_ok [OF ok(1), of sh] obtain s' k'
    where "sym_mixKey sh s = (Inr (), s')" "sym_ok s'" "sy_cipher s' = Some (fresh k')" by blast
  with True sh h g show ?thesis
    by (intro that [of s' k']) (simp_all add: token_ee_def mixDH_def on_sym_def)
next
  case False
  with ok h g show ?thesis
    by (intro that [of s k]) (auto simp: token_ee_def)
qed

lemma exchange:
  assumes S: "aead_ok S" "length (x_PublicKey S e) = 32" and p: "paired h g" "ee_ready S h g e"
    and r: "rd_data (hs_random h) = e @ rest" "length e = 32" and len: "length payload \<le> MaxPlaintextSize"
  obtains m h' g' where "hs_writeMessage S payload h = (Inr m, h')" "hs_readMessage S m g = (Inr payload, g')"
    "paired h' g'" "hs_step h' = hs_step h" "hs_initiator h' = hs_initiator h"
    "hs_e h' = Some e" "hs_re h' = hs_re h" "hs_random g' = hs_random g" "hs_e g' = hs_e g"
    "hs_re g' = Some (x_PublicKey S e)" "length m = 48 + length payload"
proof -
  let ?pub = "x_PublicKey S e"
  have p': "hs_sym h = hs_sym g" "sym_ok (hs_sym h)" "hs_step h = hs_step g" "hs_psk h = hs_psk g"
    using p by (auto simp: paired_def)
  from token_psk_paired [OF p'(2)] obtain s1 where s1: "sym_ok s1" "token_psk h = (Inr (), h\<lparr>hs_sym := s1\<rparr>)"
    "token_psk g = (Inr (), g\<lparr>hs_sym := s1\<rparr>)"
    using p' by metis
  from token_e_ok [OF s1(1), of ?pub] obtain s2 k2 where s2: "sym_ok s2" "sy_cipher s2 = Some (fresh k2)"
    "\<And>g. hs_sym g = s1 \<Longrightarrow> token_e ?pub g = (Inr (), g\<lparr>hs_sym := s2\<rparr>)" by blast
  define rnd where "rnd = (hs_random h)\<lparr>rd_data := rest\<rparr>"
  define h2 where "h2 = h\<lparr>hs_random := rnd, hs_e := Some e, hs_sym := s2\<rparr>"
  define g2 where "g2 = g\<lparr>hs_re := Some ?pub, hs_sym := s2\<rparr>"
  from token_ee_ok [OF s2(1,2) p(2), of h2 g2] obtain s3 k3 where s3: "sym_ok s3" "sy_cipher s3 = Some (fresh k3)"
    "token_ee S h2 = (Inr (), h2\<lparr>hs_sym := s3\<rparr>)" "token_ee S g2 = (Inr (), g2\<lparr>hs_sym := s3\<rparr>)"
    by (auto simp: h2_def g2_def p')
  from encrypt_decrypt [OF S(1) s3(2) len s3(1)] obtain c s4 where s4:
    "encryptAndHash S payload s3 = (Inr c, s4)" "decryptAndHash S c s3 = (Inr payload, s4)"
    "length c = length payload + 16" "sym_ok s4" by blast
  have gen: "generateKeypair (h\<lparr>hs_sym := s1\<rparr>) = (Inr e, h\<lparr>hs_sym := s1, hs_random := rnd\<rparr>)"
    using r by (simp add: generateKeypair_def ReadFull_def KeySize_def rnd_def)
  show ?thesis
  proof (rule that)
    show "hs_writeMessage S payload h = (Inr (?pub @ c), h2\<lparr>hs_sym := s4\<rparr>)"
      using s3(3) s4 by (simp add: hs_writeMessage_def bindE_def s1 gen modifyE_def s2(3) h2_def
          on_sym_def returnE_def)
    show "hs_readMessage S (?pub @ c) g = (Inr payload, g2\<lparr>hs_sym := s4\<rparr>)"
      using s3(4) s4 by (simp add: hs_readMessage_def Let_def PublicKeySize_def bindE_def s1 modifyE_def
          s2(3) g2_def on_sym_def S(2))
    show "paired (h2\<lparr>hs_sym := s4\<rparr>) (g2\<lparr>hs_sym := s4\<rparr>)"
      using p(1) s4(4) by (simp add: paired_def h2_def g2_def)
  qed (simp_all add: h2_def g2_def S(2) s4(3))
qed

lemma message_exchanged:
  assumes S: "aead_ok S" "length (x_PublicKey S e) = 32" and p: "paired h g" "ee_ready S h g e"
    and turn: "hs_initiator h = (hs_step h = InitiatorMessage)" "hs_step h \<noteq> Complete"
    and r: "rd_data (hs_random h) = e @ rest" "length e = 32" and len: "length payload \<le> MaxPlaintextSize"
  obtains m h' g' where "WriteMessage S payload h = (Inr m, h')" "ReadMessage S m g = (Inr payload, g')"
    "paired h' g'" "hs_step h' = next_step (hs_step h)" "hs_initiator h' = hs_initiator h"
    "hs_e h' = Some e" "hs_re h' = hs_re h" "hs_random g' = hs_random g" "hs_e g' = hs_e g"
    "hs_re g' = Some (x_PublicKey S e)" "length m = 48 + length payload"
proof -
  from exchange [OF S p r len] obtain m h' g' where e: "hs_writeMessage S payload h = (Inr m, h')"
    "hs_readMessage S m g = (Inr payload, g')"
    "paired h' g'" "hs_step h' = hs_step h" "hs_initiator h' = hs_initiator h"
    "hs_e h' = Some e" "hs_re h' = hs_re h" "hs_random g' = hs_random g" "hs_e g' = hs_e g"
    "hs_re g' = Some (x_PublicKey S e)" "length m = 48 + length payload" .
  let ?n = "next_step (hs_step h)"
  have p': "\<not> hs_failed h" "\<not> hs_failed g" "hs_step g = hs_step h" "hs_initiator g \<noteq> hs_initiator h"
    using p by (auto simp: paired_def)
  have st: "hs_step g' = hs_step h"
    using e by (simp add: paired_def)
  show ?thesis
  proof (rule that)
    show "WriteMessage S payload h = (Inr m, h'\<lparr>hs_step := ?n\<rparr>)"
      using p' turn e by (simp add: WriteMessage_def advance_def)
    show "ReadMessage S m g = (Inr payload, g'\<lparr>hs_step := ?n\<rparr>)"
      using p' turn e st by (auto simp: ReadMessage_def advance_def size_defs)
    show "paired (h'\<lparr>hs_step := ?n\<rparr>) (g'\<lparr>hs_step := ?n\<rparr>)"
      using e(3) by (auto simp: paired_def)
  qed (simp_all add: e)
qed

subsection \<open>The whole handshake\<close>

lemma handshake_completes:
  assumes S: "aead_ok S" "dh_ok S" "x_ECDH S a (x_PublicKey S b) \<noteq> None"
    and psk: "length psk = 32" and rnd: "length a = 32" "length b = 32"
    and len: "length p1 \<le> MaxPlaintextSize" "length p2 \<le> MaxPlaintextSize"
  shows "\<exists>hi hr m1 hi1 hr1 m2 hr2 hi2 s r.
    NewHandshake \<lparr>rd_data = a @ ra, rd_end = ea\<rparr>
      \<lparr>cf_Initiator = True, cf_PSK = psk, cf_Prologue = pro, cf_Random = None\<rparr> = Inr hi \<and>
    NewHandshake \<lparr>rd_data = b @ rb, rd_end = eb\<rparr>
      \<lparr>cf_Initiator = False, cf_PSK = psk, cf_Prologue = pro, cf_Random = None\<rparr> = Inr hr \<and>
    WriteMessage S p1 hi = (Inr m1, hi1) \<and> ReadMessage S m1 hr = (Inr p1, hr1) \<and>
    WriteMessage S p2 hr1 = (Inr m2, hr2) \<and> ReadMessage S m2 hi1 = (Inr p2, hi2) \<and>
    length m1 = 48 + length p1 \<and> length m2 = 48 + length p2 \<and>
    Split hi2 = (Inr (s, r), hi2) \<and> Split hr2 = (Inr (r, s), hr2) \<and> Nonce s = 0 \<and> Nonce r = 0"
proof -
  have pk: "length (x_PublicKey S k) = 32" for k
    using S(2) by (simp add: dh_ok_def)
  define hi where "hi = \<lparr>hs_sym = newSymmetric pro, hs_initiator = True, hs_psk = psk,
    hs_random = \<lparr>rd_data = a @ ra, rd_end = ea\<rparr>, hs_e = None, hs_re = None,
    hs_step = InitiatorMessage, hs_failed = False\<rparr>"
  define hr where "hr = \<lparr>hs_sym = newSymmetric pro, hs_initiator = False, hs_psk = psk,
    hs_random = \<lparr>rd_data = b @ rb, rd_end = eb\<rparr>, hs_e = None, hs_re = None,
    hs_step = InitiatorMessage, hs_failed = False\<rparr>"
  have new: "NewHandshake \<lparr>rd_data = a @ ra, rd_end = ea\<rparr>
      \<lparr>cf_Initiator = True, cf_PSK = psk, cf_Prologue = pro, cf_Random = None\<rparr> = Inr hi"
    "NewHandshake \<lparr>rd_data = b @ rb, rd_end = eb\<rparr>
      \<lparr>cf_Initiator = False, cf_PSK = psk, cf_Prologue = pro, cf_Random = None\<rparr> = Inr hr"
    using psk by (simp_all add: NewHandshake_def hi_def hr_def KeySize_def)
  have p0: "paired hi hr" "ee_ready S hi hr a"
    by (simp_all add: paired_def ee_ready_def hi_def hr_def newSymmetric_ok)
  have t0: "hs_initiator hi = (hs_step hi = InitiatorMessage)" "hs_step hi \<noteq> Complete"
    "rd_data (hs_random hi) = a @ ra"
    by (simp_all add: hi_def)
  from message_exchanged [OF S(1) pk p0 t0 rnd(1) len(1)]
  obtain m1 hi1 hr1 where e1: "WriteMessage S p1 hi = (Inr m1, hi1)" "ReadMessage S m1 hr = (Inr p1, hr1)"
    "paired hi1 hr1" "hs_step hi1 = next_step (hs_step hi)" "hs_initiator hi1 = hs_initiator hi"
    "hs_e hi1 = Some a" "hs_random hr1 = hs_random hr" "hs_re hr1 = Some (x_PublicKey S a)"
    "length m1 = 48 + length p1"
    by blast
  have p1: "paired hr1 hi1" "hs_step hr1 = ResponderMessage" "\<not> hs_initiator hr1" "hs_initiator hi1"
    using e1(3-5) by (auto simp: paired_def hi_def)
  from S(3) obtain sh where sh: "x_ECDH S a (x_PublicKey S b) = Some sh" by auto
  then have "x_ECDH S b (x_PublicKey S a) = Some sh"
    using S(2) by (simp add: dh_ok_def)
  with sh e1(6,8) have r1: "ee_ready S hr1 hi1 b"
    by (simp add: ee_ready_def)
  have t1: "hs_initiator hr1 = (hs_step hr1 = InitiatorMessage)" "hs_step hr1 \<noteq> Complete"
    "rd_data (hs_random hr1) = b @ rb"
    using p1 e1(7) by (simp_all add: hr_def)
  from message_exchanged [OF S(1) pk p1(1) r1 t1 rnd(2) len(2)]
  obtain m2 hr2 hi2 where e2: "WriteMessage S p2 hr1 = (Inr m2, hr2)" "ReadMessage S m2 hi1 = (Inr p2, hi2)"
    "paired hr2 hi2" "hs_step hr2 = next_step (hs_step hr1)" "hs_initiator hr2 = hs_initiator hr1"
    "length m2 = 48 + length p2"
    by blast
  have p2: "hs_sym hr2 = hs_sym hi2" "sym_ok (hs_sym hi2)" "hs_step hi2 = Complete" "hs_step hr2 = Complete"
    "hs_initiator hi2" "\<not> hs_initiator hr2" "\<not> hs_failed hi2" "\<not> hs_failed hr2"
    using e2(3-5) p1 by (auto simp: paired_def)
  from sym_split_ok [OF p2(2)] obtain k1 k2 where "sym_split (hs_sym hi2) = Inr (fresh k1, fresh k2)" by blast
  then have "Split hi2 = (Inr (fresh k1, fresh k2), hi2)" "Split hr2 = (Inr (fresh k2, fresh k1), hr2)"
    using p2 by (simp_all add: Split_def)
  moreover have "Nonce (fresh k1) = 0" "Nonce (fresh k2) = 0"
    by (simp_all add: Nonce_def fresh_def)
  ultimately show ?thesis
    using new e1(1,2,9) e2(1,2,6) by blast
qed

subsection \<open>The transport\<close>

fun encrypt_all :: "suite \<Rightarrow> bytes list \<Rightarrow> (CipherState, noise_error, bytes list) op" where
  "encrypt_all S [] = returnE []"
| "encrypt_all S (p # ps) = bindE (Encrypt S [] p) (\<lambda>m. bindE (encrypt_all S ps) (\<lambda>ms. returnE (m # ms)))"

fun decrypt_all :: "suite \<Rightarrow> bytes list \<Rightarrow> (CipherState, noise_error, bytes list) op" where
  "decrypt_all S [] = returnE []"
| "decrypt_all S (m # ms) = bindE (Decrypt S [] m) (\<lambda>p. bindE (decrypt_all S ms) (\<lambda>ps. returnE (p # ps)))"

lemma Encrypt_Inr:
  "Encrypt S out p c = (Inr m, c') \<longleftrightarrow> cs_nonce c \<noteq> nonceReserved \<and> length p \<le> MaxPlaintextSize \<and>
     m = out @ aead_Seal S (cs_key c) (nonceBytes c) p [] \<and> c' = c\<lparr>cs_nonce := cs_nonce c + 1\<rparr>"
  by (auto simp: Encrypt_def cs_seal_def)

lemma Decrypt_sealed:
  assumes "aead_ok S" "Encrypt S [] p c = (Inr m, c')"
  shows "Decrypt S out m c = (Inr (out @ p), c')"
  using assms by (simp add: Encrypt_Inr Decrypt_def cs_open_def aead_ok_def size_defs)

lemma encrypt_all_Cons:
  assumes "encrypt_all S (p # ps) c = (Inr ms, c')"
  obtains m ms' c1 where "ms = m # ms'" "Encrypt S [] p c = (Inr m, c1)" "encrypt_all S ps c1 = (Inr ms', c')"
  using assms by (auto simp: returnE_def elim!: bindE_elim)

lemma decrypt_all_encrypt_all:
  assumes "aead_ok S" "encrypt_all S ps c = (Inr ms, c')"
  shows "decrypt_all S ms c = (Inr ps, c')"
  using assms(2)
proof (induction ps arbitrary: c ms)
  case (Cons p ps)
  from Cons.prems obtain m ms' c1 where "ms = m # ms'" "Encrypt S [] p c = (Inr m, c1)"
      "encrypt_all S ps c1 = (Inr ms', c')"
    by (rule encrypt_all_Cons)
  with Cons.IH Decrypt_sealed [OF assms(1), of p c m c1 "[]"] show ?case
    by (simp add: bindE_def returnE_def)
qed (simp add: returnE_def)

lemma nonce_succ:
  assumes "n \<noteq> nonceReserved"
  shows "unat (n + 1) = Suc (unat n)"
proof -
  have "n + 1 \<noteq> 0"
  proof
    assume "n + 1 = 0"
    then have "n = - 1"
      by (simp add: add_eq_0_iff2)
    then show False
      using assms by (simp add: nonceReserved_def)
  qed
  then show ?thesis
    using unatSuc [of n] by (simp add: add.commute)
qed

lemma encrypt_all_counts:
  assumes "encrypt_all S ps c = (Inr ms, c')"
  shows "cs_key c' = cs_key c \<and> length ms = length ps \<and> unat (cs_nonce c') = unat (cs_nonce c) + length ps"
  using assms
proof (induction ps arbitrary: c ms)
  case (Cons p ps)
  from Cons.prems obtain m ms' c1 where *: "ms = m # ms'" "Encrypt S [] p c = (Inr m, c1)"
      "encrypt_all S ps c1 = (Inr ms', c')"
    by (rule encrypt_all_Cons)
  with Cons.IH [OF *(3)] show ?case
    by (auto simp: Encrypt_Inr nonce_succ)
qed (simp add: returnE_def)

lemma encrypt_all_nth:
  assumes "encrypt_all S ps c = (Inr ms, c')" "i < length ps"
  shows "ms ! i = aead_Seal S (cs_key c) ([0, 0, 0, 0] @ le 8 (cs_nonce c + of_nat i)) (ps ! i) []"
  using assms
proof (induction ps arbitrary: c ms i)
  case (Cons p ps)
  from Cons.prems(1) obtain m ms' c1 where *: "ms = m # ms'" "Encrypt S [] p c = (Inr m, c1)"
      "encrypt_all S ps c1 = (Inr ms', c')"
    by (rule encrypt_all_Cons)
  with Cons.IH [OF *(3)] Cons.prems(2) show ?case
    by (cases i) (auto simp: Encrypt_Inr nonceBytes_def add.assoc)
qed simp

subsection \<open>The order of the steps\<close>

datatype call = CallWrite bytes | CallRead bytes

fun is_write :: "call \<Rightarrow> bool" where
  "is_write (CallWrite _) = True"
| "is_write (CallRead _) = False"

fun do_call :: "suite \<Rightarrow> call \<Rightarrow> (Handshake, noise_error, bytes) op" where
  "do_call S (CallWrite p) = WriteMessage S p"
| "do_call S (CallRead m) = ReadMessage S m"

text \<open>Any sequence of calls; the result is the calls that succeeded, as writes and reads.\<close>

fun hs_run :: "suite \<Rightarrow> call list \<Rightarrow> Handshake \<Rightarrow> bool list \<times> Handshake" where
  "hs_run S [] h = ([], h)"
| "hs_run S (c # cs) h =
     (case do_call S c h of
        (Inl _, h') \<Rightarrow> hs_run S cs h'
      | (Inr _, h') \<Rightarrow> (case hs_run S cs h' of (log, h'') \<Rightarrow> (is_write c # log, h'')))"

definition remaining :: "Handshake \<Rightarrow> bool list" where
  "remaining h = (case hs_step h of
     InitiatorMessage \<Rightarrow> [hs_initiator h, \<not> hs_initiator h]
   | ResponderMessage \<Rightarrow> [\<not> hs_initiator h] | Complete \<Rightarrow> [])"

definition keeps :: "(Handshake, noise_error, 'a) op \<Rightarrow> bool" where
  "keeps m \<longleftrightarrow> (\<forall>h. hs_step (snd (m h)) = hs_step h \<and> hs_initiator (snd (m h)) = hs_initiator h \<and>
     hs_failed (snd (m h)) = hs_failed h)"

lemma keepsD:
  "keeps m \<Longrightarrow> m h = (r, h') \<Longrightarrow> hs_step h' = hs_step h \<and> hs_initiator h' = hs_initiator h \<and> hs_failed h' = hs_failed h"
  unfolding keeps_def by (metis snd_conv)

lemma keeps_bindE:
  assumes "keeps m" "\<And>a. keeps (k a)"
  shows "keeps (bindE m k)"
  unfolding keeps_def
proof
  fix h
  show "hs_step (snd (bindE m k h)) = hs_step h \<and> hs_initiator (snd (bindE m k h)) = hs_initiator h \<and>
      hs_failed (snd (bindE m k h)) = hs_failed h"
    using assms by (auto simp: bindE_def keepsD [OF assms(1)] keeps_def [of "k _"] split: prod.split sum.split)
qed

lemma keeps_tokens:
  "keeps token_psk" "keeps generateKeypair" "keeps (token_e public)" "keeps (token_ee S)"
  "keeps (on_sym m)" "keeps (returnE x)" "keeps (failE e)"
  "keeps (modifyE (hs_e_update f))" "keeps (modifyE (hs_re_update g))"
  by (auto simp: keeps_def token_psk_def generateKeypair_def token_e_def token_ee_def mixDH_def on_sym_def
      returnE_def failE_def modifyE_def split: prod.splits sum.splits option.splits)

lemma keeps_messages: "keeps (hs_writeMessage S p)" "keeps (hs_readMessage S m)"
  unfolding hs_writeMessage_def hs_readMessage_def Let_def
  by (auto intro!: keeps_bindE keeps_tokens)

lemma advance_cases:
  assumes "keeps m" "advance m h = (r, h')" "\<not> hs_failed h" "hs_step h \<noteq> Complete"
  shows "hs_initiator h' = hs_initiator h"
    and "case r of Inl _ \<Rightarrow> hs_failed h' | Inr _ \<Rightarrow> \<not> hs_failed h' \<and> hs_step h' = next_step (hs_step h)"
  using assms(2-) keepsD [OF assms(1), of h] by (auto simp: advance_def split: prod.splits sum.splits)

lemma do_call_cases:
  assumes "\<not> hs_failed h"
  obtains (refused) e where "do_call S c h = (Inl e, h)"
  | (run) m where "keeps m" "do_call S c h = advance m h" "hs_step h \<noteq> Complete"
      "is_write c = (hs_initiator h = (hs_step h = InitiatorMessage))"
proof (cases c)
  case (CallWrite p)
  show thesis
  proof (cases "hs_step h = Complete \<or> hs_initiator h \<noteq> (hs_step h = InitiatorMessage)")
    case True
    then have "\<exists>e. do_call S c h = (Inl e, h)"
      using assms CallWrite by (auto simp: WriteMessage_def)
    then show thesis
      using refused by blast
  next
    case False
    then show thesis
      using assms CallWrite by (intro run [OF keeps_messages(1)]) (auto simp: WriteMessage_def)
  qed
next
  case (CallRead m)
  show thesis
  proof (cases "hs_step h = Complete \<or> hs_initiator h = (hs_step h = InitiatorMessage) \<or>
      length m < HandshakeMessageSize")
    case True
    then have "\<exists>e. do_call S c h = (Inl e, h)"
      using assms CallRead by (auto simp: ReadMessage_def)
    then show thesis
      using refused by blast
  next
    case False
    then show thesis
      using assms CallRead by (intro run [OF keeps_messages(2)]) (auto simp: ReadMessage_def)
  qed
qed

lemma do_call_steps:
  assumes "do_call S c h = (r, h')" "\<not> hs_failed h"
  shows "hs_initiator h' = hs_initiator h"
    and "case r of Inl _ \<Rightarrow> h' = h \<or> hs_failed h'
         | Inr _ \<Rightarrow> \<not> hs_failed h' \<and> remaining h = is_write c # remaining h'"
proof -
  show "hs_initiator h' = hs_initiator h"
    using assms(2)
  proof (cases rule: do_call_cases [of h S c])
    case (run m)
    with assms show ?thesis
      using advance_cases(1) [of m h r h'] by simp
  qed (use assms in auto)
  show "case r of Inl _ \<Rightarrow> h' = h \<or> hs_failed h'
         | Inr _ \<Rightarrow> \<not> hs_failed h' \<and> remaining h = is_write c # remaining h'"
    using assms(2)
  proof (cases rule: do_call_cases [of h S c])
    case (run m)
    with assms show ?thesis
      using advance_cases [of m h r h']
      by (cases "hs_step h") (auto simp: remaining_def split: sum.splits)
  qed (use assms in auto)
qed

lemma failed_run:
  assumes "hs_failed h"
  shows "hs_run S cs h = ([], h)"
proof -
  have "do_call S c h = (Inl HandshakeFailed, h)" for c
    using assms by (cases c) (simp_all add: WriteMessage_def ReadMessage_def)
  then show ?thesis
    by (induction cs) simp_all
qed

lemma hs_run_remaining:
  "\<not> hs_failed h \<Longrightarrow> hs_run S cs h = (log, h') \<Longrightarrow>
     hs_initiator h' = hs_initiator h \<and> (\<not> hs_failed h' \<longrightarrow> remaining h = log @ remaining h') \<and>
     (\<exists>rest. remaining h = log @ rest)"
proof (induction cs arbitrary: h log)
  case (Cons c cs)
  obtain r h1 where r: "do_call S c h = (r, h1)"
    by fastforce
  note st = do_call_steps [OF r Cons.prems(1)]
  show ?case
  proof (cases r)
    case (Inl e)
    show ?thesis
    proof (cases "hs_failed h1")
      case True
      with r Inl Cons.prems(2) have "log = []" "h' = h1"
        by (auto simp: failed_run)
      with True st(1) show ?thesis
        by simp
    next
      case False
      with st(2) r Inl Cons show ?thesis
        by auto
    qed
  next
    case (Inr b)
    with st(2) r Cons.prems Cons.IH [of h1] show ?thesis
      by (auto simp: st(1) split: prod.splits)
  qed
qed simp

end
