(* ===== verification/Wire_Record_Laws.thy ===== *)
theory Wire_Record_Laws
  imports Wire_Record Noise_Laws
begin

text \<open>
  The record streams as byte streams: what the writer was given is what the reader delivers, and a
  \<open>RecordReader\<close> read with \<open>io.ReadFull\<close> behaves as the plain byte stream the decoder is written
  against.
\<close>

subsection \<open>\<^verbatim>\<open>io.ReadFull\<close> over any \<^verbatim>\<open>io.Reader\<close>\<close>

text \<open>
  The loop of \<open>io.ReadAtLeast\<close>: \<open>Read\<close> until the buffer is full or an error comes. Each turn
  that succeeds delivers at least one byte, so as many turns as bytes wanted are enough.
\<close>

fun read_loop :: "(nat \<Rightarrow> ('s, io_error, bytes) op) \<Rightarrow> nat \<Rightarrow> nat \<Rightarrow> bytes \<Rightarrow> 's \<Rightarrow> ((io_error + bytes) \<times> 's) option" where
  "read_loop read fuel need acc s =
     (if need = 0 then Some (Inr acc, s)
      else case fuel of
             0 \<Rightarrow> None
           | Suc fuel \<Rightarrow>
               (case read need s of
                  (Inl e, s') \<Rightarrow> Some (Inl (if acc \<noteq> [] \<and> e = EOF then UnexpectedEOF else e), s')
                | (Inr bs, s') \<Rightarrow> read_loop read fuel (need - length bs) (acc @ bs) s'))"

declare read_loop.simps [simp del]

definition io_ReadFull :: "(nat \<Rightarrow> ('s, io_error, bytes) op) \<Rightarrow> nat \<Rightarrow> 's \<Rightarrow> ((io_error + bytes) \<times> 's) option" where
  "io_ReadFull read n s = read_loop read n n [] s"

text \<open>
  The interface a byte source offers: \<open>view\<close> is the stream still to come. A read of at least one
  byte delivers a non-empty prefix of it, or its end. \<open>ok\<close> is what the source itself relies on.
\<close>

locale byte_source =
  fixes read :: "nat \<Rightarrow> ('s, io_error, bytes) op" and view :: "'s \<Rightarrow> reader" and ok :: "'s \<Rightarrow> bool"
  assumes read_some: "ok s \<Longrightarrow> 0 < n \<Longrightarrow> rd_data (view s) \<noteq> [] \<Longrightarrow>
      \<exists>bs s'. read n s = (Inr bs, s') \<and> bs \<noteq> [] \<and> length bs \<le> n \<and> ok s' \<and>
        rd_data (view s) = bs @ rd_data (view s') \<and> rd_end (view s') = rd_end (view s)"
    and read_end: "ok s \<Longrightarrow> 0 < n \<Longrightarrow> rd_data (view s) = [] \<Longrightarrow> \<exists>s'. read n s = (Inl (rd_end (view s)), s')"
begin

lemma read_loop_enough:
  "ok s \<Longrightarrow> need \<le> length (rd_data (view s)) \<Longrightarrow> need \<le> fuel \<Longrightarrow>
   \<exists>s'. read_loop read fuel need acc s = Some (Inr (acc @ take need (rd_data (view s))), s') \<and> ok s' \<and>
     rd_data (view s') = drop need (rd_data (view s)) \<and> rd_end (view s') = rd_end (view s)"
proof (induction fuel arbitrary: need acc s)
  case (Suc fuel)
  show ?case
  proof (cases "need = 0")
    case False
    then have "rd_data (view s) \<noteq> []"
      using Suc.prems(2) False by auto
    with False obtain bs s1 where r: "read need s = (Inr bs, s1)" "bs \<noteq> []" "length bs \<le> need"
        "ok s1"
        "rd_data (view s) = bs @ rd_data (view s1)" "rd_end (view s1) = rd_end (view s)"
      using read_some [of s need] Suc.prems(1) by auto
    have "length bs > 0" "need - length bs \<le> length (rd_data (view s1))"
      using r(2,5) Suc.prems(2) by auto
    moreover from this(1) have "need - length bs \<le> fuel"
      using Suc.prems(3) by linarith
    ultimately show ?thesis
      using Suc.IH [of s1 "need - length bs" "acc @ bs"] False r
      by (subst read_loop.simps) (simp add: diff_is_0_eq')
  qed (use Suc.prems in \<open>simp add: read_loop.simps\<close>)
qed (simp add: read_loop.simps)

lemma read_loop_short:
  "ok s \<Longrightarrow> length (rd_data (view s)) < need \<Longrightarrow> need \<le> fuel \<Longrightarrow>
   \<exists>s'. read_loop read fuel need acc s =
     Some (Inl (if acc @ rd_data (view s) \<noteq> [] \<and> rd_end (view s) = EOF then UnexpectedEOF else rd_end (view s)), s')"
proof (induction fuel arbitrary: need acc s)
  case (Suc fuel)
  show ?case
  proof (cases "rd_data (view s) = []")
    case True
    with Suc.prems obtain s1 where "read need s = (Inl (rd_end (view s)), s1)"
      using read_end [of s need] by auto
    with Suc.prems True show ?thesis
      by (subst read_loop.simps) auto
  next
    case False
    with Suc.prems obtain bs s1 where r: "read need s = (Inr bs, s1)" "bs \<noteq> []" "length bs \<le> need"
        "ok s1"
        "rd_data (view s) = bs @ rd_data (view s1)" "rd_end (view s1) = rd_end (view s)"
      using read_some [of s need] Suc.prems(1) by auto
    have "length bs > 0" "length (rd_data (view s1)) < need - length bs"
      using r(2,5) Suc.prems(2) by auto
    moreover from this(1) have "need - length bs \<le> fuel"
      using Suc.prems(3) by linarith
    ultimately show ?thesis
      using Suc.IH [of s1 "need - length bs" "acc @ bs"] Suc.prems(2) r
      by (subst read_loop.simps) (auto split: if_splits)
  qed
qed simp

text \<open>The loop returns, and what it returns is \<^const>\<open>ReadFull\<close> of the stream.\<close>

lemma io_ReadFull_view:
  assumes "ok s"
  obtains s' where "io_ReadFull read n s = Some (fst (ReadFull n (view s)), s')"
    "n \<le> length (rd_data (view s)) \<Longrightarrow> view s' = snd (ReadFull n (view s))"
proof (cases "n \<le> length (rd_data (view s))")
  case True
  from read_loop_enough [OF assms True, of n "[]"] obtain s' where
    "read_loop read n n [] s = Some (Inr (take n (rd_data (view s))), s')"
    "rd_data (view s') = drop n (rd_data (view s))" "rd_end (view s') = rd_end (view s)" by auto
  with True show ?thesis
    by (intro that [of s']) (simp_all add: io_ReadFull_def ReadFull_def)
next
  case False
  then show ?thesis
    using read_loop_short [OF assms, of n n "[]"] that by (auto simp: io_ReadFull_def ReadFull_def)
qed

end

subsection \<open>A connection as a source\<close>

text \<open>One \<open>Read\<close> of a connection whose packets are \<open>k\<close> bytes: as much as there is, at most a packet.\<close>

definition conn_Read :: "nat \<Rightarrow> nat \<Rightarrow> (reader, io_error, bytes) op" where
  "conn_Read k n r =
     (let m = min n (Suc k)
      in if rd_data r = [] then (Inl (rd_end r), r) else (Inr (take m (rd_data r)), r\<lparr>rd_data := drop m (rd_data r)\<rparr>))"

interpretation conn: byte_source "conn_Read k" id "\<lambda>_. True"
  by unfold_locales (auto simp: conn_Read_def Let_def)

subsection \<open>A record stream as a source\<close>

fun as_io :: "record_error \<Rightarrow> io_error" where
  "as_io (RecordIO e) = e"
| "as_io (RecordShort n) = IOError ''record too short''"
| "as_io (Decrypting e) = IOError ''record does not decrypt''"
| "as_io (Encrypting e) = IOError ''record does not encrypt''"

definition rr_Read_io :: "suite \<Rightarrow> nat \<Rightarrow> (RecordReader, io_error, bytes) op" where
  "rr_Read_io S n rr = (case RecordReader_Read S n rr of (Inl e, rr') \<Rightarrow> (Inl (as_io e), rr') | (Inr b, rr') \<Rightarrow> (Inr b, rr'))"

lemma rr_next_Inr:
  assumes "rr_next S rr = (Inr u, rr')"
  obtains header rec c where "length header = 2" "length rec = unat (un_le header :: u16)" "16 < length rec"
    "rd_data (rr_r rr) = header @ rec @ rd_data (rr_r rr')" "rd_end (rr_r rr') = rd_end (rr_r rr)"
    "Decrypt S [] rec (rr_cipher rr) = (Inr (rr_plain rr'), rr_cipher rr')"
proof -
  from assms obtain header r1 where h: "ReadFull 2 (rr_r rr) = (Inr header, r1)"
    by (auto simp: rr_next_def split: prod.splits sum.splits)
  from assms h have size: "\<not> unat (un_le header :: u16) < minRecordSize"
    by (auto simp: rr_next_def Let_def split: if_splits)
  with assms h obtain rec r2 where r: "ReadFull (unat (un_le header :: u16)) r1 = (Inr rec, r2)"
    by (auto simp: rr_next_def Let_def split: prod.splits sum.splits if_splits)
  with assms h size obtain plain c where "Decrypt S [] rec (rr_cipher rr) = (Inr plain, c)"
    by (auto simp: rr_next_def Let_def split: prod.splits sum.splits if_splits)
  moreover from this assms h size r have "rr' = rr\<lparr>rr_r := r2, rr_cipher := c, rr_plain := plain\<rparr>"
    by (simp add: rr_next_def Let_def)
  ultimately show ?thesis
    using h r size ReadFull_end [OF h] ReadFull_end [OF r] by (intro that [of header rec])
      (auto simp: ReadFull_Inr minRecordSize_def size_defs)
qed

text \<open>The plaintexts to come and what ends them.\<close>

function rr_stream :: "suite \<Rightarrow> RecordReader \<Rightarrow> bytes \<times> record_error" where
  "rr_stream S rr =
     (case rr_next S rr of
        (Inl e, rr') \<Rightarrow> (rr_plain rr, e)
      | (Inr _, rr') \<Rightarrow> (case rr_stream S rr' of (bs, e) \<Rightarrow> (rr_plain rr @ bs, e)))"
  by pat_completeness auto
termination
  by (relation "measure (\<lambda>(S, rr). length (rd_data (rr_r rr)))") (auto elim!: rr_next_Inr [OF sym])

declare rr_stream.simps [simp del]

definition rr_view :: "suite \<Rightarrow> RecordReader \<Rightarrow> reader" where
  "rr_view S rr = \<lparr>rd_data = fst (rr_stream S rr), rd_end = as_io (snd (rr_stream S rr))\<rparr>"

lemma rr_stream_plain:
  "rr_stream S rr = (rr_plain rr @ fst (rr_stream S (rr\<lparr>rr_plain := []\<rparr>)), snd (rr_stream S (rr\<lparr>rr_plain := []\<rparr>)))"
proof -
  have "rr_next S (rr\<lparr>rr_plain := []\<rparr>) =
      (case rr_next S rr of (Inl e, rr') \<Rightarrow> (Inl e, rr'\<lparr>rr_plain := []\<rparr>) | (Inr u, rr') \<Rightarrow> (Inr u, rr'))"
    by (simp add: rr_next_def Let_def split: prod.split sum.split)
  then show ?thesis
    by (subst (1 2 3) rr_stream.simps) (auto split: prod.split sum.split)
qed

lemma rr_view_give:
  "rd_data (rr_view S rr) = take n (rr_plain rr) @ rd_data (rr_view S (rr\<lparr>rr_plain := drop n (rr_plain rr)\<rparr>))"
  "rd_end (rr_view S (rr\<lparr>rr_plain := drop n (rr_plain rr)\<rparr>)) = rd_end (rr_view S rr)"
  using rr_stream_plain [of S rr] rr_stream_plain [of S "rr\<lparr>rr_plain := drop n (rr_plain rr)\<rparr>"]
  by (simp_all add: rr_view_def)

lemma rr_next_view:
  assumes "rr_plain rr = []"
  shows "rr_next S rr = (Inr u, rr') \<Longrightarrow> rr_view S rr = rr_view S rr'"
    and "rr_next S rr = (Inl e, rr') \<Longrightarrow> rr_view S rr = \<lparr>rd_data = [], rd_end = as_io e\<rparr>"
  using assms by (simp_all add: rr_view_def rr_stream.simps [of S rr] split: prod.split)

lemma rr_next_nonempty:
  assumes "aead_ok S" "rr_next S rr = (Inr u, rr')"
  shows "rr_plain rr' \<noteq> []"
  using assms(2)
proof (rule rr_next_Inr)
  fix header rec
  assume "16 < length rec" "Decrypt S [] rec (rr_cipher rr) = (Inr (rr_plain rr'), rr_cipher rr')"
  then have "length rec = length (rr_plain rr') + 16" "16 < length rec"
    using assms(1) by (auto simp: Decrypt_def cs_open_def aead_ok_def split: if_splits option.splits)
  then show ?thesis
    by auto
qed

interpretation records: byte_source "rr_Read_io S" "rr_view S" "\<lambda>_. aead_ok S"
proof unfold_locales
  fix rr :: RecordReader and n :: nat
  assume ok: "aead_ok S" and n: "0 < n"
  define give where "give = (\<lambda>rr :: RecordReader. (Inr (take n (rr_plain rr)) :: io_error + bytes, rr\<lparr>rr_plain := drop n (rr_plain rr)\<rparr>))"
  have nil: "rr_plain rr = [] \<Longrightarrow> rr_Read_io S n rr =
      (case rr_next S rr of (Inl e, rr') \<Rightarrow> (Inl (as_io e), rr') | (Inr _, rr') \<Rightarrow> give rr')"
    by (auto simp: rr_Read_io_def RecordReader_Read_def Let_def give_def split: prod.split sum.split)
  have cons: "rr_plain rr \<noteq> [] \<Longrightarrow> rr_Read_io S n rr = give rr"
    by (simp add: rr_Read_io_def RecordReader_Read_def Let_def give_def)
  have given: "\<exists>bs s'. give r = (Inr bs, s') \<and> bs \<noteq> [] \<and> length bs \<le> n \<and> aead_ok S \<and>
      rd_data (rr_view S r) = bs @ rd_data (rr_view S s') \<and> rd_end (rr_view S s') = rd_end (rr_view S r)"
    if "rr_plain r \<noteq> []" for r
    using that n ok rr_view_give(1) [of S r n] rr_view_give(2) [of S n r] by (auto simp: give_def)
  show "\<exists>bs s'. rr_Read_io S n rr = (Inr bs, s') \<and> bs \<noteq> [] \<and> length bs \<le> n \<and> aead_ok S \<and>
      rd_data (rr_view S rr) = bs @ rd_data (rr_view S s') \<and> rd_end (rr_view S s') = rd_end (rr_view S rr)"
    if "rd_data (rr_view S rr) \<noteq> []"
  proof (cases "rr_plain rr = []")
    case True
    with that obtain u rr1 where *: "rr_next S rr = (Inr u, rr1)"
      using rr_next_view(2) [OF True] by (cases "rr_next S rr"; cases "fst (rr_next S rr)") auto
    with nil [OF True] given [OF rr_next_nonempty [OF ok *]] rr_next_view(1) [OF True *] show ?thesis
      by simp
  qed (use cons given in simp)
  show "\<exists>s'. rr_Read_io S n rr = (Inl (rd_end (rr_view S rr)), s')" if "rd_data (rr_view S rr) = []"
  proof -
    have e: "rr_plain rr = []"
      using that rr_stream_plain [of S rr] by (simp add: rr_view_def)
    moreover have "rr_next S rr \<noteq> (Inr u, rr1)" for u rr1
      using rr_next_view(1) [OF e, of S u rr1] rr_next_nonempty [OF ok, of rr u rr1] that
        rr_stream_plain [of S rr1] by (auto simp: rr_view_def)
    then obtain er rr1 where "rr_next S rr = (Inl er, rr1)"
      by (cases "rr_next S rr"; cases "fst (rr_next S rr)") auto
    ultimately show ?thesis
      using nil rr_next_view(2) [OF e] by simp
  qed
qed

subsection \<open>What is written is what is read\<close>

definition at :: "bytes \<Rightarrow> io_error \<Rightarrow> CipherState \<Rightarrow> RecordReader" where
  "at bs fin c = NewRecordReader \<lparr>rd_data = bs, rd_end = fin\<rparr> c"

lemma one_record:
  assumes ok: "aead_ok S" and e: "Encrypt S [0, 0] chunk c = (Inr buf, c')" and ne: "chunk \<noteq> []"
  shows "rr_next S (at (le 2 (of_nat (length buf - 2) :: u16) @ drop 2 buf @ rest) fin c) =
    (Inr (), (at rest fin c')\<lparr>rr_plain := chunk\<rparr>)"
proof -
  let ?m = "aead_Seal S (cs_key c) (nonceBytes c) chunk []"
  have buf: "buf = [0, 0] @ ?m" and len: "length chunk \<le> MaxPlaintextSize"
    using e by (auto simp: Encrypt_Inr)
  have m: "length ?m = length chunk + 16"
    using ok by (simp add: aead_ok_def)
  have "Encrypt S [] chunk c = (Inr ?m, c')"
    using e by (simp add: Encrypt_Inr)
  from Decrypt_sealed [OF ok this] have d: "Decrypt S [] ?m c = (Inr chunk, c')"
    by simp
  have s: "unat (of_nat (length ?m) :: u16) = length chunk + 16" "0 < length chunk"
    unfolding m using len ne by (intro unat_of_nat_small, simp_all add: size_defs)
  have r1: "ReadFull 2 \<lparr>rd_data = le 2 (of_nat (length ?m) :: u16) @ ?m @ rest, rd_end = fin\<rparr> =
      (Inr (le 2 (of_nat (length ?m) :: u16)), \<lparr>rd_data = ?m @ rest, rd_end = fin\<rparr>)"
    by (simp add: ReadFull_def)
  have r2: "ReadFull (length chunk + 16) \<lparr>rd_data = ?m @ rest, rd_end = fin\<rparr> = (Inr ?m, \<lparr>rd_data = rest, rd_end = fin\<rparr>)"
    by (simp add: ReadFull_def m)
  show ?thesis
    using s by (simp add: buf at_def NewRecordReader_def rr_next_def Let_def r1 r2 d minRecordSize_def size_defs
        del: length_append)
qed

lemma one_record_stream:
  assumes "aead_ok S" "Encrypt S [0, 0] chunk c = (Inr buf, c')" "chunk \<noteq> []"
  shows "rr_stream S (at (le 2 (of_nat (length buf - 2) :: u16) @ drop 2 buf @ rest) fin c) =
    (chunk @ fst (rr_stream S (at rest fin c')), snd (rr_stream S (at rest fin c')))"
proof -
  have "rr_plain (at bs fin c) = []" "(at rest fin c')\<lparr>rr_plain := []\<rparr> = at rest fin c'" for bs
    by (simp_all add: at_def NewRecordReader_def)
  then show ?thesis
    using rr_stream_plain [of S "(at rest fin c')\<lparr>rr_plain := chunk\<rparr>"]
    by (subst rr_stream.simps) (simp add: one_record [OF assms] split: prod.split)
qed

lemma rw_loop_stream:
  "aead_ok S \<Longrightarrow> rw_loop S p n rw = ((None, k), rw') \<Longrightarrow>
    k = n + length p \<and> (\<exists>wire. wr_data (rw_w rw') = wr_data (rw_w rw) @ wire \<and>
      (\<forall>rest fin. rr_stream S (at (wire @ rest) fin (rw_cipher rw)) =
         (p @ fst (rr_stream S (at rest fin (rw_cipher rw'))), snd (rr_stream S (at rest fin (rw_cipher rw'))))))"
proof (induction S p n rw rule: rw_loop.induct)
  case (1 S p n rw)
  show ?case
  proof (cases "p = []")
    case True
    with "1.prems" show ?thesis
      by (subst (asm) rw_loop.simps) auto
  next
    case False
    define chunk where "chunk = (if length p > maxRecordPlaintext then take maxRecordPlaintext p else p)"
    have ne: "chunk \<noteq> []" and cut: "chunk @ drop (length chunk) p = p"
      using False by (auto simp: chunk_def maxRecordPlaintext_def size_defs)
    note loop = "1.prems"(2)
    from loop False obtain buf c where e: "Encrypt S [0, 0] chunk (rw_cipher rw) = (Inr buf, c)"
      by (subst (asm) rw_loop.simps) (auto simp: chunk_def Let_def split: prod.splits sum.splits)
    define rec where "rec = le 2 (of_nat (length buf - 2) :: u16) @ drop 2 buf"
    from loop False e obtain w where w: "Write rec (rw_w rw) = (None, w)"
      by (subst (asm) rw_loop.simps)
        (auto simp: chunk_def [symmetric] rec_def [symmetric] Let_def split: prod.splits sum.splits option.splits)
    let ?rw = "rw\<lparr>rw_cipher := c, rw_w := w\<rparr>"
    from loop False e w have "rw_loop S (drop (length chunk) p) (n + length chunk) ?rw = ((None, k), rw')"
      by (subst (asm) rw_loop.simps) (simp add: chunk_def [symmetric] rec_def [symmetric] Let_def)
    from "1.IH" [OF False chunk_def e [symmetric] refl rec_def w [symmetric] refl "1.prems"(1) this]
    obtain wire where k: "k = n + length chunk + length (drop (length chunk) p)"
      and wire: "wr_data (rw_w rw') = wr_data w @ wire"
      and stream: "\<And>rest fin. rr_stream S (at (wire @ rest) fin c) =
         (drop (length chunk) p @ fst (rr_stream S (at rest fin (rw_cipher rw'))),
          snd (rr_stream S (at rest fin (rw_cipher rw'))))"
      by auto
    have "wr_data (rw_w rw') = wr_data (rw_w rw) @ (rec @ wire)"
      using wire Write_None [OF w] by simp
    moreover have "rr_stream S (at ((rec @ wire) @ rest) fin (rw_cipher rw)) =
         (p @ fst (rr_stream S (at rest fin (rw_cipher rw'))), snd (rr_stream S (at rest fin (rw_cipher rw'))))" for rest fin
      using one_record_stream [OF "1.prems"(1) e ne, of "wire @ rest" fin] stream [of rest fin] cut
      by (simp add: rec_def)
    moreover have "k = n + length p"
      using k arg_cong [OF cut, of length] by (simp del: length_drop)
    ultimately show ?thesis
      by blast
  qed
qed
lemma Write_stream:
  assumes "aead_ok S" "RecordWriter_Write S p rw = ((None, k), rw')"
  shows "k = length p \<and> (\<exists>wire. wr_data (rw_w rw') = wr_data (rw_w rw) @ wire \<and>
      (\<forall>rest fin. rr_stream S (at (wire @ rest) fin (rw_cipher rw)) =
         (p @ fst (rr_stream S (at rest fin (rw_cipher rw'))), snd (rr_stream S (at rest fin (rw_cipher rw'))))))"
  using assms rw_loop_stream [of S p 0 rw k rw'] by (auto simp: RecordWriter_Write_def split: if_splits)

text \<open>A sequence of writes, each of which succeeds.\<close>

fun write_all :: "suite \<Rightarrow> bytes list \<Rightarrow> RecordWriter \<Rightarrow> record_error option \<times> RecordWriter" where
  "write_all S [] rw = (None, rw)"
| "write_all S (p # ps) rw =
     (case RecordWriter_Write S p rw of
        ((None, _), rw') \<Rightarrow> write_all S ps rw'
      | ((Some e, _), rw') \<Rightarrow> (Some e, rw'))"

lemma write_all_stream:
  assumes ok: "aead_ok S" and w: "write_all S ps rw = (None, rw')"
  shows "\<exists>wire. wr_data (rw_w rw') = wr_data (rw_w rw) @ wire \<and>
      (\<forall>rest fin. rr_stream S (at (wire @ rest) fin (rw_cipher rw)) =
         (concat ps @ fst (rr_stream S (at rest fin (rw_cipher rw'))), snd (rr_stream S (at rest fin (rw_cipher rw')))))"
  using w
proof (induction ps arbitrary: rw)
  case (Cons p ps)
  from Cons.prems obtain k rw1 where w1: "RecordWriter_Write S p rw = ((None, k), rw1)" "write_all S ps rw1 = (None, rw')"
    by (auto split: prod.splits option.splits)
  from Write_stream [OF ok w1(1)] obtain wire1 where wire1: "wr_data (rw_w rw1) = wr_data (rw_w rw) @ wire1"
    "\<And>rest fin. rr_stream S (at (wire1 @ rest) fin (rw_cipher rw)) =
         (p @ fst (rr_stream S (at rest fin (rw_cipher rw1))), snd (rr_stream S (at rest fin (rw_cipher rw1))))"
    by auto
  from Cons.IH [OF w1(2)] obtain wire2 where "wr_data (rw_w rw') = wr_data (rw_w rw1) @ wire2"
    "\<And>rest fin. rr_stream S (at (wire2 @ rest) fin (rw_cipher rw1)) =
         (concat ps @ fst (rr_stream S (at rest fin (rw_cipher rw'))), snd (rr_stream S (at rest fin (rw_cipher rw'))))"
    by auto
  with wire1 show ?case
    by (intro exI [of _ "wire1 @ wire2"]) simp
qed simp

text \<open>
  Writing succeeds while the connection takes it and the counter has room: each record carries at
  least one byte.
\<close>

lemma rw_loop_succeeds:
  assumes "wr_script (rw_w rw) = []" "unat (cs_nonce (rw_cipher rw)) + length p < 2 ^ 64 - 1"
  shows "\<exists>rw'. rw_loop S p k rw = ((None, k + length p), rw') \<and> wr_script (rw_w rw') = [] \<and>
    unat (cs_nonce (rw_cipher rw')) \<le> unat (cs_nonce (rw_cipher rw)) + length p"
  using assms
proof (induction S p k rw rule: rw_loop.induct)
  case (1 S p k rw)
  show ?case
  proof (cases "p = []")
    case False
    define chunk where "chunk = (if length p > maxRecordPlaintext then take maxRecordPlaintext p else p)"
    let ?c = "(rw_cipher rw)\<lparr>cs_nonce := cs_nonce (rw_cipher rw) + 1\<rparr>"
    let ?buf = "[0, 0] @ aead_Seal S (cs_key (rw_cipher rw)) (nonceBytes (rw_cipher rw)) chunk []"
    let ?rec = "le 2 (of_nat (length ?buf - 2) :: u16) @ drop 2 ?buf"
    let ?w = "(rw_w rw)\<lparr>wr_data := wr_data (rw_w rw) @ ?rec\<rparr>"
    have small: "unat (cs_nonce (rw_cipher rw)) < 2 ^ 64 - 1"
      using "1.prems"(2) by linarith
    then have "cs_nonce (rw_cipher rw) \<noteq> nonceReserved"
      by (auto simp: nonceReserved_def unsigned_minus_1_eq_mask mask_eq_exp_minus_1)
    moreover have "length chunk \<le> MaxPlaintextSize" and pos: "0 < length chunk" "length chunk \<le> length p"
      using False by (auto simp: chunk_def maxRecordPlaintext_def size_defs)
    ultimately have enc: "Encrypt S [0, 0] chunk (rw_cipher rw) = (Inr ?buf, ?c)"
      by (simp add: Encrypt_def cs_seal_def)
    have wr: "Write ?rec (rw_w rw) = (None, ?w)"
      using "1.prems"(1) by (simp add: Write_def)
    have nonce: "unat (cs_nonce (rw_cipher rw) + 1) = unat (cs_nonce (rw_cipher rw)) + 1"
      using small by (simp add: unat_word_ariths)
    let ?rw = "rw\<lparr>rw_cipher := ?c, rw_w := ?w\<rparr>"
    have next_nonce: "unat (cs_nonce (rw_cipher ?rw)) = unat (cs_nonce (rw_cipher rw)) + 1"
      using nonce by simp
    have "unat (cs_nonce (rw_cipher ?rw)) + length (drop (length chunk) p) < 2 ^ 64 - 1"
      unfolding next_nonce length_drop using "1.prems"(2) pos by linarith
    from "1.IH" [OF False chunk_def enc [symmetric] refl refl wr [symmetric] refl _ this] "1.prems"(1)
    obtain rw' where rw': "rw_loop S (drop (length chunk) p) (k + length chunk) ?rw =
          ((None, k + length chunk + length (drop (length chunk) p)), rw')" "wr_script (rw_w rw') = []"
        "unat (cs_nonce (rw_cipher rw')) \<le> unat (cs_nonce (rw_cipher ?rw)) + length (drop (length chunk) p)"
      by auto
    have "rw_loop S p k rw = rw_loop S (drop (length chunk) p) (k + length chunk) ?rw"
      using False enc wr by (subst rw_loop.simps) (simp only: Let_def chunk_def [symmetric] if_False prod.case sum.case option.case)
    moreover have "k + length chunk + length (drop (length chunk) p) = k + length p"
      using pos by simp
    moreover have "unat (cs_nonce (rw_cipher rw')) \<le> unat (cs_nonce (rw_cipher rw)) + length p"
      using rw'(3) pos unfolding next_nonce length_drop by linarith
    ultimately show ?thesis
      using rw'(1,2) by (intro exI [of _ rw']) (simp only: simp_thms)
  qed (simp add: "1.prems" rw_loop.simps)
qed

lemma write_all_succeeds:
  assumes "wr_script (rw_w rw) = []" "unat (cs_nonce (rw_cipher rw)) + length (concat ps) < 2 ^ 64 - 1"
  shows "\<exists>rw'. write_all S ps rw = (None, rw')"
  using assms
proof (induction ps arbitrary: rw)
  case (Cons p ps)
  then obtain rw1 where "RecordWriter_Write S p rw = ((None, length p), rw1)" "wr_script (rw_w rw1) = []"
      "unat (cs_nonce (rw_cipher rw1)) \<le> unat (cs_nonce (rw_cipher rw)) + length p"
    using rw_loop_succeeds [of rw p S 0] by (cases "p = []") (auto simp: RecordWriter_Write_def)
  with Cons.IH [of rw1] Cons.prems(2) show ?case
    by simp
qed simp

lemma stream_end: "rr_stream S (at [] fin c) = ([], RecordIO fin)"
  by (subst rr_stream.simps) (simp add: rr_next_def at_def NewRecordReader_def ReadFull_def)

lemma records_view_from:
  assumes "aead_ok S" "write_all S ps rw = (None, rw')"
  obtains wire where "wr_data (rw_w rw') = wr_data (rw_w rw) @ wire"
    "rr_view S (NewRecordReader \<lparr>rd_data = wire, rd_end = fin\<rparr> (rw_cipher rw)) = \<lparr>rd_data = concat ps, rd_end = fin\<rparr>"
proof -
  from write_all_stream [OF assms] obtain wire where "wr_data (rw_w rw') = wr_data (rw_w rw) @ wire"
    "\<And>rest. rr_stream S (at (wire @ rest) fin (rw_cipher rw)) = (concat ps @ fst (rr_stream S (at rest fin (rw_cipher rw'))),
       snd (rr_stream S (at rest fin (rw_cipher rw'))))"
    by blast
  from this(1) this(2) [of "[]"] show thesis
    by (intro that [of wire]) (simp_all add: rr_view_def at_def [symmetric] stream_end)
qed

lemma records_view:
  assumes "aead_ok S" "write_all S ps (NewRecordWriter \<lparr>wr_data = [], wr_script = script\<rparr> c) = (None, rw)"
  shows "rr_view S (NewRecordReader \<lparr>rd_data = wr_data (rw_w rw), rd_end = fin\<rparr> c) =
    \<lparr>rd_data = concat ps, rd_end = fin\<rparr>"
  by (rule records_view_from [OF assms, of fin]) (simp add: NewRecordWriter_def)

subsection \<open>Setting up\<close>

lemma readVersion_ok:
  "readVersion \<lparr>rd_data = Preamble @ rest, rd_end = fin\<rparr> = (Inr (), \<lparr>rd_data = rest, rd_end = fin\<rparr>)"
  by (simp add: readVersion_def bindE_def ReadPreamble_def ReadFull_def PreambleSize_def Preamble_def
      magic_def returnE_def nth_append str_bytes_def)

lemma readFramed_ok:
  assumes "48 \<le> length m" "length m \<le> 65535"
  shows "readFramed \<lparr>rd_data = le 2 (of_nat (length m) :: u16) @ m @ rest, rd_end = fin\<rparr> =
    (Inr m, \<lparr>rd_data = rest, rd_end = fin\<rparr>)"
  using assms by (simp add: readFramed_def ReadFull_def Let_def size_defs)

lemma setup_agrees:
  assumes m1: "WriteMessage S [] hi = (Inr m1, hi1)" "ReadMessage S m1 hr = (Inr [], hr1)"
    and m2: "WriteMessage S [] hr1 = (Inr m2, hr2)" "ReadMessage S m2 hi1 = (Inr [], hi2)"
    and len: "48 \<le> length m1" "length m1 \<le> 65535" "48 \<le> length m2" "length m2 \<le> 65535"
  defines "w1 \<equiv> Preamble @ le 2 (of_nat (length m1) :: u16) @ m1"
    and "w2 \<equiv> Preamble @ le 2 (of_nat (length m2) :: u16) @ m2"
  shows "initiator_setup S hi \<lparr>lk_in = \<lparr>rd_data = w2 @ rest, rd_end = fin\<rparr>, lk_out = \<lparr>wr_data = [], wr_script = []\<rparr>\<rparr> =
      (Inr hi2, \<lparr>lk_in = \<lparr>rd_data = rest, rd_end = fin\<rparr>, lk_out = \<lparr>wr_data = w1, wr_script = []\<rparr>\<rparr>)"
    and "responder_setup S hr \<lparr>lk_in = \<lparr>rd_data = w1 @ rest, rd_end = fin\<rparr>, lk_out = \<lparr>wr_data = [], wr_script = []\<rparr>\<rparr> =
      (Inr hr2, \<lparr>lk_in = \<lparr>rd_data = rest, rd_end = fin\<rparr>, lk_out = \<lparr>wr_data = w2, wr_script = []\<rparr>\<rparr>)"
  using len by (simp_all add: initiator_setup_def responder_setup_def bindE_def lift_noise_def m1 m2
      writeFramed_def maxRecordSize_def size_defs Write_def w1_def w2_def on_in_def readVersion_ok
      readFramed_ok returnE_def)

end
