(* ===== verification/Noise_Theorems.thy ===== *)
theory Noise_Theorems
  imports Noise_Laws
begin

text \<open>
  The properties of \<^verbatim>\<open>internal/noise\<close>: agreement of the two sides, the transport round trip, the
  message counters, and the order of the steps.
\<close>

text \<open>
  C17. The derivation is the one the Noise specification prescribes: on a chaining key of the
  hash's length and for every number of outputs the handshake asks for, \<open>hkdfExpand\<close> succeeds and
  returns \<open>HMAC(temp, 0x01)\<close>, \<open>HMAC(temp, out1, 0x02)\<close>, \<open>HMAC(temp, out2, 0x03)\<close> with
  \<open>temp = HMAC(ck, ikm)\<close>, each 32 bytes.
\<close>

theorem hkdf_as_specified:
  assumes "length ck = 32"
  shows "let temp = hmac ck ikm; out1 = hmac temp [1]; out2 = hmac temp (out1 @ [2]); out3 = hmac temp (out2 @ [3])
    in hkdfExpand ck ikm 2 = Inr [out1, out2] \<and> hkdfExpand ck ikm 3 = Inr [out1, out2, out3] \<and>
       length out1 = 32 \<and> length out2 = 32 \<and> length out3 = 32"
proof -
  have "ck \<noteq> []"
    using assms by auto
  then show ?thesis
    by (auto simp: hkdfExpand_noise noise_hkdf_def numeral_2_eq_2 numeral_3_eq_3 Let_def)
qed

theorem hkdf_as_specified_witness:
  "hkdfExpand (replicate 32 7) [] 2 =
     Inr [hmac (hmac (replicate 32 7) []) [1],
          hmac (hmac (replicate 32 7) []) (hmac (hmac (replicate 32 7) []) [1] @ [2])]"
  using hkdf_as_specified [of "replicate 32 7" "[]"] by (simp add: Let_def)

text \<open>
  C10. Two sides with the same pre-shared key and prologue always complete the handshake when the
  messages arrive as sent: each message is 48 bytes longer than its payload, is accepted, and its
  payload comes back; both sides split, and each side's sending key is the other's receiving key with both counters at zero. What is
  assumed is that ChaCha20-Poly1305 opens what it sealed, that X25519 agrees from both sides and
  does not give the all-zero secret it refuses, and that each side can draw 32 random bytes.
\<close>

theorem handshake_agrees:
  assumes S: "aead_ok S" "dh_ok S" "x_ECDH S a (x_PublicKey S b) \<noteq> None"
    and psk: "length psk = 32" and rnd: "length a = 32" "length b = 32"
    and len: "length p1 \<le> MaxPlaintextSize" "length p2 \<le> MaxPlaintextSize"
  shows "\<exists>hi hr m1 hi1 hr1 m2 hr2 hi2 s r.
    NewHandshake \<lparr>rd_data = a @ ra, rd_end = ea\<rparr>
      \<lparr>cf_Initiator = True, cf_PSK = psk, cf_Prologue = pro, cf_Random = None\<rparr> = Inr hi \<and>
    NewHandshake \<lparr>rd_data = b @ rb, rd_end = eb\<rparr>
      \<lparr>cf_Initiator = False, cf_PSK = psk, cf_Prologue = pro, cf_Random = None\<rparr> = Inr hr \<and>
    WriteMessage S p1 hi = (Inr m1, hi1) \<and> ReadMessage S m1 hr = (Inr p1, hr1) \<and>
    WriteMessage S p2 hr1 = (Inr m2, hr2) \<and> ReadMessage S m2 hi1 = (Inr p2, hi2) \<and>
    length m1 = 48 + length p1 \<and> length m2 = 48 + length p2 \<and>
    Split hi2 = (Inr (s, r), hi2) \<and> Split hr2 = (Inr (r, s), hr2) \<and> Nonce s = 0 \<and> Nonce r = 0"
  by (rule handshake_completes [OF assms])

text \<open>A suite that keeps the laws, without the secrecy: the text with a tag of zeros, and constant keys.\<close>

definition null_suite :: suite where
  "null_suite = \<lparr>aead_Seal = (\<lambda>k n p ad. p @ replicate 16 0),
     aead_Open = (\<lambda>k n c ad. if drop (length c - 16) c = replicate 16 0 then Some (take (length c - 16) c) else None),
     x_PublicKey = (\<lambda>_. replicate 32 9), x_ECDH = (\<lambda>_ _. Some (replicate 32 5))\<rparr>"

lemma null_suite_ok: "aead_ok null_suite" "dh_ok null_suite"
proof -
  have "length c = length q + 16"
    if "(if drop (length c - 16) c = replicate 16 0 then Some (take (length c - 16) c) else None) = Some q"
    for c q :: bytes
  proof -
    from that have d: "drop (length c - 16) c = replicate 16 0" and q: "q = take (length c - 16) c"
      by (auto split: if_splits)
    from arg_cong [OF d, of length] q show ?thesis
      by (simp split: nat_diff_split)
  qed
  then show "aead_ok null_suite"
    unfolding aead_ok_def null_suite_def by simp
  show "dh_ok null_suite"
    by (simp add: dh_ok_def null_suite_def)
qed

theorem handshake_agrees_witness:
  "\<exists>hi m1 hi1. NewHandshake \<lparr>rd_data = replicate 32 1, rd_end = EOF\<rparr>
      \<lparr>cf_Initiator = True, cf_PSK = replicate 32 3, cf_Prologue = [72], cf_Random = None\<rparr> = Inr hi \<and>
    WriteMessage null_suite [] hi = (Inr m1, hi1)"
  using handshake_agrees [OF null_suite_ok, of "replicate 32 1" "replicate 32 2" "replicate 32 3" "[]" "[]" "[]" EOF "[72]" "[]" EOF]
  by (simp add: null_suite_def) blast

text \<open>
  The transport round trip: when a cipher state encrypted a sequence of messages, a cipher
  state with the same key and counter decrypts the ciphertexts in that order to the same messages,
  and the two states are equal again afterwards.
\<close>

theorem transport_roundtrip:
  assumes "aead_ok S" "encrypt_all S ps c = (Inr ms, c')"
  shows "decrypt_all S ms c = (Inr ps, c')"
  using assms by (rule decrypt_all_encrypt_all)

theorem transport_roundtrip_witness:
  "decrypt_all null_suite [[1] @ replicate 16 0, [2, 3] @ replicate 16 0] (fresh []) =
     (Inr [[1], [2, 3]], (fresh [])\<lparr>cs_nonce := 2\<rparr>)"
  by (rule transport_roundtrip [OF null_suite_ok(1)])
    (simp add: bindE_def returnE_def Encrypt_def cs_seal_def fresh_def nonceReserved_def size_defs null_suite_def)

text \<open>
  C12. A nonce is never used twice with one key and the counter never wraps: when \<open>n\<close> messages have
  been encrypted the counter has grown by exactly \<open>n\<close> as a number, message \<open>i\<close> was sealed under
  counter start + \<open>i\<close>, and the nonces of any two of them differ.
\<close>

theorem nonce_never_reused:
  assumes "encrypt_all S ps c = (Inr ms, c')"
  shows "unat (Nonce c') = unat (Nonce c) + length ps \<and>
    (\<forall>i < length ps. ms ! i = aead_Seal S (cs_key c) (nonceBytes (c\<lparr>cs_nonce := Nonce c + of_nat i\<rparr>)) (ps ! i) []) \<and>
    (\<forall>i j. i < j \<and> j < length ps \<longrightarrow>
       nonceBytes (c\<lparr>cs_nonce := Nonce c + of_nat i\<rparr>) \<noteq> nonceBytes (c\<lparr>cs_nonce := Nonce c + of_nat j\<rparr>))"
proof -
  note counts = encrypt_all_counts [OF assms]
  have "unat (cs_nonce c') < 2 ^ 64"
    using unsigned_less [of "cs_nonce c'", where ?'a = nat] by simp
  then have "length ps < 2 ^ 64"
    using counts by linarith
  then have "(of_nat i :: u64) \<noteq> of_nat j" if "i < j" "j < length ps" for i j
    using that by (auto dest: arg_cong [where f = unat])
  then have "le 8 (cs_nonce c + of_nat i) \<noteq> le 8 (cs_nonce c + of_nat j)" if "i < j" "j < length ps" for i j
    using that by (auto simp: le_inject)
  then show ?thesis
    using counts encrypt_all_nth [OF assms] by (simp add: nonceBytes_def Nonce_def)
qed

theorem nonce_never_reused_witness:
  "nonceBytes (fresh [1]) \<noteq> nonceBytes ((fresh [1])\<lparr>cs_nonce := 1\<rparr>)"
proof -
  have "encrypt_all null_suite [[1], [2]] (fresh [1]) =
      (Inr [[1] @ replicate 16 0, [2] @ replicate 16 0], (fresh [1])\<lparr>cs_nonce := 2\<rparr>)"
    by (simp add: bindE_def returnE_def Encrypt_def cs_seal_def fresh_def nonceReserved_def size_defs null_suite_def)
  from nonce_never_reused [OF this] have "0 < (1 :: nat) \<and> 1 < length [[1 :: byte], [2]] \<longrightarrow>
      nonceBytes ((fresh [1])\<lparr>cs_nonce := Nonce (fresh [1]) + of_nat 0\<rparr>) \<noteq>
      nonceBytes ((fresh [1])\<lparr>cs_nonce := Nonce (fresh [1]) + of_nat 1\<rparr>)"
    by blast
  then show ?thesis
    by (simp add: Nonce_def fresh_def)
qed

text \<open>
  A finished counter stays finished: at the reserved value neither direction carries another
  message, and the state does not change. A message that does not authenticate leaves the counter
  where it was.
\<close>

theorem counter_exhausted:
  "Encrypt S out p \<lparr>cs_key = k, cs_nonce = nonceReserved\<rparr> = (Inl CounterExhausted, \<lparr>cs_key = k, cs_nonce = nonceReserved\<rparr>) \<and>
   Decrypt S out m \<lparr>cs_key = k, cs_nonce = nonceReserved\<rparr> = (Inl CounterExhausted, \<lparr>cs_key = k, cs_nonce = nonceReserved\<rparr>) \<and>
   (case Decrypt S out m c of (Inl _, c') \<Rightarrow> c' = c | (Inr _, c') \<Rightarrow> c' = c\<lparr>cs_nonce := cs_nonce c + 1\<rparr>)"
  by (simp add: Encrypt_def Decrypt_def cs_seal_def cs_open_def split: option.split)

text \<open>
  C13. Keys are handed out only after the whole handshake: whatever messages are offered to the two
  methods and however often, if \<open>Split\<close> then returns keys, exactly two calls succeeded, on the
  initiator's side a write and then a read and on the responder's a read and then a write.
\<close>

theorem split_only_when_complete:
  assumes "NewHandshake rnd cfg = Inr h" "hs_run S cs h = (log, h')" "Split h' = (Inr keys, h'')"
  shows "log = (if cf_Initiator cfg then [True, False] else [False, True])"
proof -
  have h: "\<not> hs_failed h" "remaining h = [cf_Initiator cfg, \<not> cf_Initiator cfg]"
    using assms(1) by (auto simp: NewHandshake_def remaining_def split: if_splits)
  have "\<not> hs_failed h'" "remaining h' = []"
    using assms(3) by (auto simp: Split_def remaining_def split: if_splits)
  then show ?thesis
    using hs_run_remaining [OF h(1) assms(2)] h(2) by auto
qed

theorem split_only_when_complete_witness:
  "\<exists>cs h h' h'' keys log.
     NewHandshake \<lparr>rd_data = replicate 32 1, rd_end = EOF\<rparr>
       \<lparr>cf_Initiator = True, cf_PSK = replicate 32 3, cf_Prologue = [], cf_Random = None\<rparr> = Inr h \<and>
     hs_run null_suite cs h = (log, h') \<and> Split h' = (Inr keys, h'') \<and> log = [True, False]"
proof -
  obtain h m h1 h2 m2 s r where h: "NewHandshake \<lparr>rd_data = replicate 32 1, rd_end = EOF\<rparr>
       \<lparr>cf_Initiator = True, cf_PSK = replicate 32 3, cf_Prologue = [], cf_Random = None\<rparr> = Inr h"
      "WriteMessage null_suite [] h = (Inr m, h1)" "ReadMessage null_suite m2 h1 = (Inr [], h2)"
      "Split h2 = (Inr (s, r), h2)"
    using handshake_completes [OF null_suite_ok, of "replicate 32 1" "replicate 32 2" "replicate 32 3" "[]" "[]" "[]" EOF "[]" "[]" EOF]
    by (auto simp: null_suite_def)
  then have "hs_run null_suite [CallWrite [], CallRead m2] h = ([True, False], h2)"
    by simp
  with split_only_when_complete [OF h(1) this h(4)] h show ?thesis
    by blast
qed

text \<open>
  What a refusal does to a handshake that had not failed. A call out of turn, or a message too
  short to be one, is refused without any effect: the handshake is exactly as it was and still
  accepts the right call next. Every other refusal ends it, and no later call succeeds.
\<close>

theorem refusal_harmless_or_final:
  assumes "\<not> hs_failed h"
  shows "(hs_initiator h \<noteq> (hs_step h = InitiatorMessage) \<longrightarrow> (\<exists>e. WriteMessage S p h = (Inl e, h))) \<and>
    (hs_initiator h = (hs_step h = InitiatorMessage) \<longrightarrow> (\<exists>e. ReadMessage S m h = (Inl e, h))) \<and>
    (length m < 48 \<longrightarrow> (\<exists>e. ReadMessage S m h = (Inl e, h))) \<and>
    (\<forall>c e h' cs. do_call S c h = (Inl e, h') \<longrightarrow> h' = h \<or> fst (hs_run S cs h') = [])"
proof (intro conjI allI impI)
  fix c e h' cs
  assume "do_call S c h = (Inl e, h')"
  from do_call_steps(2) [OF this assms] show "h' = h \<or> fst (hs_run S cs h') = []"
    by (auto simp: failed_run)
qed (use assms in \<open>auto simp: WriteMessage_def ReadMessage_def size_defs\<close>)

theorem refusal_harmless_or_final_witness:
  "\<exists>h e. NewHandshake \<lparr>rd_data = [], rd_end = EOF\<rparr>
     \<lparr>cf_Initiator = False, cf_PSK = replicate 32 3, cf_Prologue = [], cf_Random = None\<rparr> = Inr h \<and>
     ReadMessage null_suite [1, 2, 3] h = (Inl e, h)"
proof -
  define h where "h = \<lparr>hs_sym = newSymmetric [], hs_initiator = False, hs_psk = replicate 32 3,
    hs_random = \<lparr>rd_data = [], rd_end = EOF\<rparr>, hs_e = None, hs_re = None,
    hs_step = InitiatorMessage, hs_failed = False\<rparr>"
  have "NewHandshake \<lparr>rd_data = [], rd_end = EOF\<rparr>
     \<lparr>cf_Initiator = False, cf_PSK = replicate 32 3, cf_Prologue = [], cf_Random = None\<rparr> = Inr h"
    by (simp add: NewHandshake_def KeySize_def h_def)
  moreover have "\<exists>e. ReadMessage null_suite [1, 2, 3] h = (Inl e, h)"
    using refusal_harmless_or_final [of h null_suite "[]" "[1, 2, 3]"] by (simp add: h_def)
  ultimately show ?thesis
    by blast
qed

end
