(* ===== verification/Wire_Record_Theorems.thy ===== *)
theory Wire_Record_Theorems
  imports Wire_Record_Laws Wire_Stream Noise_Theorems
begin

text \<open>
  The properties of the connection below the messages: two ends set a session up, what one writes
  the other reads, and messages survive the whole stack.
\<close>

lemma session_setup:
  assumes S: "aead_ok S" "dh_ok S" "x_ECDH S a (x_PublicKey S b) \<noteq> None"
    and psk: "length psk = 32" and rnd: "length a = 32" "length b = 32"
  shows "\<exists>w1 w2 s r. length w1 = 55 \<and> length w2 = 55 \<and> take 5 w1 = Preamble \<and> take 5 w2 = Preamble \<and> Nonce s = 0 \<and> Nonce r = 0 \<and>
    (\<forall>rest fin.
      wire_Handshake S \<lparr>rd_data = a @ ra, rd_end = ea\<rparr> psk True
        \<lparr>lk_in = \<lparr>rd_data = w2 @ rest, rd_end = fin\<rparr>, lk_out = \<lparr>wr_data = [], wr_script = []\<rparr>\<rparr> =
      (Inr \<lparr>sn_Reader = NewRecordReader \<lparr>rd_data = rest, rd_end = fin\<rparr> r,
            sn_Writer = NewRecordWriter \<lparr>wr_data = w1, wr_script = []\<rparr> s\<rparr>,
       \<lparr>lk_in = \<lparr>rd_data = rest, rd_end = fin\<rparr>, lk_out = \<lparr>wr_data = w1, wr_script = []\<rparr>\<rparr>)) \<and>
    (\<forall>rest fin.
      wire_Handshake S \<lparr>rd_data = b @ rb, rd_end = eb\<rparr> psk False
        \<lparr>lk_in = \<lparr>rd_data = w1 @ rest, rd_end = fin\<rparr>, lk_out = \<lparr>wr_data = [], wr_script = []\<rparr>\<rparr> =
      (Inr \<lparr>sn_Reader = NewRecordReader \<lparr>rd_data = rest, rd_end = fin\<rparr> s,
            sn_Writer = NewRecordWriter \<lparr>wr_data = w2, wr_script = []\<rparr> r\<rparr>,
       \<lparr>lk_in = \<lparr>rd_data = rest, rd_end = fin\<rparr>, lk_out = \<lparr>wr_data = w2, wr_script = []\<rparr>\<rparr>))"
proof -
  from handshake_completes [OF S psk rnd, of "[]" "[]" ra ea Preamble rb eb]
  obtain hi hr m1 hi1 hr1 m2 hr2 hi2 s r 
    where new: "NewHandshake \<lparr>rd_data = a @ ra, rd_end = ea\<rparr>
      \<lparr>cf_Initiator = True, cf_PSK = psk, cf_Prologue = Preamble, cf_Random = None\<rparr> = Inr hi"
    "NewHandshake \<lparr>rd_data = b @ rb, rd_end = eb\<rparr>
      \<lparr>cf_Initiator = False, cf_PSK = psk, cf_Prologue = Preamble, cf_Random = None\<rparr> = Inr hr"
    and m: "WriteMessage S [] hi = (Inr m1, hi1)" "ReadMessage S m1 hr = (Inr [], hr1)"
    "WriteMessage S [] hr1 = (Inr m2, hr2)" "ReadMessage S m2 hi1 = (Inr [], hi2)"
    and len: "length m1 = 48" "length m2 = 48"
    and split: "Split hi2 = (Inr (s, r), hi2)" "Split hr2 = (Inr (r, s), hr2)" "Nonce s = 0" "Nonce r = 0"
    by auto
  note agreed = setup_agrees [OF m, unfolded len, simplified]
  have "length Preamble = 5"
    by (simp add: Preamble_def magic_def)
  then show ?thesis
    by (intro exI [of _ "Preamble @ le 2 (48 :: u16) @ m1"] exI [of _ "Preamble @ le 2 (48 :: u16) @ m2"]
        exI [of _ s] exI [of _ r])
      (simp add: wire_Handshake_def new bindE_def agreed lift_noise_def split len)
qed

text \<open>
  Two ends with the same secret set a session up in one round trip. There are bytes \<open>w1\<close> and
  \<open>w2\<close>, each the preamble and a framed 48-byte handshake message, such that the initiator sends
  \<open>w1\<close> and is satisfied by \<open>w2\<close>, the responder sends \<open>w2\<close> on receiving \<open>w1\<close>, neither consumes a
  byte beyond them, and each writer's cipher state equals the other end's reader's, with its counter
  at zero.
\<close>

theorem session_agrees:
  assumes S: "aead_ok S" "dh_ok S" "x_ECDH S a (x_PublicKey S b) \<noteq> None"
    and psk: "length psk = 32" and rnd: "length a = 32" "length b = 32"
  shows "\<exists>w1 w2 s r. length w1 = 55 \<and> length w2 = 55 \<and> take 5 w1 = Preamble \<and> take 5 w2 = Preamble \<and> Nonce s = 0 \<and> Nonce r = 0 \<and>
    (\<forall>rest fin.
      wire_Handshake S \<lparr>rd_data = a @ ra, rd_end = ea\<rparr> psk True
        \<lparr>lk_in = \<lparr>rd_data = w2 @ rest, rd_end = fin\<rparr>, lk_out = \<lparr>wr_data = [], wr_script = []\<rparr>\<rparr> =
      (Inr \<lparr>sn_Reader = NewRecordReader \<lparr>rd_data = rest, rd_end = fin\<rparr> r,
            sn_Writer = NewRecordWriter \<lparr>wr_data = w1, wr_script = []\<rparr> s\<rparr>,
       \<lparr>lk_in = \<lparr>rd_data = rest, rd_end = fin\<rparr>, lk_out = \<lparr>wr_data = w1, wr_script = []\<rparr>\<rparr>)) \<and>
    (\<forall>rest fin.
      wire_Handshake S \<lparr>rd_data = b @ rb, rd_end = eb\<rparr> psk False
        \<lparr>lk_in = \<lparr>rd_data = w1 @ rest, rd_end = fin\<rparr>, lk_out = \<lparr>wr_data = [], wr_script = []\<rparr>\<rparr> =
      (Inr \<lparr>sn_Reader = NewRecordReader \<lparr>rd_data = rest, rd_end = fin\<rparr> s,
            sn_Writer = NewRecordWriter \<lparr>wr_data = w2, wr_script = []\<rparr> r\<rparr>,
       \<lparr>lk_in = \<lparr>rd_data = rest, rd_end = fin\<rparr>, lk_out = \<lparr>wr_data = w2, wr_script = []\<rparr>\<rparr>))"
  using assms by (rule session_setup)

theorem session_agrees_witness:
  "\<exists>w2 r l. fst (wire_Handshake null_suite \<lparr>rd_data = replicate 32 1, rd_end = EOF\<rparr> (replicate 32 3) True
      \<lparr>lk_in = \<lparr>rd_data = w2, rd_end = EOF\<rparr>, lk_out = \<lparr>wr_data = [], wr_script = []\<rparr>\<rparr>) = Inr r"
proof -
  have "x_ECDH null_suite x y \<noteq> None" for x y
    by (simp add: null_suite_def)
  from session_agrees [OF null_suite_ok this, of "replicate 32 3" "replicate 32 1" "replicate 32 2" "[]" EOF "[]" EOF]
  show ?thesis
    by simp (metis append_Nil2 fst_conv)
qed

text \<open>
  A record stream is a byte stream: whatever sequence of slices was written without error, the
  reader that starts from the same cipher state delivers exactly their concatenation and then the
  end of the connection, however the slices were cut into records; and the byte counts \<open>Write\<close>
  returns are the lengths of the slices.
\<close>

theorem records_roundtrip:
  assumes "aead_ok S" "write_all S ps (NewRecordWriter \<lparr>wr_data = [], wr_script = script\<rparr> c) = (None, rw)"
  shows "rr_view S (NewRecordReader \<lparr>rd_data = wr_data (rw_w rw), rd_end = fin\<rparr> c) =
    \<lparr>rd_data = concat ps, rd_end = fin\<rparr>"
  using records_view [OF assms] .

lemma two_records:
  "write_all null_suite [[7], [], [8, 9]] (NewRecordWriter \<lparr>wr_data = [], wr_script = []\<rparr> (fresh [])) =
    (None, \<lparr>rw_w = \<lparr>wr_data = [17, 0, 7] @ replicate 16 0 @ [18, 0, 8, 9] @ replicate 16 0, wr_script = []\<rparr>,
      rw_cipher = (fresh [])\<lparr>cs_nonce := 2\<rparr>\<rparr>)"
  by (simp add: NewRecordWriter_def RecordWriter_Write_def rw_loop.simps Let_def Encrypt_def cs_seal_def
      nonceReserved_def fresh_def null_suite_def size_defs maxRecordPlaintext_def Write_def le_numeral)

theorem records_roundtrip_witness:
  "rr_view null_suite (NewRecordReader \<lparr>rd_data = [17, 0, 7] @ replicate 16 0 @ [18, 0, 8, 9] @ replicate 16 0, rd_end = EOF\<rparr> (fresh [])) =
    \<lparr>rd_data = [7, 8, 9], rd_end = EOF\<rparr>"
  using records_roundtrip [OF null_suite_ok(1) two_records, of EOF] by simp

text \<open>
  C16. The decoder may read from a record stream as if it were the plain stream: \<open>io.ReadFull\<close> on a
  \<open>RecordReader\<close> always returns, with exactly the bytes or the error that \<open>io.ReadFull\<close> of the
  plaintext stream gives, and after a full read the stream that is left is the same too.
\<close>

theorem record_reader_refines_stream:
  assumes "aead_ok S"
  shows "\<exists>rr'. io_ReadFull (rr_Read_io S) n rr = Some (fst (ReadFull n (rr_view S rr)), rr') \<and>
    (n \<le> length (rd_data (rr_view S rr)) \<longrightarrow> rr_view S rr' = snd (ReadFull n (rr_view S rr)))"
  using records.io_ReadFull_view [OF assms, of n rr] by blast

theorem record_reader_refines_stream_witness:
  "\<exists>rr'. io_ReadFull (rr_Read_io null_suite) 3
     (NewRecordReader \<lparr>rd_data = [17, 0, 7] @ replicate 16 0 @ [18, 0, 8, 9] @ replicate 16 0, rd_end = EOF\<rparr> (fresh [])) =
     Some (Inr [7, 8, 9], rr')"
  using record_reader_refines_stream [OF null_suite_ok(1), of 3
      "NewRecordReader \<lparr>rd_data = [17, 0, 7] @ replicate 16 0 @ [18, 0, 8, 9] @ replicate 16 0, rd_end = EOF\<rparr> (fresh [])"]
    records_view [OF null_suite_ok(1) two_records, of EOF] by (auto simp: ReadFull_def)

text \<open>
  C9. Messages survive the whole stack. Whatever messages the encoder of one role accepted, and
  however their bytes were then sliced into writes and records, a decoder of the other role that
  reads the record stream with the matching cipher state reads the same messages in the same order.
\<close>

theorem messages_over_records:
  assumes "aead_ok S" and "send_all (NewEncoder \<lparr>wr_data = [], wr_script = script\<rparr> r) ms = (None, e)"
    and "r' \<noteq> r" and "concat ps = wr_data (e_w e)"
    and "write_all S ps (NewRecordWriter \<lparr>wr_data = [], wr_script = script'\<rparr> c) = (None, rw)"
  shows "fst (recv_n (length ms) (NewDecoder
    (rr_view S (NewRecordReader \<lparr>rd_data = wr_data (rw_w rw), rd_end = fin\<rparr> c)) r')) = ms"
  using stream_decodes [OF assms(2,3)] by (simp add: records_view [OF assms(1,5)] assms(4))

theorem messages_over_records_witness:
  "fst (recv_n 1 (NewDecoder (rr_view null_suite (NewRecordReader
     \<lparr>rd_data = [17, 0, 0x14] @ replicate 16 0 @ [24, 0, 7, 0, 0, 0, 0, 0, 0, 0] @ replicate 16 0, rd_end = EOF\<rparr> (fresh []))) RoleClient)) =
   [Cancel 7]"
proof -
  have "send_all (NewEncoder \<lparr>wr_data = [], wr_script = []\<rparr> RoleServer) [Cancel 7] =
      (None, \<lparr>e_w = \<lparr>wr_data = [0x14, 7, 0, 0, 0, 0, 0, 0, 0], wr_script = []\<rparr>, e_role = RoleServer, e_sentHello = False\<rparr>)"
    by code_simp
  moreover have "write_all null_suite [[0x14], [7, 0, 0, 0, 0, 0, 0, 0]] (NewRecordWriter \<lparr>wr_data = [], wr_script = []\<rparr> (fresh [])) =
    (None, \<lparr>rw_w = \<lparr>wr_data = [17, 0, 0x14] @ replicate 16 0 @ [24, 0, 7, 0, 0, 0, 0, 0, 0, 0] @ replicate 16 0, wr_script = []\<rparr>,
      rw_cipher = (fresh [])\<lparr>cs_nonce := 2\<rparr>\<rparr>)"
    by (simp add: NewRecordWriter_def RecordWriter_Write_def rw_loop.simps Let_def Encrypt_def cs_seal_def
      nonceReserved_def fresh_def null_suite_def size_defs maxRecordPlaintext_def Write_def le_numeral)
  ultimately show ?thesis
    using messages_over_records [OF null_suite_ok(1), of "[]" RoleServer "[Cancel 7]" _ RoleClient
        "[[0x14], [7, 0, 0, 0, 0, 0, 0, 0]]" "[]" "fresh []" _ EOF] by fastforce
qed

text \<open>
  Strangers and other versions are told apart before any secret is used: with a proper random
  source, on five bytes that do not begin with the magic the responder gives \<open>ErrNotPeer\<close>, on the
  magic followed by another version \<open>VersionError\<close>, and in both cases it has written nothing.
\<close>

theorem responder_preamble_refusals:
  assumes "length psk = 32" "length bs = 5"
  shows "(take 4 bs \<noteq> magic \<longrightarrow> wire_Handshake S rnd psk False \<lparr>lk_in = \<lparr>rd_data = bs @ rest, rd_end = fin\<rparr>, lk_out = w\<rparr> =
      (Inl ErrNotPeer, \<lparr>lk_in = \<lparr>rd_data = rest, rd_end = fin\<rparr>, lk_out = w\<rparr>)) \<and>
    (take 4 bs = magic \<and> bs ! 4 \<noteq> 0 \<longrightarrow>
      wire_Handshake S rnd psk False \<lparr>lk_in = \<lparr>rd_data = bs @ rest, rd_end = fin\<rparr>, lk_out = w\<rparr> =
      (Inl (VersionError 0 (bs ! 4)), \<lparr>lk_in = \<lparr>rd_data = rest, rd_end = fin\<rparr>, lk_out = w\<rparr>))"
  using assms by (auto simp: wire_Handshake_def NewHandshake_def KeySize_def bindE_def responder_setup_def
      on_in_def readVersion_def ReadPreamble_def ReadFull_def PreambleSize_def VersionNewest_def failE_def)

theorem responder_preamble_refusals_witness:
  "fst (wire_Handshake null_suite \<lparr>rd_data = [], rd_end = EOF\<rparr> (replicate 32 3) False
     \<lparr>lk_in = \<lparr>rd_data = str_bytes ''GET / HTTP/1.1'', rd_end = EOF\<rparr>, lk_out = \<lparr>wr_data = [], wr_script = []\<rparr>\<rparr>) =
   Inl ErrNotPeer"
  using responder_preamble_refusals [of "replicate 32 3" "str_bytes ''GET /''" null_suite
      "\<lparr>rd_data = [], rd_end = EOF\<rparr>" "str_bytes '' HTTP/1.1''" EOF "\<lparr>wr_data = [], wr_script = []\<rparr>"]
  by (simp add: magic_def str_bytes_def)

end
