(* ===== verification/Conn_Over.thy ===== *)
theory Conn_Over
  imports Conn Wire_Record_Theorems
begin

text \<open>
  A connection on top of a session's two record streams, as \<open>accept\<close> and \<open>session\<close> make it. Its
  decoder reads the plaintext of the record reader. Its encoder writes on the record writer; what
  matters to the connection is how those writes go, which is a script of outcomes.
\<close>

definition conn_over :: "suite \<Rightarrow> Session \<Rightarrow> (io_error \<times> nat) option list \<Rightarrow> role \<Rightarrow> string \<Rightarrow> conn" where
  "conn_over S sn script role peer = newConn (rr_view S (sn_Reader sn)) \<lparr>wr_data = [], wr_script = script\<rparr> role peer"

subsection \<open>A record writer is a writer with a script\<close>

text \<open>A sequence of writes that goes on after a failure, on a record writer and on a plain one.\<close>

fun record_writes :: "suite \<Rightarrow> bytes list \<Rightarrow> RecordWriter \<Rightarrow> (record_error option \<times> nat) list \<times> RecordWriter" where
  "record_writes S [] rw = ([], rw)"
| "record_writes S (p # ps) rw = (case RecordWriter_Write S p rw of (r, rw') \<Rightarrow> apfst ((#) r) (record_writes S ps rw'))"

fun plain_writes :: "bytes list \<Rightarrow> writer \<Rightarrow> io_error option list \<times> writer" where
  "plain_writes [] w = ([], w)"
| "plain_writes (p # ps) w = (case Write p w of (r, w') \<Rightarrow> apfst ((#) r) (plain_writes ps w'))"

fun outcome_of :: "record_error option \<times> nat \<Rightarrow> (io_error \<times> nat) option" where
  "outcome_of (None, _) = None"
| "outcome_of (Some e, k) = Some (as_io e, k)"

lemma plain_writes_script:
  "length os = length ps \<Longrightarrow>
   fst (plain_writes ps \<lparr>wr_data = d, wr_script = os\<rparr>) = map (map_option fst) os"
proof (induction ps arbitrary: os d)
  case (Cons p ps)
  then obtain x os' where os: "os = x # os'" "length os' = length ps"
    by (cases os) auto
  have "\<exists>d'. Write p \<lparr>wr_data = d, wr_script = os\<rparr> = (map_option fst x, \<lparr>wr_data = d', wr_script = os'\<rparr>)"
    by (cases x) (auto simp: Write_def os)
  with Cons.IH [OF os(2)] show ?case
    by (auto simp: os)
qed simp

lemma length_record_writes: "length (fst (record_writes S ps rw)) = length ps"
  by (induction ps arbitrary: rw) (auto split: prod.split)

text \<open>
  Whatever is written on a record writer, there is a script with which a plain writer gives the same
  outcome for every write; and when all of them succeed, what the peer's record reader delivers is
  what the plain writer has taken.
\<close>

theorem record_writer_refines_writer:
  fixes rw :: RecordWriter
  shows "\<exists>script. fst (plain_writes ps \<lparr>wr_data = [], wr_script = script\<rparr>) =
      map (map_option as_io \<circ> fst) (fst (record_writes S ps rw))"
proof -
  let ?os = "map outcome_of (fst (record_writes S ps rw))"
  have "map_option fst (outcome_of x) = map_option as_io (fst x)" for x
    by (cases x rule: outcome_of.cases) simp_all
  then show ?thesis
    using plain_writes_script [of ?os ps "[]"] by (intro exI [of _ ?os]) (simp add: length_record_writes)
qed

end
