(* ===== verification/Client.thy ===== *)
theory Client
  imports Endpoint_Ports Conn_Over
begin

text \<open>
  \<^verbatim>\<open>internal/peer/client.go\<close>: the peer that dials, and dials again. Times are nanoseconds. A turn of
  the loop of \<open>Run\<close> brings along what it meets: whether the daemon was stopping when it began, what
  dialling gave, the random bytes of the handshake, how the writes on the connection went, the slot
  counts its jobs left, whether the daemon was stopping after it, what \<open>rand.Int63n\<close> draws, and which
  of the two channels ended the wait.
\<close>

definition backoffFirst :: int where "backoffFirst = 1000000000"
definition backoffLongest :: int where "backoffLongest = 60 * 1000000000"

definition jitter :: "(int \<Rightarrow> int) \<Rightarrow> int \<Rightarrow> int" where
  "jitter Int63n d = d div 2 + Int63n (d div 2 + 1)"

datatype woke = TimerC | DoneC

definition sleep :: "woke \<Rightarrow> bool" where
  "sleep w \<longleftrightarrow> w = TimerC"

record client =
  cl_cfg :: Conf
  cl_endpoint :: endpoint

definition NewClient :: "Conf \<Rightarrow> client" where
  "NewClient cfg = \<lparr>cl_cfg = cfg, cl_endpoint = NewEndpoint cfg\<rparr>"

record turn =
  tn_stopping :: bool
  tn_dial :: "io_error + link"
  tn_rand :: reader
  tn_script :: "(io_error \<times> nat) option list"
  tn_number :: nat
  tn_running :: "string \<Rightarrow> int"
  tn_stopped :: bool
  tn_Int63n :: "int \<Rightarrow> int"
  tn_woke :: woke

datatype session_end = DialFailed io_error | NoHandshake wire_setup_error | SessionEnded peer_error

text \<open>\<open>session\<close>: dialling, the handshake, and the connection to its end.\<close>

definition session :: "suite \<Rightarrow> turn \<Rightarrow> client \<Rightarrow> (bool \<times> session_end) \<times> client \<times> conn option" where
  "session S t c =
     (case tn_dial t of
        Inl err \<Rightarrow> ((False, DialFailed err), c, None)
      | Inr raw \<Rightarrow>
          (case wire_Handshake S (tn_rand t) (cf_Secret (cl_cfg c)) True raw of
             (Inl err, _) \<Rightarrow> ((False, NoHandshake err), c, None)
           | (Inr sn, _) \<Rightarrow>
               (case Serve (tn_number t) (tn_running t) (cl_endpoint c)
                       (conn_over S sn (tn_script t) RoleClient (cf_Server (cl_cfg c))) of
                  (err, e, conn) \<Rightarrow> ((True, SessionEnded err), c\<lparr>cl_endpoint := e\<rparr>, Some conn))))"

text \<open>The waits the loop made, and whether it has returned.\<close>

fun run_turns :: "suite \<Rightarrow> int \<Rightarrow> turn list \<Rightarrow> client \<Rightarrow> int list \<times> bool \<times> client" where
  "run_turns S backoff [] c = ([], False, c)"
| "run_turns S backoff (t # ts) c =
     (if tn_stopping t then ([], True, c)
      else case session S t c of
             ((connected, err), c, _) \<Rightarrow>
               if tn_stopped t then ([], True, c)
               else let backoff = (if connected then backoffFirst else backoff);
                        wait = jitter (tn_Int63n t) backoff
                    in if \<not> sleep (tn_woke t) then ([wait], True, c)
                       else apfst ((#) wait) (run_turns S (min (backoff * 2) backoffLongest) ts c))"

text \<open>\<open>Run\<close>: the waits it made, what it has returned if it has, and the ports it leaves.\<close>

definition client_Run :: "((nat \<times> string) list \<Rightarrow> string \<Rightarrow> io_error option) \<Rightarrow> suite \<Rightarrow> turn list \<Rightarrow> client \<Rightarrow> net \<Rightarrow>
    int list \<times> run_error option option \<times> client \<times> net" where
  "client_Run os S ts c n =
     (case Start os (cl_endpoint c) n of
        (Some err, e, n) \<Rightarrow> ([], Some (Some err), c\<lparr>cl_endpoint := e\<rparr>, n)
      | (None, e, n) \<Rightarrow>
          (case run_turns S backoffFirst ts (c\<lparr>cl_endpoint := e\<rparr>) of
             (waits, False, c) \<Rightarrow> (waits, None, c, n)
           | (waits, True, c) \<Rightarrow>
               (case ep_Close (cl_endpoint c) n of (e, n) \<Rightarrow> (waits, Some None, c\<lparr>cl_endpoint := e\<rparr>, n))))"

text \<open>What \<open>LogState\<close> prints.\<close>

definition client_LogState :: "client \<Rightarrow> (string \<times> bool) \<times> Provide list \<times> Consume list" where
  "client_LogState c = ((cf_Server (cl_cfg c), connection (cl_endpoint c) \<noteq> None), cf_Provide (cl_cfg c), cf_Consume (cl_cfg c))"

subsection \<open>Sessions\<close>

text \<open>Whether a session was ever made depends on the dialling and the handshake only.\<close>

definition connects :: "suite \<Rightarrow> Conf \<Rightarrow> turn \<Rightarrow> bool" where
  "connects S cfg t \<longleftrightarrow> (case tn_dial t of Inl _ \<Rightarrow> False
     | Inr raw \<Rightarrow> (case wire_Handshake S (tn_rand t) (cf_Secret cfg) True raw of (Inl _, _) \<Rightarrow> False | (Inr _, _) \<Rightarrow> True))"

text \<open>What a session keeps of the client, apart from the slot counts.\<close>

definition same_role :: "client \<Rightarrow> client \<Rightarrow> bool" where
  "same_role c c' \<longleftrightarrow> cl_cfg c' = cl_cfg c \<and> ep_listeners (cl_endpoint c') = ep_listeners (cl_endpoint c) \<and>
     ep_servers (cl_endpoint c') = ep_servers (cl_endpoint c) \<and> (ep_conn (cl_endpoint c) = None \<longrightarrow> ep_conn (cl_endpoint c') = None)"

lemma session_frame:
  "session S t c = ((connected, err), c', conn) \<Longrightarrow> connected = connects S (cl_cfg c) t \<and> same_role c c'"
  by (auto simp: session_def connects_def same_role_def Serve_def attach_def Let_def split: sum.splits prod.splits)

subsection \<open>Waiting\<close>

definition ends_loop :: "turn \<Rightarrow> bool" where
  "ends_loop t \<longleftrightarrow> tn_stopping t \<or> tn_stopped t \<or> \<not> sleep (tn_woke t)"

lemma same_role_refl [simp]: "same_role c c"
  by (simp add: same_role_def)

lemma same_role_trans: "same_role c c' \<Longrightarrow> same_role c' c'' \<Longrightarrow> same_role c c''"
  by (simp add: same_role_def)

lemma run_turns_go:
  assumes "\<not> ends_loop t"
  obtains c' where "same_role c c'" "run_turns S b (t # ts) c =
    (let d = (if connects S (cl_cfg c) t then backoffFirst else b)
     in apfst ((#) (jitter (tn_Int63n t) d)) (run_turns S (min (d * 2) backoffLongest) ts c'))"
proof -
  obtain connected err c' conn where s: "session S t c = ((connected, err), c', conn)"
    by (metis prod.exhaust)
  with assms session_frame [OF s] show thesis
    by (intro that [of c']) (simp_all add: ends_loop_def Let_def)
qed

lemma run_turns_end:
  assumes "ends_loop t"
  obtains ws c' where "same_role c c'" "run_turns S b (t # ts) c = (ws, True, c')"
    "ws = [] \<or> ws = [jitter (tn_Int63n t) (if connects S (cl_cfg c) t then backoffFirst else b)]"
proof (cases "tn_stopping t")
  case True
  then show thesis
    by (intro that [of c "[]"]) simp_all
next
  case False
  obtain connected err c' conn where s: "session S t c = ((connected, err), c', conn)"
    by (metis prod.exhaust)
  let ?ws = "if tn_stopped t then [] else [jitter (tn_Int63n t) (if connects S (cl_cfg c) t then backoffFirst else b)]"
  from False assms s session_frame [OF s] show thesis
    by (intro that [of c' ?ws]) (auto simp: ends_loop_def Let_def)
qed

definition draws :: "turn \<Rightarrow> bool" where
  "draws t \<longleftrightarrow> (\<forall>n > 0. 0 \<le> tn_Int63n t n \<and> tn_Int63n t n < n)"

lemma jitter_bounds:
  assumes "draws t" "2 \<le> d"
  shows "d div 2 \<le> jitter (tn_Int63n t) d" "jitter (tn_Int63n t) d \<le> d"
proof -
  have "0 \<le> tn_Int63n t (d div 2 + 1)" "tn_Int63n t (d div 2 + 1) < d div 2 + 1"
    using assms(1) [unfolded draws_def, rule_format, of "d div 2 + 1"] assms(2) by linarith+
  moreover have "2 * (d div 2) \<le> d"
    by simp
  ultimately show "d div 2 \<le> jitter (tn_Int63n t) d" "jitter (tn_Int63n t) d \<le> d"
    unfolding jitter_def by linarith+
qed

text \<open>How long the wait is meant to be after \<open>k\<close> sessions in a row that never connected.\<close>

definition backoff_after :: "nat \<Rightarrow> int" where
  "backoff_after k = min (backoffFirst * 2 ^ k) backoffLongest"

lemma backoff_after_Suc: "min (backoff_after k * 2) backoffLongest = backoff_after (Suc k)"
  by (simp add: backoff_after_def backoffLongest_def min_def)

lemma backoff_after_bounds: "backoffFirst \<le> backoff_after k" "backoff_after k \<le> backoffLongest"
  by (simp_all add: backoff_after_def backoffFirst_def backoffLongest_def)

fun fails_before :: "suite \<Rightarrow> Conf \<Rightarrow> nat \<Rightarrow> turn list \<Rightarrow> nat list" where
  "fails_before S cfg k [] = []"
| "fails_before S cfg k (t # ts) = (let k = (if connects S cfg t then 0 else k) in k # fails_before S cfg (Suc k) ts)"

lemma run_turns_waits:
  assumes "list_all draws ts" "run_turns S (backoff_after k) ts c = (waits, returned, c')" "cl_cfg c = cfg"
  shows "length waits \<le> length ts \<and> (\<forall>i < length waits.
    backoff_after (fails_before S cfg k ts ! i) div 2 \<le> waits ! i \<and> waits ! i \<le> backoff_after (fails_before S cfg k ts ! i))"
  using assms
proof (induction ts arbitrary: k waits c)
  case (Cons t ts)
  define j where "j = (if connects S cfg t then 0 else k)"
  have b: "(if connects S (cl_cfg c) t then backoffFirst else backoff_after k) = backoff_after j"
    using Cons.prems(3) by (simp add: j_def backoff_after_def backoffFirst_def backoffLongest_def)
  have fails: "fails_before S cfg k (t # ts) = j # fails_before S cfg (Suc j) ts"
    by (simp add: j_def Let_def)
  have "2 \<le> backoff_after j"
    using backoff_after_bounds(1) [of j] by (simp add: backoffFirst_def)
  from Cons.prems(1) have "draws t" by simp
  note jit = jitter_bounds [OF this \<open>2 \<le> backoff_after j\<close>]
  show ?case
  proof (cases "ends_loop t")
    case True
    from run_turns_end [OF this, of c S "backoff_after k" ts, unfolded b] Cons.prems(2)
    have "waits = [] \<or> waits = [jitter (tn_Int63n t) (backoff_after j)]"
      by (metis prod.inject)
    with jit fails show ?thesis
      by auto
  next
    case False
    obtain c1 where c1: "same_role c c1"
        "run_turns S (backoff_after k) (t # ts) c = apfst ((#) (jitter (tn_Int63n t) (backoff_after j))) (run_turns S (backoff_after (Suc j)) ts c1)"
      by (rule run_turns_go [OF False, of c S "backoff_after k" ts, unfolded Let_def b backoff_after_Suc])
    obtain ws where ws: "run_turns S (backoff_after (Suc j)) ts c1 = (ws, returned, c')" "waits = jitter (tn_Int63n t) (backoff_after j) # ws"
      using Cons.prems(2) unfolding c1(2)
      by (cases "run_turns S (backoff_after (Suc j)) ts c1") auto
    have "cl_cfg c1 = cfg"
      using c1(1) Cons.prems(3) by (simp add: same_role_def)
    from Cons.IH [OF _ ws(1) this] Cons.prems(1) ws(2) jit fails show ?thesis
      by (auto simp: nth_Cons split: nat.split)
  qed
qed simp

lemma run_turns_returned:
  assumes "run_turns S b ts c = (waits, returned, c')"
  shows "(returned \<longleftrightarrow> list_ex ends_loop ts) \<and> (\<not> returned \<longrightarrow> length waits = length ts) \<and> same_role c c'"
  using assms
proof (induction ts arbitrary: b waits c)
  case (Cons t ts)
  show ?case
  proof (cases "ends_loop t")
    case True
    obtain ws c1 where "same_role c c1" "run_turns S b (t # ts) c = (ws, True, c1)"
      by (rule run_turns_end [OF True, of c S b ts])
    with Cons.prems True show ?thesis
      by simp
  next
    case False
    let ?d = "if connects S (cl_cfg c) t then backoffFirst else b"
    obtain c1 where c1: "same_role c c1"
        "run_turns S b (t # ts) c = apfst ((#) (jitter (tn_Int63n t) ?d)) (run_turns S (min (?d * 2) backoffLongest) ts c1)"
      by (rule run_turns_go [OF False, of c S b ts, unfolded Let_def])
    obtain ws where "run_turns S (min (?d * 2) backoffLongest) ts c1 = (ws, returned, c')" "length waits = Suc (length ws)"
      using Cons.prems unfolding c1(2)
      by (cases "run_turns S (min (?d * 2) backoffLongest) ts c1") auto
    from Cons.IH [OF this(1)] this(2) False c1(1) show ?thesis
      by (auto intro: same_role_trans)
  qed
qed simp

text \<open>
  C31. The client waits between reconnects within bounds. The wait after \<open>k\<close> attempts in a row that never
  connected lies between half and the whole of \<open>2\<^sup>k\<close> seconds, capped at a minute; a session that connected
  starts the count again. So no wait is shorter than half a second or longer than a minute.
\<close>

theorem backoff_bounds:
  assumes "list_all draws ts" "client_Run os S ts (NewClient cfg) n = (waits, r, c, n')" "i < length waits"
  shows "min (1000000000 * 2 ^ (fails_before S cfg 0 ts ! i)) 60000000000 div 2 \<le> waits ! i \<and>
    waits ! i \<le> min (1000000000 * 2 ^ (fails_before S cfg 0 ts ! i)) 60000000000 \<and>
    500000000 \<le> waits ! i \<and> waits ! i \<le> 60000000000"
proof -
  let ?b = "backoff_after (fails_before S cfg 0 ts ! i)"
  have first: "backoffFirst = backoff_after 0"
    by (simp add: backoff_after_def backoffFirst_def backoffLongest_def)
  obtain e returned c' where "run_turns S (backoff_after 0) ts ((NewClient cfg)\<lparr>cl_endpoint := e\<rparr>) = (waits, returned, c')"
    using assms(2,3) unfolding first [symmetric] by (fastforce simp: client_Run_def split: prod.splits option.splits bool.splits)
  from run_turns_waits [OF assms(1) this] assms(3) have w: "?b div 2 \<le> waits ! i" "waits ! i \<le> ?b"
    by (simp_all add: NewClient_def)
  have "1000000000 \<le> ?b" "?b \<le> 60000000000"
    using backoff_after_bounds [of "fails_before S cfg 0 ts ! i"] by (simp_all add: backoffFirst_def backoffLongest_def)
  with w have "500000000 \<le> waits ! i" "waits ! i \<le> 60000000000"
    by linarith+
  moreover have b: "?b = min (1000000000 * 2 ^ (fails_before S cfg 0 ts ! i)) 60000000000"
    by (simp add: backoff_after_def backoffFirst_def backoffLongest_def)
  ultimately show ?thesis
    using w unfolding b by blast
qed

definition unreachable :: turn where
  "unreachable = \<lparr>tn_stopping = False, tn_dial = Inl EOF, tn_rand = \<lparr>rd_data = [], rd_end = EOF\<rparr>, tn_script = [], tn_number = 0,
     tn_running = (\<lambda>_. 0), tn_stopped = False, tn_Int63n = (\<lambda>n. n - 1), tn_woke = TimerC\<rparr>"

definition no_ports :: net where
  "no_ports = \<lparr>nt_open = [], nt_next = 0\<rparr>"

lemma unreachable_run:
  "\<exists>c. client_Run (\<lambda>_ _. None) S [unreachable, unreachable] (NewClient (new_conf None)) no_ports = ([1000000000, 2000000000], None, c, no_ports)"
  by (simp add: client_Run_def Start_def NewClient_def NewEndpoint_def new_conf_def session_def unreachable_def jitter_def
      backoffFirst_def backoffLongest_def sleep_def)

theorem backoff_bounds_witness:
  "\<exists>w. fst (client_Run (\<lambda>_ _. None) null_suite [unreachable, unreachable] (NewClient (new_conf None)) no_ports) = w \<and> w ! 1 = 2000000000 \<and> w ! 1 \<le> 60000000000"
proof -
  obtain c where run: "client_Run (\<lambda>_ _. None) null_suite [unreachable, unreachable] (NewClient (new_conf None)) no_ports = ([1000000000, 2000000000], None, c, no_ports)"
    using unreachable_run by blast
  have "list_all draws [unreachable, unreachable]"
    by (simp add: draws_def unreachable_def)
  from backoff_bounds [OF this run, of 1] run show ?thesis
    by simp
qed

text \<open>
  C35. The client runs until it is stopped, and leaves nothing open. It fails only when a consume port
  cannot be opened; otherwise, whatever its sessions come to, it has returned exactly when the daemon
  was stopping, and until then it has waited once after every session and its consume ports are
  open at the addresses of the conf. Whichever way it returns, the ports that are open are those that
  were open before. Between sessions its consumers have no connection.
\<close>

theorem client_runs_until_stopped:
  assumes "ports_ok n" "client_Run os S ts (NewClient cfg) n = (waits, r, c, n')"
  shows "(case r of
      None \<Rightarrow> \<not> list_ex ends_loop ts \<and> length waits = length ts \<and>
        nt_open n' = nt_open n @ zip (ep_listeners (cl_endpoint c)) (map co_Listen (cf_Consume cfg)) \<and>
        length (ep_listeners (cl_endpoint c)) = length (cf_Consume cfg)
    | Some None \<Rightarrow> list_ex ends_loop ts \<and> nt_open n' = nt_open n
    | Some (Some err) \<Rightarrow> waits = [] \<and> nt_open n' = nt_open n) \<and>
    connection (cl_endpoint c) = None"
proof -
  obtain r0 e0 n0 where st: "Start os (NewEndpoint cfg) n = (r0, e0, n0)"
    by (metis prod.exhaust)
  have "holds_ports (NewEndpoint cfg) [] n n"
    using assms(1) by (simp add: holds_ports_def NewEndpoint_def)
  note start = start_loop_ports [OF st [unfolded Start_def] this assms(1)]
  have conn0: "ep_conn e0 = None"
    using start_loop_conn [OF st [unfolded Start_def]] by (simp add: NewEndpoint_def)
  show ?thesis
  proof (cases r0)
    case (Some err)
    with assms(2) st start conn0 show ?thesis
      by (auto simp: client_Run_def NewClient_def connection_def)
  next
    case None
    with start have h: "holds_ports e0 (map (\<lambda>c. (co_Service c, co_Listen c)) (cf_Consume cfg)) n n0"
      by (simp add: NewEndpoint_def)
    obtain ws returned c1 where run: "run_turns S backoffFirst ts ((NewClient cfg)\<lparr>cl_endpoint := e0\<rparr>) = (ws, returned, c1)"
      by (metis prod.exhaust)
    note ret = run_turns_returned [OF run]
    from ret conn0 have h1: "holds_ports (cl_endpoint c1) (map (\<lambda>c. (co_Service c, co_Listen c)) (cf_Consume cfg)) n n0"
        and conn1: "ep_conn (cl_endpoint c1) = None"
      using h by (simp_all add: same_role_def holds_ports_def)
    obtain e2 n2 where cl: "ep_Close (cl_endpoint c1) n0 = (e2, n2)" by fastforce
    have "ep_conn e2 = None"
      using cl conn1 by (auto simp: ep_Close_def)
    with ep_Close_ports [OF h1 assms(1) cl] cl ret h1 conn1 assms(2) st None run show ?thesis
      by (cases returned) (auto simp: client_Run_def NewClient_def connection_def holds_ports_def comp_def)
  qed
qed

theorem client_runs_until_stopped_witness:
  "\<exists>c. client_Run (\<lambda>_ _. None) null_suite [unreachable, unreachable] (NewClient (new_conf None)) no_ports = ([1000000000, 2000000000], None, c, no_ports) \<and>
     connection (cl_endpoint c) = None"
proof -
  obtain c where run: "client_Run (\<lambda>_ _. None) null_suite [unreachable, unreachable] (NewClient (new_conf None)) no_ports = ([1000000000, 2000000000], None, c, no_ports)"
    using unreachable_run by blast
  moreover have "ports_ok no_ports"
    by (simp add: ports_ok_def no_ports_def)
  ultimately show ?thesis
    using client_runs_until_stopped [of no_ports] by blast
qed

end
