(* ===== verification/Server_Run.thy ===== *)
theory Server_Run
  imports Endpoint_Ports Conn_Over
begin

text \<open>
  The rest of \<^verbatim>\<open>internal/peer/server.go\<close>: the listening socket, what becomes of a connection that
  arrives on it, and the server's own sections, which it serves over a pipe. \<open>Run\<close> starts
  goroutines; they are its result, in the order it starts them.
\<close>

record srv =
  sr_cfg :: Conf
  sr_server :: "nat server"
  sr_endpoint :: endpoint

definition new_srv :: "Conf \<Rightarrow> srv" where
  "new_srv cfg = \<lparr>sr_cfg = cfg, sr_server = NewServer (cf_QueueTimeout cfg), sr_endpoint = NewEndpoint cfg\<rparr>"

subsection \<open>One connection\<close>

text \<open>What \<open>accept\<close> says of a handshake: nothing of a stranger, a warning of anything else that fails.\<close>

datatype accept_log = Stranger | OtherVersion byte byte | HandshakeRefused wire_setup_error | Accepted

fun handshake_log :: "wire_setup_error \<Rightarrow> accept_log" where
  "handshake_log ErrNotPeer = Stranger"
| "handshake_log (VersionError ours theirs) = OtherVersion theirs ours"
| "handshake_log e = HandshakeRefused e"

text \<open>
  \<open>k\<close> is the number of the connection and the target of its providers; \<open>session\<close> is what the
  other goroutines do to the server while it is served. The link that is returned is the connection after the
  handshake, with what the handshake wrote to it.
\<close>

definition accept :: "suite \<Rightarrow> reader \<Rightarrow> (io_error \<times> nat) option list \<Rightarrow> nat \<Rightarrow> (nat server \<Rightarrow> nat server) \<Rightarrow> Conf \<Rightarrow> link \<Rightarrow>
    nat server \<Rightarrow> accept_log \<times> conn option \<times> link \<times> nat server" where
  "accept S rand script k session cfg raw s =
     (case wire_Handshake S rand (cf_Secret cfg) False raw of
        (Inl e, raw) \<Rightarrow> (handshake_log e, None, raw, s)
      | (Inr sn, raw) \<Rightarrow>
          (case srv_handle k k session (conn_over S sn script RoleServer []) s of
             (c, s) \<Rightarrow> (Accepted, Some c, raw, s)))"

subsection \<open>Listening\<close>

datatype goroutine = GoHandle conn | GoServe conn | GoAccept link

text \<open>
  \<open>serveSelf\<close>: the two ends of a pipe are what they deliver and take. There is no handshake on it.
\<close>

definition serveSelf :: "reader \<times> writer \<Rightarrow> reader \<times> writer \<Rightarrow> Conf \<Rightarrow> goroutine list" where
  "serveSelf remote local cfg =
     (if cf_Provide cfg = [] \<and> cf_Consume cfg = [] then []
      else [GoHandle (newConn (fst remote) (snd remote) RoleServer []),
            GoServe (newConn (fst local) (snd local) RoleClient (cf_Name cfg))])"

text \<open>What \<open>Accept\<close> gives: a connection, or an error together with whether the daemon was stopping then.\<close>

datatype arrival = Arrived link | AcceptFailed io_error bool

fun accept_loop :: "arrival list \<Rightarrow> goroutine list \<times> run_error option option" where
  "accept_loop [] = ([], None)"
| "accept_loop (Arrived raw # as) = apfst ((#) (GoAccept raw)) (accept_loop as)"
| "accept_loop (AcceptFailed e stopping # as) = ([], Some (if stopping then None else Some (ErrAccept e)))"

text \<open>\<open>Run\<close>: the goroutines it has started, what it has returned if it has, and the ports it leaves.\<close>

definition srv_Run :: "((nat \<times> string) list \<Rightarrow> string \<Rightarrow> io_error option) \<Rightarrow> reader \<times> writer \<Rightarrow> reader \<times> writer \<Rightarrow> arrival list \<Rightarrow> srv \<Rightarrow> net \<Rightarrow>
    goroutine list \<times> run_error option option \<times> srv \<times> net" where
  "srv_Run os remote local as s n =
     (case opt_listen os (cf_Listen (sr_cfg s)) n of
        (Inl e, n) \<Rightarrow> ([], Some (Some (ErrListen (cf_Listen (sr_cfg s)) e)), s, n)
      | (Inr l, n) \<Rightarrow>
          (case Start os (sr_endpoint s) n of
             (Some err, e, n) \<Rightarrow> ([], Some (Some err), s\<lparr>sr_endpoint := e\<rparr>, close_port l n)
           | (None, e, n) \<Rightarrow>
               (case accept_loop as of
                  (gs, None) \<Rightarrow> (serveSelf remote local (sr_cfg s) @ gs, None, s\<lparr>sr_endpoint := e\<rparr>, n)
                | (gs, Some r) \<Rightarrow>
                    (case ep_Close e n of
                       (e, n) \<Rightarrow> (serveSelf remote local (sr_cfg s) @ gs, Some r, s\<lparr>sr_endpoint := e\<rparr>, close_port l n)))))"

subsection \<open>Properties\<close>

definition arrivals :: "arrival list \<Rightarrow> link list" where
  "arrivals as = map (\<lambda>a. case a of Arrived raw \<Rightarrow> raw) (takeWhile (\<lambda>a. case a of Arrived _ \<Rightarrow> True | _ \<Rightarrow> False) as)"

lemma accept_loop_result:
  "accept_loop as = (gs, r) \<Longrightarrow> gs = map GoAccept (arrivals as) \<and>
     (case r of None \<Rightarrow> list_all (\<lambda>a. case a of Arrived _ \<Rightarrow> True | _ \<Rightarrow> False) as
      | Some None \<Rightarrow> \<exists>e. AcceptFailed e True \<in> set as
      | Some (Some err) \<Rightarrow> \<exists>e. err = ErrAccept e \<and> AcceptFailed e False \<in> set as)"
proof (induction as arbitrary: gs r rule: accept_loop.induct)
  case (2 raw as)
  obtain gs' where gs': "accept_loop as = (gs', r)" "gs = GoAccept raw # gs'"
    using "2.prems" by (cases "accept_loop as") auto
  with "2.IH" [OF gs'(1)] show ?case
    by (cases r; cases "the r") (auto simp: arrivals_def)
next
  case (3 e stopping as)
  then show ?case
    by (auto simp: arrivals_def)
qed (simp add: arrivals_def)

text \<open>
  C36. The server listens until it is stopped, and leaves nothing open. While it runs, its port and
  one for each \<open>[consume]\<close> section are open beside those that were before; every connection that
  arrived has a goroutine, in order, after those of its own sections if it has any. It ends without
  an error only when accepting failed while the daemon was stopping. Whichever way it returns, the
  ports that are open are those that were open before.
\<close>

theorem server_listens_until_stopped:
  assumes "ports_ok n" "srv_Run os remote local as (new_srv cfg) n = (gs, r, s, n')"
  shows "(case r of
      None \<Rightarrow> gs = serveSelf remote local cfg @ map GoAccept (arrivals as) \<and>
        nt_open n' = nt_open n @ (nt_next n, cf_Listen cfg) # zip (ep_listeners (sr_endpoint s)) (map co_Listen (cf_Consume cfg)) \<and>
        length (ep_listeners (sr_endpoint s)) = length (cf_Consume cfg)
    | Some None \<Rightarrow> (\<exists>e. AcceptFailed e True \<in> set as) \<and> nt_open n' = nt_open n
    | Some (Some err) \<Rightarrow> nt_open n' = nt_open n)"
proof (cases "os (nt_open n) (cf_Listen cfg)")
  case (Some e)
  with assms(2) show ?thesis
    by (auto simp: srv_Run_def new_srv_def opt_listen_def)
next
  case None
  let ?n = "n\<lparr>nt_open := nt_open n @ [(nt_next n, cf_Listen cfg)], nt_next := Suc (nt_next n)\<rparr>"
  have ok: "ports_ok ?n"
    using assms(1) by (auto simp: ports_ok_def less_Suc_eq)
  have shut: "nt_open (close_port (nt_next n) m) = nt_open n" if "nt_open m = nt_open ?n" for m
    using assms(1) that by (auto simp: ports_ok_def close_port_open filter_id_conv)
  obtain r0 e0 n0 where st: "Start os (NewEndpoint cfg) ?n = (r0, e0, n0)"
    by (metis prod.exhaust)
  have "holds_ports (NewEndpoint cfg) [] ?n ?n"
    using ok by (simp add: holds_ports_def NewEndpoint_def)
  note start = start_loop_ports [OF st [unfolded Start_def] this ok]
  obtain gs0 r1 where loop: "accept_loop as = (gs0, r1)" by fastforce
  show ?thesis
  proof (cases r0)
    case (Some err)
    with assms(2) st start None shut [of n0] show ?thesis
      by (auto simp: srv_Run_def new_srv_def opt_listen_def)
  next
    case r0: None
    with start have h: "holds_ports e0 (map (\<lambda>c. (co_Service c, co_Listen c)) (cf_Consume cfg)) ?n n0"
      by (simp add: NewEndpoint_def)
    obtain e2 n2 where cl: "ep_Close e0 n0 = (e2, n2)" by fastforce
    from ep_Close_ports [OF h ok cl] have "nt_open (close_port (nt_next n) n2) = nt_open n"
      by (intro shut) simp
    with assms(2) st r0 None loop cl h accept_loop_result [OF loop] show ?thesis
      by (cases r1; cases "the r1") (auto simp: srv_Run_def new_srv_def opt_listen_def holds_ports_def comp_def)
  qed
qed

definition quiet_pipe :: "reader \<times> writer" where
  "quiet_pipe = (\<lparr>rd_data = [], rd_end = EOF\<rparr>, \<lparr>wr_data = [], wr_script = []\<rparr>)"

theorem server_listens_until_stopped_witness:
  "\<exists>gs s n'. srv_Run (\<lambda>_ _. None) quiet_pipe quiet_pipe [AcceptFailed (IOError ''closed'') True] (new_srv two_ports) \<lparr>nt_open = [], nt_next = 0\<rparr> =
     (gs, Some None, s, n') \<and> nt_open n' = [] \<and> length gs = 2"
proof -
  let ?n = "\<lparr>nt_open = [], nt_next = 0\<rparr>"
  obtain gs s n' where run: "srv_Run (\<lambda>_ _. None) quiet_pipe quiet_pipe [AcceptFailed (IOError ''closed'') True] (new_srv two_ports) ?n =
     (gs, Some None, s, n')" "length gs = 2"
    by (simp add: srv_Run_def new_srv_def opt_listen_def Start_def NewEndpoint_def two_ports_def new_conf_def ep_Close_def serveSelf_def)
  have "ports_ok ?n"
    by (simp add: ports_ok_def)
  from server_listens_until_stopped [OF this run(1)] run show ?thesis
    by auto
qed

end
