(* ===== verification/Conn_Theorems.thy ===== *)
theory Conn_Theorems
  imports Conn_System
begin

text \<open>
  The properties of a connection's jobs and their queues (\<^verbatim>\<open>conn.go\<close>, \<^verbatim>\<open>queue.go\<close>, \<^verbatim>\<open>job.go\<close>).
\<close>

subsection \<open>Bodies\<close>

text \<open>What has reached a queue and what is still to be pushed, in the order a reader gets it.\<close>

definition with_pushes :: "message list \<Rightarrow> qevent list" where
  "with_pushes ms = map Pushed ms"

lemma next_in_order:
  assumes "jq_err q = None" "jq_items q @ ms = x # rest"
  obtains q' ms' where "jq_next (with_pushes ms @ evs) q = Some (Inr x, q', with_pushes ms' @ evs)"
    "jq_err q' = None" "jq_items q' @ ms' = rest"
proof (cases "jq_items q")
  case Nil
  with assms that [of "q\<lparr>jq_ready := Suc (jq_ready q)\<rparr>" rest] show ?thesis
    by (simp add: with_pushes_def jq_next_waiting)
next
  case (Cons y ys)
  with assms that [of "q\<lparr>jq_items := ys\<rparr>" ms] show ?thesis
    by (simp add: jq_next_items)
qed

lemma collect_body_messages:
  "jq_err q = None \<Longrightarrow> jq_items q @ ms = body_messages job body trailers \<Longrightarrow>
   \<exists>q'. collect acc (with_pushes ms @ evs) q = Some (Inr (acc @ body, trailers), q', evs)"
proof (induction job body trailers arbitrary: q ms acc rule: body_messages.induct)
  case (1 job body trailers)
  define chunk where "chunk = (if length body > bodyChunk then take bodyChunk body else body)"
  show ?case
  proof (cases "body = []")
    case True
    with "1.prems" have "jq_items q @ ms = [End job trailers]"
      by (simp add: body_messages.simps [of job "[]"])
    with "1.prems"(1) obtain q' ms' where "jq_next (with_pushes ms @ evs) q = Some (Inr (End job trailers), q', with_pushes ms' @ evs)"
      "jq_items q' @ ms' = []"
      by (rule next_in_order)
    with True show ?thesis
      by (subst collect.simps) (simp add: with_pushes_def)
  next
    case False
    let ?rest = "body_messages job (drop (length chunk) body) trailers"
    have "jq_items q @ ms = Body job chunk # ?rest"
      using "1.prems" False by (simp add: body_messages.simps [of job body] chunk_def Let_def)
    with "1.prems"(1) obtain q' ms' where n: "jq_next (with_pushes ms @ evs) q = Some (Inr (Body job chunk), q', with_pushes ms' @ evs)"
      "jq_err q' = None" "jq_items q' @ ms' = ?rest"
      by (rule next_in_order)
    from "1.IH" [OF False chunk_def n(2,3), of "acc @ chunk"]
    obtain q'' where "collect (acc @ chunk) (with_pushes ms' @ evs) q' =
        Some (Inr ((acc @ chunk) @ drop (length chunk) body, trailers), q'', evs)" by blast
    moreover have "chunk @ drop (length chunk) body = body"
      by (simp add: chunk_def)
    ultimately show ?thesis
      using n(1) by (subst collect.simps) simp
  qed
qed

text \<open>
  A body sent on one side is collected whole on the other. Whatever number of the messages
  that \<open>sendBodyEnd\<close> makes of it has already reached the queue, and the rest arriving while
  \<open>collect\<close> runs, \<open>collect\<close> returns exactly the body and the trailers and reads nothing more; every
  message before the END is a BODY of that job with at least one byte and at most 32 KiB.
\<close>

theorem body_roundtrip:
  assumes "jq_items q @ arriving = body_messages job body trailers" "jq_err q = None"
  shows "(\<exists>q'. collect [] (map Pushed arriving @ later) q = Some (Inr (body, trailers), q', later)) \<and>
    (\<forall>m \<in> set (butlast (body_messages job body trailers)).
       m = Body job (body_Bytes m) \<and> 0 < length (body_Bytes m) \<and> length (body_Bytes m) \<le> bodyChunk) \<and>
    last (body_messages job body trailers) = End job trailers"
proof -
  have "(\<forall>m \<in> set (butlast (body_messages job body trailers)).
       m = Body job (body_Bytes m) \<and> 0 < length (body_Bytes m) \<and> length (body_Bytes m) \<le> bodyChunk) \<and>
      last (body_messages job body trailers) = End job trailers \<and> body_messages job body trailers \<noteq> []"
  proof (induction job body trailers rule: body_messages.induct)
    case (1 job body trailers)
    then show ?case
      by (subst (1 2 3) body_messages.simps) (auto simp: Let_def bodyChunk_def)
  qed
  then show ?thesis
    using collect_body_messages [OF assms(2,1), of "[]" later] by (simp add: with_pushes_def)
qed

theorem body_roundtrip_witness:
  "\<exists>q'. collect [] (map Pushed [End 3 []]) \<lparr>jq_items = [Body 3 [1, 2]], jq_err = None, jq_ready = 1\<rparr> =
     Some (Inr ([1, 2], []), q', [])"
  using body_roundtrip [of "\<lparr>jq_items = [Body 3 [1, 2]], jq_err = None, jq_ready = 1\<rparr>" "[End 3 []]" 3 "[1, 2]" "[]" "[]"]
  by (simp add: body_messages.simps bodyChunk_def)

subsection \<open>Queues\<close>

text \<open>Reading \<open>n\<close> times with nothing more happening; the results stop where the reader would wait.\<close>

fun read_n :: "nat \<Rightarrow> jobQueue \<Rightarrow> (peer_error + message) list" where
  "read_n 0 q = []"
| "read_n (Suc n) q = (case jq_next [] q of None \<Rightarrow> [] | Some (r, q', _) \<Rightarrow> r # read_n n q')"

lemma read_n_closed: "jq_err q = Some e \<Longrightarrow> jq_items q = [] \<Longrightarrow> read_n k q = replicate k (Inl e)"
  by (induction k arbitrary: q) (simp_all add: jq_next_ended)

lemma read_n_items:
  "jq_err q = Some e \<Longrightarrow> read_n (length (jq_items q) + k) q = map Inr (jq_items q) @ replicate k (Inl e)"
proof (induction "jq_items q" arbitrary: q)
  case Nil
  from Nil(1) [symmetric] Nil(2) show ?case
    by (simp add: read_n_closed)
next
  case (Cons m ms)
  note items = Cons.hyps(2) [symmetric]
  show ?case
    using Cons.hyps(1) [of "q\<lparr>jq_items := ms\<rparr>"] Cons.prems by (simp add: items jq_next_items [OF items])
qed

lemma fold_push: "jq_err q = None \<Longrightarrow> jq_items (fold jq_push ms q) = jq_items q @ ms \<and> jq_err (fold jq_push ms q) = None"
  by (induction ms arbitrary: q) simp_all

lemma fold_push_closed: "jq_err q = Some e \<Longrightarrow> fold jq_push ms q = q"
  by (induction ms arbitrary: q) (simp_all add: jq_push_def)

text \<open>
  A queue hands out every message pushed before it was closed, in the order they were pushed,
  and then the reason of the first close, for as long as it is asked; what is pushed or closed
  later is ignored.
\<close>

theorem queue_in_order:
  assumes "jq_err q = None"
  shows "read_n (length (jq_items q @ ms) + k) (jq_close e' (fold jq_push late (jq_close e (fold jq_push ms q)))) =
    map Inr (jq_items q @ ms) @ replicate k (Inl e)"
proof -
  let ?q = "jq_close e (fold jq_push ms q)"
  have q: "jq_items ?q = jq_items q @ ms" "jq_err ?q = Some e"
    using fold_push [OF assms, of ms] by simp_all
  then have "jq_close e' (fold jq_push late ?q) = ?q"
    using fold_push_closed [OF q(2)] by (simp add: jq_close_def)
  then show ?thesis
    using read_n_items [OF q(2), of k] q(1) by simp
qed

theorem queue_in_order_witness:
  "read_n 3 (jq_close ErrNetClosed (fold jq_push [Pong] (jq_close ErrJobEnded (fold jq_push [Cancel 2, Cancel 4] newJobQueue)))) =
     [Inr (Cancel 2), Inr (Cancel 4), Inl ErrJobEnded]"
  using queue_in_order [of newJobQueue "[Cancel 2, Cancel 4]" 1 ErrNetClosed "[Pong]" ErrJobEnded]
  by (simp add: newJobQueue_def numeral_3_eq_3)

text \<open>
  No wake-up is lost: a reader that found the queue empty and open and is about to wait on the
  current channel will find that channel closed after the next push or close, and will then get
  the message or the reason.
\<close>

theorem no_lost_wakeup:
  assumes "jq_look q = (Wait g, q')"
  shows "q' = q \<and> jq_ready (jq_push m q) \<noteq> g \<and> fst (jq_look (jq_push m q)) = Took m \<and>
    jq_ready (jq_close e q) \<noteq> g \<and> fst (jq_look (jq_close e q)) = Ended e"
  using assms by (auto simp: jq_look_def jq_push_def jq_close_def jq_wake_def split: list.splits option.splits)

theorem no_lost_wakeup_witness: "fst (jq_look (jq_push Ping newJobQueue)) = Took Ping"
  using no_lost_wakeup [of newJobQueue 0 newJobQueue Ping] by (simp add: jq_look_def newJobQueue_def)

subsection \<open>Jobs\<close>

text \<open>
  C23. A side's job ids never repeat on a connection and never collide with the peer's: in every
  reachable state (up to \<open>2 ^ 63\<close> jobs, before the counter wraps) the ids \<open>newJob\<close> has given out
  are distinct, none is 0, and each has this side's parity.
\<close>

theorem job_ids_distinct:
  assumes "conn_reachable role z" "length (z_ids z) < 2 ^ 63"
  shows "distinct (z_ids z) \<and> (\<forall>job \<in> set (z_ids z). mine (z_conn z) job \<and> job \<noteq> 0)"
  using ids_distinct(1,2) [OF inv_ids [OF conn_reachable_inv [OF assms]] assms(2)] by blast

text \<open>A run: two jobs are started here, one message arrives for the first, and the connection fails.\<close>

definition cz0 :: csys where
  "cz0 = init_csys \<lparr>rd_data = [], rd_end = EOF\<rparr> \<lparr>wr_data = [], wr_script = []\<rparr> RoleClient ''p''"

definition cz_new :: "csys \<Rightarrow> csys" where
  "cz_new z = (case newJob (z_conn z) of
     (Inr (job, q), c) \<Rightarrow> z\<lparr>z_conn := c, z_owner := (z_owner z)(q := job), z_ids := z_ids z @ [job]\<rparr> | _ \<Rightarrow> z)"

definition cz2 :: csys where "cz2 = cz_new (cz_new cz0)"

lemma cz_new_step: "cn_err (z_conn z) = None \<Longrightarrow> conn_step z (cz_new z)"
  using conn_step.new_job [of z]
  by (auto simp: cz_new_def newJob_def Let_def split: prod.split)

lemma cz2_reachable: "conn_reachable RoleClient cz2"
proof -
  have "cn_err (z_conn cz0) = None" "cn_err (z_conn (cz_new cz0)) = None"
    by (simp_all add: cz0_def init_csys_def newConn_def cz_new_def newJob_def open_queue_def)
  then have "conn_step\<^sup>*\<^sup>* cz0 cz2"
    unfolding cz2_def by (meson cz_new_step rtranclp.rtrancl_into_rtrancl rtranclp.rtrancl_refl)
  then show ?thesis
    unfolding conn_reachable_def cz0_def by blast
qed

lemma cz2_ids: "z_ids cz2 = [1, 3]"
  by (simp add: cz2_def cz0_def init_csys_def newConn_def cz_new_def newJob_def open_queue_def Let_def)

theorem job_ids_distinct_witness: "z_ids cz2 = [1, 3] \<and> mine (z_conn cz2) 3"
  using job_ids_distinct [OF cz2_reachable] cz2_ids by simp

lemma closed_returns: "jq_err q \<noteq> None \<Longrightarrow> jq_next [] q \<noteq> None"
  by (cases "jq_items q") (auto simp: jq_next_items jq_next_ended)

text \<open>
  C21. No job is left waiting on a dead connection. In every state the critical sections of a
  connection reach, once it has failed, every queue that was ever opened is closed or is about to be, by the
  \<open>fail\<close> or the \<open>endJob\<close> that took its job out and has not come to it yet; and a reader of a closed
  queue gets what is left and then a reason, without waiting. Whoever calls \<open>fail\<close> finds, when it
  returns, that the connection has failed and that no queue is left but those that such another
  goroutine is about to close; \<open>endJob\<close> closes the queue of the job it ends. Both are runs of the
  critical sections, so that this holds whatever runs in between.
\<close>

theorem failed_connection_ends_all_jobs:
  assumes "conn_reachable role z" "length (z_ids z) < 2 ^ 63" "q < cn_nq (z_conn z)"
  shows "(cn_err (z_conn z) \<noteq> None \<longrightarrow> jq_err (cn_queues (z_conn z) q) \<noteq> None \<or> (\<exists>d. (q, d) \<in> z_closing z)) \<and>
    (jq_err (cn_queues (z_conn z) q) \<noteq> None \<longrightarrow> jq_next [] (cn_queues (z_conn z) q) \<noteq> None) \<and>
    cn_err (cn_fail e (z_conn z)) \<noteq> None \<and>
    (jq_err (cn_queues (cn_fail e (z_conn z)) q) \<noteq> None \<or> (\<exists>d. (q, d) \<in> z_closing z)) \<and>
    (cn_jobs (z_conn z) job = Some q \<longrightarrow> jq_err (cn_queues (endJob job (z_conn z)) q) \<noteq> None) \<and>
    conn_step\<^sup>*\<^sup>* z (z\<lparr>z_conn := cn_fail e (z_conn z)\<rparr>) \<and> conn_step\<^sup>*\<^sup>* z (z\<lparr>z_conn := endJob job (z_conn z)\<rparr>)"
proof -
  note inv = conn_reachable_inv [OF assms(1,2)]
  note here = inv_covered [OF inv assms(3)]
  have failed: "jq_err (cn_queues (z_conn z) q) \<noteq> None \<or> (\<exists>d. (q, d) \<in> z_closing z)" if "cn_err (z_conn z) \<noteq> None"
    using here inv_failed [OF inv that] by auto
  moreover have "cn_err (cn_fail e (z_conn z)) \<noteq> None"
    by (simp add: cn_fail_eq close_all_def)
  moreover have "jq_err (cn_queues (cn_fail e (z_conn z)) q) \<noteq> None \<or> (\<exists>d. (q, d) \<in> z_closing z)"
    using here failed by (auto simp: cn_fail_eq close_all_def split: option.splits)
  moreover have "jq_err (cn_queues (endJob job (z_conn z)) q) \<noteq> None" if "cn_jobs (z_conn z) job = Some q"
    using that by (simp add: endJob_eq split: option.split)
  ultimately show ?thesis
    using closed_returns endJob_run [OF inv] cn_fail_run [OF inv] by blast
qed

theorem failed_connection_ends_all_jobs_witness:
  "jq_err (cn_queues (cn_fail ErrCtx (z_conn cz2)) 1) \<noteq> None \<and> jq_err (cn_queues (endJob 3 (z_conn cz2)) 1) \<noteq> None"
proof -
  have "cn_nq (z_conn cz2) = 2" "z_closing cz2 = {}" "cn_jobs (z_conn cz2) 3 = Some 1"
    by (simp_all add: cz2_def cz0_def init_csys_def newConn_def cz_new_def newJob_def open_queue_def Let_def)
  with failed_connection_ends_all_jobs [OF cz2_reachable, of 1 ErrCtx 3] cz2_ids show ?thesis
    by simp
qed

lemma dispatch_job:
  "JobID m = Some job \<Longrightarrow> \<not> is_request m \<Longrightarrow>
   cn_dispatch m c = (Inr (), case cn_jobs c job of None \<Rightarrow> c | Some q \<Rightarrow> on_queue q (jq_push m) c)"
  by (cases m) (simp_all add: cn_dispatch_eq split: option.split)

lemma dispatch_other:
  "JobID m = None \<or> is_request m \<Longrightarrow> cn_dispatch m c = (r, c') \<Longrightarrow> q < cn_nq c \<Longrightarrow> cn_queues c' q = cn_queues c q"
  by (cases m) (auto simp: cn_dispatch_eq cn_start_def openJob_def open_queue_def split: option.splits if_splits)

text \<open>
  C22. A message reaches only the job it names, and it does reach it. In every state the critical
  sections of a connection reach, every message waiting in a queue carries the id of the job that queue
  was opened for. \<open>dispatch\<close>, which is a run of these sections, adds the message it is given to
  no other queue than that of its job, leaves everything else in the queues as it was, and does add it
  when the job is running and the message is not a REQUEST.
\<close>

theorem messages_reach_their_job:
  assumes "conn_reachable role z" "length (z_ids z) < 2 ^ 63" "q < cn_nq (z_conn z)"
  shows "(\<forall>x \<in> set (jq_items (cn_queues (z_conn z) q)). JobID x = Some (z_owner z q)) \<and>
    (cn_dispatch m (z_conn z) = (r, c) \<longrightarrow>
       jq_items (cn_queues c q) = jq_items (cn_queues (z_conn z) q) @
         (if \<not> is_request m \<and> JobID m = Some (z_owner z q) \<and> cn_jobs (z_conn z) (z_owner z q) = Some q then [m] else []) \<and>
       (z_looked z = {} \<longrightarrow> conn_step\<^sup>*\<^sup>* z (z\<lparr>z_conn := c, z_owner := started_by m (z_conn z) c (z_owner z)\<rparr>)))"
proof -
  note inv = conn_reachable_inv [OF assms(1,2)]
  have "jq_items (cn_queues c q) = jq_items (cn_queues (z_conn z) q) @
      (if \<not> is_request m \<and> JobID m = Some (z_owner z q) \<and> cn_jobs (z_conn z) (z_owner z q) = Some q then [m] else [])"
    if "cn_dispatch m (z_conn z) = (r, c)"
  proof (cases "\<exists>job. JobID m = Some job \<and> \<not> is_request m")
    case True
    then obtain job where job: "JobID m = Some job" "\<not> is_request m" by blast
    show ?thesis
    proof (cases "cn_jobs (z_conn z) job")
      case None
      have "c = z_conn z"
        using that by (simp add: dispatch_job [OF job] None)
      with None job show ?thesis
        by auto
    next
      case (Some p)
      have c: "c = on_queue p (jq_push m) (z_conn z)"
        using that by (simp add: dispatch_job [OF job] Some)
      show ?thesis
      proof (cases "p = q")
        case True
        with inv_job [OF inv Some] show ?thesis
          by (simp add: c job Some)
      next
        case False
        with Some show ?thesis
          by (auto simp: c job)
      qed
    qed
  next
    case False
    then have "JobID m = None \<or> is_request m" by (cases "JobID m") simp_all
    with dispatch_other [OF _ that, of q] assms(3) show ?thesis
      by (cases "JobID m") simp_all
  qed
  then show ?thesis
    using inv_items [OF inv assms(3)] cn_dispatch_run [of m z r c] by blast
qed

theorem messages_reach_their_job_witness:
  "\<exists>r c. cn_dispatch (Fail 1 ''no'') (z_conn cz2) = (r, c) \<and> jq_items (cn_queues c 0) = [Fail 1 ''no''] \<and> jq_items (cn_queues c 1) = []"
proof -
  have z: "cn_nq (z_conn cz2) = 2" "cn_queues (z_conn cz2) 0 = newJobQueue" "cn_queues (z_conn cz2) 1 = newJobQueue"
      "z_owner cz2 0 = 1" "z_owner cz2 1 = 3" "cn_jobs (z_conn cz2) 1 = Some 0"
    by (simp_all add: cz2_def cz0_def init_csys_def newConn_def cz_new_def newJob_def open_queue_def Let_def)
  obtain r c where d: "cn_dispatch (Fail 1 ''no'') (z_conn cz2) = (r, c)"
    by fastforce
  with messages_reach_their_job [OF cz2_reachable, of 0 "Fail 1 ''no''" r c] messages_reach_their_job [OF cz2_reachable, of 1 "Fail 1 ''no''" r c] z cz2_ids
  show ?thesis
    by (simp add: newJobQueue_def)
qed

text \<open>
  What the read loop does with a message. PING, PONG and a message for a job that is not known
  change no job and are no error; a HELLO, a REQUEST under this side's parity, and a REQUEST under
  an id that is running are errors and change nothing; any other REQUEST opens a new queue and
  puts one goroutine on it, and any other message is appended to the queue of its own job only.
\<close>

theorem dispatch_cases:
  assumes "cn_err c = None"
  shows "case m of
     Ping \<Rightarrow> cn_dispatch m c = (Inr (), c\<lparr>cn_pongs := True\<rparr>)
   | Pong \<Rightarrow> cn_dispatch m c = (Inr (), c)
   | Hello _ _ \<Rightarrow> cn_dispatch m c = (Inl ErrHelloAgain, c)
   | Request job _ _ _ _ \<Rightarrow>
       if mine c job then cn_dispatch m c = (Inl (ErrWrongParity job), c)
       else if cn_jobs c job \<noteq> None then cn_dispatch m c = (Inl (ErrAlreadyRunning job), c)
       else \<exists>c'. cn_dispatch m c = (Inr (), c') \<and> cn_jobs c' = (cn_jobs c)(job \<mapsto> cn_nq c) \<and>
         cn_queues c' (cn_nq c) = newJobQueue \<and> cn_started c' = cn_started c @ [(m, cn_nq c)]
   | _ \<Rightarrow> (\<exists>job. JobID m = Some job \<and>
       (case cn_jobs c job of
          None \<Rightarrow> cn_dispatch m c = (Inr (), c)
        | Some q \<Rightarrow> cn_dispatch m c =
            (Inr (), c\<lparr>cn_queues := (cn_queues c)(q := jq_push m (cn_queues c q))\<rparr>)))"
  using assms
  by (auto simp: cn_dispatch_eq cn_start_def openJob_def open_queue_def on_queue_def
      split: message.split option.split)

theorem dispatch_cases_witness:
  "cn_dispatch (Request 3 ''s'' ''GET'' ''/'' []) (newConn \<lparr>rd_data = [], rd_end = EOF\<rparr> \<lparr>wr_data = [], wr_script = []\<rparr> RoleClient ''p'') =
     (Inl (ErrWrongParity 3), newConn \<lparr>rd_data = [], rd_end = EOF\<rparr> \<lparr>wr_data = [], wr_script = []\<rparr> RoleClient ''p'')"
proof -
  let ?c = "newConn \<lparr>rd_data = [], rd_end = EOF\<rparr> \<lparr>wr_data = [], wr_script = []\<rparr> RoleClient ''p''"
  have "mine ?c 3" "cn_err ?c = None"
    by (simp_all add: mine_def newConn_def)
  then show ?thesis
    using dispatch_cases [of ?c "Request 3 ''s'' ''GET'' ''/'' []"] by simp
qed

subsection \<open>The read loop\<close>

lemma dispatch_keeps_err: "cn_dispatch m c = (r, c') \<Longrightarrow> cn_err c' = cn_err c"
  by (auto simp: cn_dispatch_eq cn_start_def openJob_def open_queue_def on_queue_def
      split: message.splits option.splits if_splits)

lemma fail_ends: "cn_err c = None \<Longrightarrow> cn_err (cn_fail e c) = Some e \<and> cn_closed (cn_fail e c) \<and> cn_jobs (cn_fail e c) = Map.empty"
  by (simp add: cn_fail_eq close_all_def fail_mark_def)

lemma cn_run_fails:
  assumes "cn_err c = None"
  shows "\<exists>e c'. cn_run c = (e, c') \<and> cn_err c' = Some e \<and> cn_closed c' \<and> cn_jobs c' = Map.empty"
  using assms
proof (induction c rule: cn_run.induct)
  case (1 c)
  obtain r c1 where r: "cn_receive c = (r, c1)" by fastforce
  with "1.prems" have c1: "cn_err c1 = None"
    using receive_frame [OF r] by simp
  show ?case
  proof (cases r)
    case (Inl e)
    with r c1 show ?thesis
      by (subst cn_run.simps) (simp add: fail_ends)
  next
    case (Inr m)
    obtain r2 c2 where d: "cn_dispatch m c1 = (r2, c2)" by fastforce
    have c2: "cn_err c2 = None"
      using dispatch_keeps_err [OF d] c1 by simp
    show ?thesis
    proof (cases r2)
      case (Inl e)
      with r Inr d c2 show ?thesis
        by (subst cn_run.simps) (simp add: fail_ends)
    next
      case Inr2: (Inr u)
      from "1.IH" [OF r [symmetric] Inr d [symmetric] Inr2 c2] r Inr d Inr2 show ?thesis
        by (subst cn_run.simps) simp
    qed
  qed
qed

text \<open>
  C30. The read loop always ends, and it ends the connection: whatever bytes a peer sends, \<open>run\<close>
  returns after finitely many messages with the error that stopped it, the connection has failed with that
  error, is closed, and has no job left.
\<close>

theorem read_loop_ends:
  assumes "cn_err c = None"
  shows "\<exists>e c'. cn_run c = (e, c') \<and> cn_err c' = Some e \<and> cn_closed c' \<and> cn_jobs c' = Map.empty"
  using assms by (rule cn_run_fails)

theorem read_loop_ends_witness:
  "\<exists>e c'. cn_run (newConn \<lparr>rd_data = [], rd_end = EOF\<rparr> \<lparr>wr_data = [], wr_script = []\<rparr> RoleServer ''p'') = (e, c') \<and> cn_err c' = Some e"
  using read_loop_ends [of "newConn \<lparr>rd_data = [], rd_end = EOF\<rparr> \<lparr>wr_data = [], wr_script = []\<rparr> RoleServer ''p''"]
  by (auto simp: newConn_def)

end
