(* ===== verification/Server_Theorems.thy ===== *)
theory Server_Theorems
  imports Answers Conn_Theorems
begin

text \<open>The properties of the server's part of a job and of a session (\<^verbatim>\<open>server.go\<close>).\<close>

lemma relay_cases:
  assumes "relay acq_text err_text req evs q attempts c = (calls, Some c')"
  obtains (early) "calls = []" "c' = endJob (req_Job req) c"
  | (ran) body trailers c1 where "relay_loop acq_text err_text req body trailers False attempts c = (calls, Some c1)"
      "c' = endJob (req_Job req) c1"
  using assms by (auto simp: relay_def Let_def apsnd_def map_prod_def split: option.splits sum.splits prod.splits)

text \<open>
  C18. A relayed job is answered once. Whatever the providers say and however often the job is
  retried, every message the server sends to its submitter is an answer message (RESPONSE, BODY,
  END or FAIL) under the submitter's own job id, and nothing follows an END or a FAIL. When every provider keeps to
  the form of an answer as far as it gets, all attempts together have sent one answer: at most one RESPONSE, before
  all else, however they failed. And when besides their messages can be sent on and nobody cancels the job,
  then the answer is whole once \<open>relay\<close> has returned: it ends in an END or a FAIL.
\<close>

theorem relay_answers_once:
  assumes "relay acq_text err_text req evs q attempts c = (calls, Some c')"
  shows "\<exists>new. cn_sent c' = cn_sent c @ new \<and>
    (\<forall>m \<in> set new. JobID m = Some (req_Job req) \<and> is_answer m) \<and> (\<forall>m \<in> set (butlast new). \<not> is_last m) \<and>
    ((\<forall>a \<in> set attempts. answers False (pushed (at_evs a))) \<longrightarrow> answers False new) \<and>
    ((\<forall>a \<in> set attempts. well_behaved (req_Job req) a) \<and> calls \<noteq> [] \<and> healthy c \<and> req_Job req \<noteq> 0 \<and>
     (\<forall>e. length (acq_text e) < 65536) \<and> length (err_text ErrProviderGone) < 65536 \<and> ValidString (err_text ErrProviderGone) \<longrightarrow>
       new \<noteq> [] \<and> is_last (last new))"
  using assms
proof (cases rule: relay_cases)
  case (ran body trailers c1)
  from relay_loop_post [OF ran(1)] ran(2) obtain new where
    new: "cn_sent c' = cn_sent c @ new" "cn_sent c1 = cn_sent c @ new" "answer_part (req_Job req) new"
    by (auto simp: relay_post_def grows_def)
  moreover have "answers False new" if "\<forall>a \<in> set attempts. answers False (pushed (at_evs a))"
    using relay_loop_answers [OF ran(1) that] new(2) by (auto simp: grows_def)
  moreover have "new \<noteq> [] \<and> is_last (last new)"
    if "\<forall>a \<in> set attempts. well_behaved (req_Job req) a" "healthy c" "req_Job req \<noteq> 0"
      "\<forall>e. length (acq_text e) < 65536" "length (err_text ErrProviderGone) < 65536" "ValidString (err_text ErrProviderGone)"
    using relay_loop_whole [OF that(3) _ that(5,6) ran(1) that(1,2)] that(4) new(2) by (auto simp: grows_def ends_whole_def)
  ultimately show ?thesis
    by (intro exI [of _ new]) (auto simp: answer_part_def)
qed (intro exI [of _ "[]"], simp)

text \<open>A job for a service whose provider is an object without a connection.\<close>

definition lone_attempt :: attempt where
  "lone_attempt = \<lparr>at_acquire = Inr 4, at_target = None, at_ctx = False, at_evs = []\<rparr>"

definition idle_conn :: conn where
  "idle_conn = newConn \<lparr>rd_data = [], rd_end = EOF\<rparr> \<lparr>wr_data = [], wr_script = []\<rparr> RoleServer ''p''"

definition lone_relay :: "pool_call list \<times> conn option" where
  "lone_relay = relay (\<lambda>_. ''timeout'') (\<lambda>_. ''gone'') (Request 3 ''s'' ''GET'' ''/'' []) [Pushed (End 3 [])] newJobQueue
     [lone_attempt] idle_conn"

lemma lone_relay_Some: "\<exists>c'. lone_relay = ([CallAcquire False, CallRelease 4], Some c')"
proof -
  have "collect [] [Pushed (End 3 [])] newJobQueue =
      Some (Inr ([], []), newJobQueue\<lparr>jq_ready := Suc 0\<rparr>, [])"
    by (subst collect.simps) (simp add: newJobQueue_def jq_next_waiting)
  then show ?thesis
    by (simp add: lone_relay_def relay_def lone_attempt_def)
qed

text \<open>
  A provider that begins its answer and then vanishes, with another attempt at hand that is not made.
\<close>

definition vanishing :: attempt where
  "vanishing = \<lparr>at_acquire = Inr 4, at_target = Some idle_conn, at_ctx = False,
     at_evs = [Pushed (Response 2 200 []), Closed ErrNetClosed]\<rparr>"

definition cut_relay :: "pool_call list \<times> conn option" where
  "cut_relay = relay (\<lambda>_. ''timeout'') (\<lambda>_. ''gone'') (Request 3 ''s'' ''GET'' ''/'' []) [Pushed (End 3 [])] newJobQueue
     [vanishing, vanishing] idle_conn"

lemma idle_conn_healthy: "healthy idle_conn" "cn_sent idle_conn = []"
  by (simp_all add: idle_conn_def newConn_def healthy_def NewEncoder_def)

lemma vanishing_attempt:
  "\<exists>c1 t. srv_dispatch (Request 3 ''s'' ''GET'' ''/'' []) [] [] False (at_evs vanishing) idle_conn idle_conn =
     Some ((True, Some ErrProviderGone), c1, t) \<and> cn_sent c1 = [Response 3 200 []] \<and> healthy c1"
proof -
  obtain t1 where t1: "newJob idle_conn = (Inr (2, 0), t1)" "cn_queues t1 0 = newJobQueue" "healthy t1"
    by (simp add: newJob_def open_queue_def Let_def idle_conn_def newConn_def healthy_def NewEncoder_def)
  have valid: "ValidString ''s''" by code_simp
  obtain t2 where t2: "send (Request 2 ''s'' ''GET'' ''/'' []) t1 = (Inr (), t2)" "healthy t2"
    by (rule send_healthy [OF t1(3), of "Request 2 ''s'' ''GET'' ''/'' []"]) (simp_all add: valid ok_headers_def)
  obtain t3 where t3: "send_each [End 2 []] t2 = (Inr (), t3)"
    by (rule send_each_sends [OF t2(2), of "[End 2 []]"]) (simp_all add: ok_headers_def)
  have q: "cn_queues t3 0 = newJobQueue"
    using send_frame [OF t2(1)] send_each_queues [OF t3] t1(2) by simp
  obtain c1 where c1: "send (Response 3 200 []) idle_conn = (Inr (), c1)" "healthy c1" "cn_sent c1 = [Response 3 200 []]"
    by (rule send_healthy [OF idle_conn_healthy(1), of "Response 3 200 []"]) (simp_all add: ok_headers_def minStatus_def maxStatus_def idle_conn_healthy)
  have "answer_loop 3 2 False False (at_evs vanishing) newJobQueue idle_conn t3 = Some ((True, Some ErrProviderGone), c1, t3)"
    by (subst answer_loop.simps, simp add: vanishing_def newJobQueue_def jq_next_waiting c1(1), subst answer_loop.simps)
      (simp add: jq_next_waiting)
  then have "srv_dispatch (Request 3 ''s'' ''GET'' ''/'' []) [] [] False (at_evs vanishing) idle_conn idle_conn =
      Some ((True, Some ErrProviderGone), c1, endJob 2 t3)"
    using t1 t2 t3 q by (simp add: srv_dispatch_def sendBodyEnd_def body_messages.simps [of 2 "[]"])
  with c1 show ?thesis
    by blast
qed

lemma cut_relay_sends:
  "\<exists>c'. cut_relay = ([CallAcquire False, CallRelease 4], Some c') \<and> cn_sent c' = [Response 3 200 [], Fail 3 ''gone'']"
proof -
  obtain c1 t where d: "srv_dispatch (Request 3 ''s'' ''GET'' ''/'' []) [] [] False (at_evs vanishing) idle_conn idle_conn =
     Some ((True, Some ErrProviderGone), c1, t)" "cn_sent c1 = [Response 3 200 []]" "healthy c1"
    using vanishing_attempt by blast
  have "ValidString ''gone''" by code_simp
  then obtain c2 where c2: "send (Fail 3 ''gone'') c1 = (Inr (), c2)" "cn_sent c2 = [Response 3 200 [], Fail 3 ''gone'']"
    using send_healthy [OF d(3), of "Fail 3 ''gone''"] d(2) by auto
  have "collect [] [Pushed (End 3 [])] newJobQueue = Some (Inr ([], []), newJobQueue\<lparr>jq_ready := Suc 0\<rparr>, [])"
    by (subst collect.simps) (simp add: newJobQueue_def jq_next_waiting)
  moreover have v: "at_acquire vanishing = Inr 4" "at_target vanishing = Some idle_conn" "\<not> at_ctx vanishing"
    by (simp_all add: vanishing_def)
  ultimately show ?thesis
    using d(1) c2 by (simp add: cut_relay_def relay_def)
qed

theorem relay_answers_once_witness:
  "\<exists>c'. snd cut_relay = Some c' \<and> cn_sent c' = [Response 3 200 [], Fail 3 ''gone''] \<and> answers False (cn_sent c')"
proof -
  obtain c' where c': "cut_relay = ([CallAcquire False, CallRelease 4], Some c')" "cn_sent c' = [Response 3 200 [], Fail 3 ''gone'']"
    using cut_relay_sends by blast
  have "\<forall>a \<in> set [vanishing, vanishing]. answers False (pushed (at_evs a))"
    by (simp add: vanishing_def)
  with relay_answers_once [OF c'(1) [unfolded cut_relay_def]] idle_conn_healthy have "answers False (cn_sent c')"
    by auto
  moreover have "snd cut_relay = Some c'"
    by (simp only: c'(1) snd_conv)
  ultimately show ?thesis
    using c'(2) by blast
qed

text \<open>
  C19. Every slot a relayed job takes is given back, once, and before the job asks for another: the
  leases it releases are exactly the leases its attempts acquired, in that order; and only the
  first attempt queues at the back, every later one goes to the head of the queue.
\<close>

theorem relay_releases_every_lease:
  assumes "relay acq_text err_text req evs q attempts c = (calls, Some c')"
  shows "releases_of calls = leases_of (take (length (acquires_of calls)) attempts) \<and>
    (calls = [] \<or> acquires_of calls = False # replicate (length (acquires_of calls) - 1) True)"
  using assms
proof (cases rule: relay_cases)
  case early
  then show ?thesis
    by (simp add: leases_of_def)
next
  case (ran body trailers c1)
  from relay_loop_post [OF ran(1)] show ?thesis
    by (simp add: relay_post_def)
qed

theorem relay_releases_every_lease_witness:
  "\<exists>c'. lone_relay = ([CallAcquire False, CallRelease 4], Some c') \<and>
     releases_of [CallAcquire False, CallRelease 4] = leases_of [lone_attempt]"
proof -
  from lone_relay_Some obtain c' where c': "lone_relay = ([CallAcquire False, CallRelease 4], Some c')" by blast
  from relay_releases_every_lease [OF c' [unfolded lone_relay_def]]
  have "releases_of [CallAcquire False, CallRelease 4] = leases_of [lone_attempt]"
    by (simp add: acquires_of_def)
  with c' show ?thesis
    by blast
qed

text \<open>
  The line after which a job can no longer be retried. One attempt at a provider reports
  \<open>started\<close> exactly when a RESPONSE went to the submitter (or could not be written to it, which
  cancels the job); it reports success exactly when it relayed the END or the FAIL; so when it
  reports that the provider is gone before \<open>started\<close>, nothing that began an answer has been sent.
\<close>

theorem dispatch_reports_started:
  assumes "srv_dispatch req body trailers ctx evs c target = Some ((started, err), c', target')"
  shows "\<exists>new. cn_sent c' = cn_sent c @ new \<and>
    ((\<exists>m \<in> set new. is_response m) \<longrightarrow> started) \<and>
    (started \<longrightarrow> (\<exists>m \<in> set new. is_response m) \<or> err = Some ErrCancelled) \<and>
    (err = None \<longrightarrow> new \<noteq> [] \<and> is_last (last new)) \<and>
    (err \<noteq> None \<longrightarrow> (\<forall>m \<in> set new. \<not> is_last m))"
  using srv_dispatch_post [OF assms] by (auto simp: grows_def loop_post_def open_part_def)

theorem dispatch_reports_started_witness:
  "\<exists>new. srv_dispatch (Request 3 ''s'' ''GET'' ''/'' []) [] [] False [] idle_conn (idle_conn\<lparr>cn_err := Some ErrNetClosed\<rparr>) =
     Some ((False, Some ErrProviderGone), idle_conn, idle_conn\<lparr>cn_err := Some ErrNetClosed\<rparr>) \<and>
     cn_sent idle_conn = cn_sent idle_conn @ new \<and> filter is_response new = []"
proof -
  have "srv_dispatch (Request 3 ''s'' ''GET'' ''/'' []) [] [] False [] idle_conn (idle_conn\<lparr>cn_err := Some ErrNetClosed\<rparr>) =
     Some ((False, Some ErrProviderGone), idle_conn, idle_conn\<lparr>cn_err := Some ErrNetClosed\<rparr>)"
    by (simp add: srv_dispatch_def newJob_def)
  with dispatch_reports_started [OF this] show ?thesis
    by (auto simp: filter_empty_conv)
qed

lemma hello_keeps_err: "cn_hello c = (r, c') \<Longrightarrow> cn_err c' = cn_err c"
  using receive_frame [of c]
  by (fastforce simp: cn_hello_def bindE_def returnE_def failE_def split: prod.splits sum.splits message.splits)

text \<open>
  A client's session from its HELLO to its end. While it runs, its peer is on the list of
  peers and the pool has one provider for each announced upstream, in its service and with the
  session's connection. When it ends, whatever happened to the server meanwhile, exactly its peer
  has left the list and exactly its providers have left the pool, and its connection is closed with
  no job left on it.
\<close>

theorem session_leaves_nothing:
  assumes inv: "pool_inv (sv_pool s)" and c: "cn_err c = None"
    and hello: "cn_hello c = (Inr (name, infos), c1)"
    and reg: "register target name infos (sv_pool s) = (Inr added, p1)"
    and s1: "s1 = addPeer k (s\<lparr>sv_pool := p1\<rparr>)"
    and run: "pool_inv (sv_pool (session s1))" "p_nprov p1 \<le> p_nprov (sv_pool (session s1))"
    and handle: "srv_handle target k session c s = (c', s')"
  shows "k \<in> set (sv_peers s1) \<and> length added = length infos \<and>
    (\<forall>i < length infos. added ! i \<in> set (s_providers (svc p1 (pi_Service (infos ! i)))) \<and>
       Target (p_prov p1 (added ! i)) = target) \<and>
    set (sv_peers s') = set (sv_peers (session s1)) - {k} \<and>
    s_providers (svc (sv_pool s') n) = filter (\<lambda>i. i \<notin> set added) (s_providers (svc (sv_pool (session s1)) n)) \<and>
    cn_closed c' \<and> cn_jobs c' = Map.empty"
proof -
  from register_loop_ok [OF inv reg [unfolded register_def]]
  have added: "added = [p_nprov (sv_pool s)..<p_nprov (sv_pool s) + length infos]"
        "p_nprov p1 = p_nprov (sv_pool s) + length infos"
      and reg': "registered target name infos (p_nprov (sv_pool s)) p1"
    by simp_all
  have "set added \<subseteq> {..<p_nprov (sv_pool (session s1))}"
    using added run(2) by auto
  note removed = unregister_providers(2) [OF run(1) this, of n]
  have "cn_err (setPeer name c1) = None"
    using hello_keeps_err [OF hello] c by (simp add: setPeer_def)
  from cn_run_fails [OF this] obtain e c2 where
    c2: "cn_run (setPeer name c1) = (e, c2)" "cn_err c2 = Some e" "cn_closed c2" "cn_jobs c2 = Map.empty"
    by blast
  have "s' = (let s2 = removePeer k (session s1) in s2\<lparr>sv_pool := unregister added (sv_pool s2)\<rparr>)" "c' = c2"
    using handle hello reg c2 by (simp_all add: srv_handle_def s1 Let_def cn_Close_def cn_fail_eq close_all_def)
  with removed reg' added c2(3,4) show ?thesis
    by (auto simp: registered_def offer_of_def removePeer_def s1 addPeer_def Let_def)
qed

definition one_info :: provider_info where
  "one_info = \<lparr>pi_Service = ''s'', pi_MaxConcurrent = 2, pi_Priority = 0\<rparr>"

definition one_pool :: "unit pool" where
  "one_pool = snd (register () ''peer'' [one_info] (New 5))"

definition hello_conn :: conn where
  "hello_conn = newConn \<lparr>rd_data = KindHello # enc_fields (Hello ''peer'' [one_info]), rd_end = EOF\<rparr>
     \<lparr>wr_data = [], wr_script = []\<rparr> RoleServer []"

lemma register_one: "register () ''peer'' [one_info] (New 5) = (Inr [0], one_pool)"
  by (simp add: one_pool_def register_def one_info_def new_provider_def New_def)

lemma one_pool_inv: "pool_inv one_pool" "p_nprov one_pool = 1"
  using register_loop_ok [OF New_inv register_one [unfolded register_def]] by (simp_all add: New_def)

lemma one_pool_listed: "s_providers (svc one_pool ''s'') = [0]"
  using Add_frame(1) [OF New_inv, of "''peer''" "''s''" 2 0 "()" 5 0 _ "''s''"]
  by (simp add: one_pool_def register_def one_info_def new_provider_def New_def svc_def)

lemma hello_conn_hello: "\<exists>c1. cn_hello hello_conn = (Inr (''peer'', [one_info]), c1)"
proof -
  let ?m = "Hello ''peer'' [one_info]" and ?d = "cn_dec hello_conn"
  have "ok_msg ?m"
    by (simp add: one_info_def) code_simp
  moreover have "d_err ?d = None" "d_admits ?d ?m"
    by (simp_all add: hello_conn_def newConn_def NewDecoder_def d_admits_def)
  ultimately have "run_state Next (feed (Kind ?m # enc_fields ?m @ []) ?d) = (Inr ?m, d_after ?m (feed [] ?d))"
    by (rule Next_ok)
  moreover have "feed (Kind ?m # enc_fields ?m @ []) ?d = ?d"
    by (simp add: feed_def hello_conn_def newConn_def NewDecoder_def)
  ultimately show ?thesis
    by (simp add: cn_hello_def cn_receive_def bindE_def returnE_def SetDeadline_def) (simp add: hello_conn_def newConn_def)
qed

theorem session_leaves_nothing_witness:
  "\<exists>c' s'. srv_handle () 7 (\<lambda>s. s) hello_conn (NewServer 5) = (c', s') \<and>
     sv_peers s' = [] \<and> s_providers (svc (sv_pool s') ''s'') = [] \<and> s_providers (svc one_pool ''s'') = [0] \<and> cn_closed c'"
proof -
  obtain c1 where hello: "cn_hello hello_conn = (Inr (''peer'', [one_info]), c1)"
    using hello_conn_hello by blast
  obtain c' s' where handle: "srv_handle () 7 (\<lambda>s. s) hello_conn (NewServer 5) = (c', s')"
    by fastforce
  have "cn_err hello_conn = None" "pool_inv (New 5 :: unit pool)"
    by (simp_all add: hello_conn_def newConn_def New_inv)
  then have "set (sv_peers s') = {} \<and> s_providers (svc (sv_pool s') ''s'') = [] \<and> cn_closed c'"
    using session_leaves_nothing [OF _ _ hello _ refl _ _ handle, of "[0]" one_pool "''s''"] register_one one_pool_inv one_pool_listed
    by (simp add: NewServer_def addPeer_def)
  with handle one_pool_listed show ?thesis
    by simp
qed

text \<open>
  C20. The refusal of a HELLO that announces one service twice. The session ends without ever
  removing what it had registered by then: its first provider stays listed in its service, not gone
  and with the refused connection as its target.
\<close>

theorem register_refusal_leaks:
  assumes "pool_inv p" "register target name (info # infos) p = (Inl e, p')"
  shows "p_nprov p \<in> set (s_providers (svc p' (pi_Service info))) \<and> \<not> gone (p_prov p' (p_nprov p)) \<and>
    Target (p_prov p' (p_nprov p)) = target"
proof -
  obtain i p1 where new: "new_provider name (pi_Service info) (pi_MaxConcurrent info) (pi_Priority info) target p = (i, p1)"
    by fastforce
  note add = Add_frame [OF assms(1) new] and tgt = Add_target [OF assms(1) new]
  have rec: "register_loop target name {pi_Service info} [i] infos (Add i p1) = (Inl e, p')"
    using assms(2) new by (simp add: register_def)
  have "i \<in> set (s_providers (svc (Add i p1) (pi_Service info)))"
    by (simp add: add(1))
  from register_loop_keeps [OF add(6) rec this] add(3) tgt show ?thesis
    by (simp add: offer_of_def)
qed

theorem register_refusal_leaks_witness:
  "\<exists>p'. register () ''peer'' [one_info, one_info] (New 5) = (Inl (ErrTwoProviders ''s''), p') \<and>
     0 \<in> set (s_providers (svc p' ''s''))"
proof -
  obtain p' where p': "register () ''peer'' [one_info, one_info] (New 5) = (Inl (ErrTwoProviders ''s''), p')"
    by (simp add: register_def one_info_def new_provider_def New_def)
  from register_refusal_leaks [OF New_inv this] have "0 \<in> set (s_providers (svc p' ''s''))"
    by (simp add: New_def one_info_def)
  with p' show ?thesis
    by blast
qed

lemma relay_loop_dead:
  assumes "cn_err dead \<noteq> None" "at_target a = Some dead" "at_acquire a = Inr l"
  shows "relay_loop acq_text err_text req body trailers front (a # as) c =
    apfst ((@) [CallAcquire front, CallRelease l]) (relay_loop acq_text err_text req body trailers True as c)"
proof -
  from assms(1) obtain e where "cn_err dead = Some e" by blast
  then have "srv_dispatch req body trailers (at_ctx a) (at_evs a) c dead = Some ((False, Some ErrProviderGone), c, dead)"
    by (simp add: srv_dispatch_def newJob_def)
  with assms show ?thesis
    by (simp add: apfst_def map_prod_def)
qed

text \<open>
  What such a provider does to the jobs of its service. Its connection has ended, so no job can be
  opened on it: each attempt is over at once, the lease is given back, and the job asks for a slot
  again at the head of the queue. Any number of turns that get a lease of it leave the job where
  it was, with nothing sent.
\<close>

theorem dead_provider_spins:
  assumes "cn_err dead \<noteq> None"
  shows "relay_loop acq_text err_text req body trailers True
      (map (\<lambda>l. \<lparr>at_acquire = Inr l, at_target = Some dead, at_ctx = False, at_evs = []\<rparr>) ls @ rest) c =
    apfst ((@) (concat (map (\<lambda>l. [CallAcquire True, CallRelease l]) ls)))
      (relay_loop acq_text err_text req body trailers True rest c)"
  by (induction ls) (simp_all add: relay_loop_dead [OF assms] apfst_def map_prod_def split_beta del: relay_loop.simps(2))

theorem dead_provider_spins_witness:
  "relay_loop (\<lambda>_. []) (\<lambda>_. []) (Request 3 ''s'' ''GET'' ''/'' []) [] [] True
     (map (\<lambda>l. \<lparr>at_acquire = Inr l, at_target = Some (idle_conn\<lparr>cn_err := Some ErrNetClosed\<rparr>), at_ctx = False, at_evs = []\<rparr>) [7, 8]
       @ []) idle_conn =
     ([CallAcquire True, CallRelease 7, CallAcquire True, CallRelease 8], None)"
  by (subst dead_provider_spins) simp_all

end
