(* ===== verification/Joining.thy ===== *)
theory Joining
  imports Client Server_Run Server_Theorems Endpoint_Theorems
begin

text \<open>
  How a peer joins: dialling, the handshake, the HELLO over the encrypted records, and the
  providers of its conf in the server's pool. The server's own sections join the same way over a pipe.
\<close>

lemma cn_hello_reads:
  assumes "is_hello m" "ok_msg m"
  shows "\<exists>c1. cn_hello (newConn \<lparr>rd_data = Kind m # enc_fields m @ rest, rd_end = fin\<rparr> w RoleServer peer) =
    (Inr (hello_Name m, hello_Providers m), c1)"
proof -
  let ?d = "NewDecoder \<lparr>rd_data = Kind m # enc_fields m @ rest, rd_end = fin\<rparr> RoleServer"
  have "run_state Next (feed (Kind m # enc_fields m @ rest) ?d) = (Inr m, d_after m (feed rest ?d))"
    using assms by (intro Next_ok) (simp_all add: NewDecoder_def d_admits_def)
  moreover have "feed (Kind m # enc_fields m @ rest) ?d = ?d"
    by (simp add: feed_def NewDecoder_def)
  ultimately show ?thesis
    using assms(1) by (cases m) (auto simp: cn_hello_def cn_receive_def bindE_def returnE_def SetDeadline_def newConn_def)
qed

lemma send_hello:
  assumes "is_hello m" "ok_msg m"
  shows "\<exists>c'. send m (newConn r \<lparr>wr_data = [], wr_script = []\<rparr> RoleClient peer) = (Inr (), c') \<and>
    wr_data (e_w (cn_enc c')) = Kind m # enc_fields m \<and> cn_sent c' = [m] \<and> cn_err c' = None"
  using assms
  by (simp add: send_def SetDeadline_def newConn_def Encoder_Write_def NewEncoder_def helloOrder_def Let_def Encode_ok Write_def)

text \<open>The read loop writes nothing.\<close>

lemma dispatch_enc: "cn_dispatch m c = (r, c') \<Longrightarrow> cn_enc c' = cn_enc c \<and> cn_sent c' = cn_sent c"
  by (auto simp: cn_dispatch_eq cn_start_def openJob_def open_queue_def on_queue_def
      split: message.splits option.splits if_splits)

lemma receive_enc: "cn_receive c = (r, c') \<Longrightarrow> cn_enc c' = cn_enc c \<and> cn_sent c' = cn_sent c"
  by (auto simp: cn_receive_def split: option.splits prod.splits sum.splits)

lemma fail_enc: "cn_enc (cn_fail e c) = cn_enc c \<and> cn_sent (cn_fail e c) = cn_sent c"
  by (simp add: cn_fail_eq close_all_def fail_mark_def)

lemma run_enc: "cn_run c = (e, c') \<Longrightarrow> cn_enc c' = cn_enc c \<and> cn_sent c' = cn_sent c"
proof (induction c arbitrary: e c' rule: cn_run.induct)
  case (1 c)
  obtain r c1 where r: "cn_receive c = (r, c1)" by fastforce
  show ?case
  proof (cases r)
    case (Inl err)
    with r "1.prems" receive_enc [OF r] fail_enc show ?thesis
      by (subst (asm) cn_run.simps) auto
  next
    case (Inr m)
    obtain r2 c2 where d: "cn_dispatch m c1 = (r2, c2)" by fastforce
    show ?thesis
    proof (cases r2)
      case (Inl err)
      with r Inr d "1.prems" receive_enc [OF r] dispatch_enc [OF d] fail_enc show ?thesis
        by (subst (asm) cn_run.simps) auto
    next
      case Inr2: (Inr u)
      have "cn_run c2 = (e, c')"
        using "1.prems" r Inr d Inr2 by (subst (asm) cn_run.simps) simp
      with "1.IH" [OF r [symmetric] Inr d [symmetric] Inr2] receive_enc [OF r] dispatch_enc [OF d] show ?thesis
        by simp
    qed
  qed
qed

text \<open>What a client's session writes first is the HELLO of its conf.\<close>

lemma Serve_says_hello:
  assumes "ok_msg (ep_hello e)"
  shows "\<exists>err e' c. Serve k running e (newConn r \<lparr>wr_data = [], wr_script = []\<rparr> RoleClient peer) = (err, e', c) \<and>
    wr_data (e_w (cn_enc c)) = Kind (ep_hello e) # enc_fields (ep_hello e) \<and> cn_sent c = [ep_hello e]"
proof -
  have "is_hello (ep_hello e)" by (simp add: ep_hello_def)
  from send_hello [OF this assms] obtain c1 where c1: "send (ep_hello e) (newConn r \<lparr>wr_data = [], wr_script = []\<rparr> RoleClient peer) = (Inr (), c1)"
      "wr_data (e_w (cn_enc c1)) = Kind (ep_hello e) # enc_fields (ep_hello e)" "cn_sent c1 = [ep_hello e]"
    by blast
  obtain err c2 where "cn_run c1 = (err, c2)" by fastforce
  with run_enc [OF this] c1 fail_enc show ?thesis
    by (simp add: Serve_def Let_def cn_Close_def)
qed

text \<open>What a server makes of a connection whose first bytes are the HELLO of a conf.\<close>

lemma handle_registers:
  assumes cfg: "conf_ok cfg" "length (cf_Provide cfg) \<le> 255" and inv: "pool_inv (sv_pool s)"
    and m: "m = ep_hello (NewEndpoint cfg)"
  obtains added p1 c' where
    "register k (cf_Name cfg) (hello_Providers m) (sv_pool s) = (Inr added, p1)"
    "registered k (cf_Name cfg) (hello_Providers m) (p_nprov (sv_pool s)) p1"
    "added = [p_nprov (sv_pool s)..<p_nprov (sv_pool s) + length (cf_Provide cfg)]"
    "srv_handle k k env (newConn \<lparr>rd_data = Kind m # enc_fields m @ rest, rd_end = fin\<rparr> w RoleServer []) s =
       (c', let s1 = removePeer k (env (addPeer k (s\<lparr>sv_pool := p1\<rparr>))) in s1\<lparr>sv_pool := unregister added (sv_pool s1)\<rparr>)"
proof -
  have hello: "is_hello m" "ok_msg m" "hello_Name m = cf_Name cfg"
    using hello_fits [OF cfg(1)] cfg(2) by (simp_all add: m ep_hello_def NewEndpoint_def)
  from hello_registers [OF cfg(1), of k "sv_pool s"] m obtain added p1 where
    reg: "register k (cf_Name cfg) (hello_Providers m) (sv_pool s) = (Inr added, p1)"
    by metis
  have "length (hello_Providers m) = length (cf_Provide cfg)"
    by (simp add: m ep_hello_def NewEndpoint_def)
  with register_loop_ok [OF inv reg [unfolded register_def]]
  have "registered k (cf_Name cfg) (hello_Providers m) (p_nprov (sv_pool s)) p1"
      "added = [p_nprov (sv_pool s)..<p_nprov (sv_pool s) + length (cf_Provide cfg)]"
    by simp_all
  moreover obtain c1 where "cn_hello (newConn \<lparr>rd_data = Kind m # enc_fields m @ rest, rd_end = fin\<rparr> w RoleServer []) =
      (Inr (cf_Name cfg, hello_Providers m), c1)"
    using cn_hello_reads [OF hello(1,2), of rest fin w "[]"] hello(3) by auto
  ultimately show thesis
    using reg by (intro that [of added p1]) (simp_all add: srv_handle_def Let_def)
qed

text \<open>
  The server's own sections join over the pipe: what the goroutine that serves them says first is the
  HELLO of the server's conf, and the goroutine that handles the other end, reading that, has a
  provider in the pool for each of them.
\<close>

theorem own_sections_join:
  assumes "conf_ok cfg" "length (cf_Provide cfg) \<le> 255" "pool_inv (sv_pool s)"
    and self: "serveSelf (\<lparr>rd_data = said @ rest, rd_end = fin\<rparr>, w) (r, \<lparr>wr_data = [], wr_script = []\<rparr>) cfg = [GoHandle c1, GoServe c2]"
    and said: "said = wr_data (e_w (cn_enc (snd (snd (Serve k' running (NewEndpoint cfg) c2)))))"
  shows "\<exists>p1 c'. registered k (cf_Name cfg) (hello_Providers (ep_hello (NewEndpoint cfg))) (p_nprov (sv_pool s)) p1 \<and>
    srv_handle k k env c1 s = (c', let s1 = removePeer k (env (addPeer k (s\<lparr>sv_pool := p1\<rparr>)))
      in s1\<lparr>sv_pool := unregister [p_nprov (sv_pool s)..<p_nprov (sv_pool s) + length (cf_Provide cfg)] (sv_pool s1)\<rparr>)"
proof -
  let ?m = "ep_hello (NewEndpoint cfg)"
  have c: "c1 = newConn \<lparr>rd_data = said @ rest, rd_end = fin\<rparr> w RoleServer []" "c2 = newConn r \<lparr>wr_data = [], wr_script = []\<rparr> RoleClient (cf_Name cfg)"
    using self by (auto simp: serveSelf_def split: if_splits)
  have "ok_msg ?m"
    using hello_fits [OF assms(1)] assms(2) by simp
  from Serve_says_hello [OF this, of k' running r "cf_Name cfg"] have "said = Kind ?m # enc_fields ?m"
    by (auto simp: said c(2))
  then show ?thesis
    using handle_registers [OF assms(1-3) refl, of k env rest fin w] c(1) by (metis append_Cons)
qed

text \<open>
  C7. A client joins the pool. Take a client and a server with the same secret, and a client's conf
  that was accepted and has at most 255 \<open>[provide]\<close> sections. There are bytes \<open>w2\<close> with which the server
  answers the client's handshake, and on which the client's session is made and its first message is the HELLO of its
  conf. However that message and whatever follows it are cut into writes, the record writer takes them
  (up to \<open>2\<^sup>6\<^sup>4 - 2\<close> bytes), and the server that receives its records accepts the connection, answers the handshake with exactly these \<open>w2\<close>, and has, until the connection ends, one
  provider in its pool for each section: in the section's service, under the client's name, with the
  section's slots and priority, and with this connection as its target. When the connection has ended,
  they are taken out again.
\<close>

theorem client_joins_the_pool:
  assumes S: "aead_ok S" "dh_ok S" "x_ECDH S a (x_PublicKey S b) \<noteq> None" "length a = 32" "length b = 32"
    and cfg: "conf_ok cfg" "cf_Role cfg = ConfClient" "length (cf_Provide cfg) \<le> 255"
    and same: "cf_Secret scfg = cf_Secret cfg" and inv: "pool_inv (sv_pool s)"
  shows "\<exists>w2 rw.
    (\<forall>t answers fin. tn_dial t = Inr \<lparr>lk_in = \<lparr>rd_data = w2 @ answers, rd_end = fin\<rparr>, lk_out = \<lparr>wr_data = [], wr_script = []\<rparr>\<rparr> \<longrightarrow>
       tn_rand t = \<lparr>rd_data = a @ ra, rd_end = ea\<rparr> \<longrightarrow> tn_script t = [] \<longrightarrow>
       (\<exists>sn l err c' conn. wire_Handshake S (tn_rand t) (cf_Secret cfg) True (projr (tn_dial t)) = (Inr sn, l) \<and> sn_Writer sn = rw \<and>
          session S t (NewClient cfg) = ((True, SessionEnded err), c', Some conn) \<and> cn_sent conn = [ep_hello (NewEndpoint cfg)] \<and>
          wr_data (e_w (cn_enc conn)) = KindHello # enc_fields (ep_hello (NewEndpoint cfg)))) \<and>
    (\<forall>ps. length (concat ps) < 2 ^ 64 - 1 \<longrightarrow> (\<exists>rw'. write_all S ps rw = (None, rw'))) \<and>
    (\<forall>ps rest rw' fin. concat ps = (KindHello # enc_fields (ep_hello (NewEndpoint cfg))) @ rest \<longrightarrow> write_all S ps rw = (None, rw') \<longrightarrow>
       (\<exists>p1 c' raw. wr_data (lk_out raw) = w2 \<and> (\<forall>i < length (cf_Provide cfg). let p = cf_Provide cfg ! i; j = p_nprov (sv_pool s) + i in
            j \<in> set (s_providers (svc p1 (pv_Service p))) \<and>
            offer_of (p_prov p1 j) = (cf_Name cfg, pv_Service p, pv_MaxConcurrent p, pv_Priority p, k, False)) \<and>
          accept S \<lparr>rd_data = b @ rb, rd_end = eb\<rparr> script k env scfg
            \<lparr>lk_in = \<lparr>rd_data = wr_data (rw_w rw'), rd_end = fin\<rparr>, lk_out = \<lparr>wr_data = [], wr_script = []\<rparr>\<rparr> s =
          (Accepted, Some c', raw, let s1 = removePeer k (env (addPeer k (s\<lparr>sv_pool := p1\<rparr>)))
             in s1\<lparr>sv_pool := unregister [p_nprov (sv_pool s)..<p_nprov (sv_pool s) + length (cf_Provide cfg)] (sv_pool s1)\<rparr>)))"
proof -
  let ?m = "ep_hello (NewEndpoint cfg)"
  have m: "ok_msg ?m" "Kind ?m = KindHello"
    using hello_fits [OF cfg(1)] cfg(3) by (simp_all add: ep_hello_def)
  have psk: "length (cf_Secret cfg) = 32"
    using cfg(1,2) by (auto simp: conf_ok_def values_ok_def role_ok_def SecretSize_def)
  from session_setup [OF S(1-3) psk S(4,5), of ra ea rb eb] obtain w1 w2 snd_c rcv_c where
    nonce: "Nonce snd_c = 0" and client: "\<And>answers fin. wire_Handshake S \<lparr>rd_data = a @ ra, rd_end = ea\<rparr> (cf_Secret cfg) True
        \<lparr>lk_in = \<lparr>rd_data = w2 @ answers, rd_end = fin\<rparr>, lk_out = \<lparr>wr_data = [], wr_script = []\<rparr>\<rparr> =
      (Inr \<lparr>sn_Reader = NewRecordReader \<lparr>rd_data = answers, rd_end = fin\<rparr> rcv_c,
            sn_Writer = NewRecordWriter \<lparr>wr_data = w1, wr_script = []\<rparr> snd_c\<rparr>,
       \<lparr>lk_in = \<lparr>rd_data = answers, rd_end = fin\<rparr>, lk_out = \<lparr>wr_data = w1, wr_script = []\<rparr>\<rparr>)"
    and server: "\<And>rest fin. wire_Handshake S \<lparr>rd_data = b @ rb, rd_end = eb\<rparr> (cf_Secret cfg) False
        \<lparr>lk_in = \<lparr>rd_data = w1 @ rest, rd_end = fin\<rparr>, lk_out = \<lparr>wr_data = [], wr_script = []\<rparr>\<rparr> =
      (Inr \<lparr>sn_Reader = NewRecordReader \<lparr>rd_data = rest, rd_end = fin\<rparr> snd_c,
            sn_Writer = NewRecordWriter \<lparr>wr_data = w2, wr_script = []\<rparr> rcv_c\<rparr>,
       \<lparr>lk_in = \<lparr>rd_data = rest, rd_end = fin\<rparr>, lk_out = \<lparr>wr_data = w2, wr_script = []\<rparr>\<rparr>)"
    by blast
  let ?rw = "NewRecordWriter \<lparr>wr_data = w1, wr_script = []\<rparr> snd_c"
  have dials: "\<exists>sn l err c' conn. wire_Handshake S (tn_rand t) (cf_Secret cfg) True (projr (tn_dial t)) = (Inr sn, l) \<and> sn_Writer sn = ?rw \<and>
      session S t (NewClient cfg) = ((True, SessionEnded err), c', Some conn) \<and> cn_sent conn = [?m] \<and>
      wr_data (e_w (cn_enc conn)) = KindHello # enc_fields ?m"
    if t: "tn_dial t = Inr \<lparr>lk_in = \<lparr>rd_data = w2 @ answers, rd_end = fin\<rparr>, lk_out = \<lparr>wr_data = [], wr_script = []\<rparr>\<rparr>"
      "tn_rand t = \<lparr>rd_data = a @ ra, rd_end = ea\<rparr>" "tn_script t = []" for t answers fin
  proof -
    obtain err e' conn where "Serve (tn_number t) (tn_running t) (NewEndpoint cfg)
        (newConn (rr_view S (NewRecordReader \<lparr>rd_data = answers, rd_end = fin\<rparr> rcv_c)) \<lparr>wr_data = [], wr_script = []\<rparr> RoleClient (cf_Server cfg)) =
          (err, e', conn)"
        "wr_data (e_w (cn_enc conn)) = KindHello # enc_fields ?m" "cn_sent conn = [?m]"
      using Serve_says_hello [OF m(1)] m(2) by metis
    then show ?thesis
      using client t by (simp add: session_def NewClient_def conn_over_def)
  qed
  have joins: "\<exists>p1 c' raw. wr_data (lk_out raw) = w2 \<and> (\<forall>i < length (cf_Provide cfg). let p = cf_Provide cfg ! i; j = p_nprov (sv_pool s) + i in
        j \<in> set (s_providers (svc p1 (pv_Service p))) \<and>
        offer_of (p_prov p1 j) = (cf_Name cfg, pv_Service p, pv_MaxConcurrent p, pv_Priority p, k, False)) \<and>
      accept S \<lparr>rd_data = b @ rb, rd_end = eb\<rparr> script k env scfg
        \<lparr>lk_in = \<lparr>rd_data = wr_data (rw_w rw'), rd_end = fin\<rparr>, lk_out = \<lparr>wr_data = [], wr_script = []\<rparr>\<rparr> s =
      (Accepted, Some c', raw, let s1 = removePeer k (env (addPeer k (s\<lparr>sv_pool := p1\<rparr>)))
         in s1\<lparr>sv_pool := unregister [p_nprov (sv_pool s)..<p_nprov (sv_pool s) + length (cf_Provide cfg)] (sv_pool s1)\<rparr>)"
    if ps: "concat ps = (KindHello # enc_fields ?m) @ rest" "write_all S ps ?rw = (None, rw')" for ps rest rw' fin
  proof -
    obtain wire where wire: "wr_data (rw_w rw') = w1 @ wire"
        "rr_view S (NewRecordReader \<lparr>rd_data = wire, rd_end = fin\<rparr> snd_c) = \<lparr>rd_data = concat ps, rd_end = fin\<rparr>"
      using records_view_from [OF S(1) ps(2), of fin] by (auto simp: NewRecordWriter_def)
    obtain added p1 c' where
        h: "registered k (cf_Name cfg) (hello_Providers ?m) (p_nprov (sv_pool s)) p1"
          "added = [p_nprov (sv_pool s)..<p_nprov (sv_pool s) + length (cf_Provide cfg)]"
          "srv_handle k k env (newConn \<lparr>rd_data = Kind ?m # enc_fields ?m @ rest, rd_end = fin\<rparr> \<lparr>wr_data = [], wr_script = script\<rparr> RoleServer []) s =
            (c', let s1 = removePeer k (env (addPeer k (s\<lparr>sv_pool := p1\<rparr>))) in s1\<lparr>sv_pool := unregister added (sv_pool s1)\<rparr>)"
      by (rule handle_registers [OF cfg(1,3) inv refl])
    then show ?thesis
      using server wire ps(1) m(2) same
      by (intro exI [of _ p1] exI [of _ c'] exI [of _ "\<lparr>lk_in = \<lparr>rd_data = wire, rd_end = fin\<rparr>, lk_out = \<lparr>wr_data = w2, wr_script = []\<rparr>\<rparr>"])
        (simp add: accept_def conn_over_def registered_def ep_hello_def NewEndpoint_def Let_def)
  qed
  have "\<exists>rw'. write_all S ps ?rw = (None, rw')" if "length (concat ps) < 2 ^ 64 - 1" for ps
    using nonce that by (intro write_all_succeeds) (simp_all add: NewRecordWriter_def Nonce_def)
  then show ?thesis
    using dials joins by (intro exI [of _ w2] exI [of _ ?rw]) blast
qed

definition dialling_conf :: Conf where
  "dialling_conf = \<lparr>cf_Role = ConfClient, cf_Listen = DefaultListen, cf_Server = ''mill:7420'', cf_Secret = replicate 32 7, cf_Name = ''desk'',
     cf_QueueTimeout = DefaultQueueTimeout, cf_Consume = [],
     cf_Provide = [\<lparr>pv_Service = ''s'', pv_Upstream = ''h:1'', pv_MaxConcurrent = 2, pv_Priority = 5\<rparr>]\<rparr>"

lemma dialling_conf_ok: "conf_ok dialling_conf" "cf_Role dialling_conf = ConfClient" "length (cf_Provide dialling_conf) \<le> 255"
  by code_simp+

theorem client_joins_the_pool_witness:
  "\<exists>t err c' conn. session null_suite t (NewClient dialling_conf) = ((True, SessionEnded err), c', Some conn) \<and>
     cn_sent conn = [Hello ''desk'' [\<lparr>pi_Service = ''s'', pi_MaxConcurrent = 2, pi_Priority = 5\<rparr>]]"
proof -
  have ecdh: "x_ECDH null_suite x y \<noteq> None" for x y
    by (simp add: null_suite_def)
  have inv: "pool_inv (sv_pool (NewServer 5 :: nat server))"
    by (simp add: NewServer_def New_inv)
  have hello: "ep_hello (NewEndpoint dialling_conf) = Hello ''desk'' [\<lparr>pi_Service = ''s'', pi_MaxConcurrent = 2, pi_Priority = 5\<rparr>]"
    by (simp add: ep_hello_def NewEndpoint_def dialling_conf_def)
  have "\<exists>w2 rw. \<forall>t answers fin. tn_dial t = Inr \<lparr>lk_in = \<lparr>rd_data = w2 @ answers, rd_end = fin\<rparr>, lk_out = \<lparr>wr_data = [], wr_script = []\<rparr>\<rparr> \<longrightarrow>
       tn_rand t = \<lparr>rd_data = replicate 32 1 @ [], rd_end = EOF\<rparr> \<longrightarrow> tn_script t = [] \<longrightarrow>
       (\<exists>sn l err c' conn. wire_Handshake null_suite (tn_rand t) (cf_Secret dialling_conf) True (projr (tn_dial t)) = (Inr sn, l) \<and> sn_Writer sn = rw \<and>
          session null_suite t (NewClient dialling_conf) = ((True, SessionEnded err), c', Some conn) \<and>
          cn_sent conn = [ep_hello (NewEndpoint dialling_conf)] \<and>
          wr_data (e_w (cn_enc conn)) = KindHello # enc_fields (ep_hello (NewEndpoint dialling_conf)))"
    by (rule ex_forward [OF client_joins_the_pool [OF null_suite_ok ecdh _ _ dialling_conf_ok refl inv,
          of "replicate 32 1" "replicate 32 2" "[]" EOF 0 "[]" EOF "[]" "\<lambda>s. s"]])
      (simp_all, blast)
  then obtain w2 where w2: "\<forall>t answers fin. tn_dial t = Inr \<lparr>lk_in = \<lparr>rd_data = w2 @ answers, rd_end = fin\<rparr>, lk_out = \<lparr>wr_data = [], wr_script = []\<rparr>\<rparr> \<longrightarrow>
       tn_rand t = \<lparr>rd_data = replicate 32 1 @ [], rd_end = EOF\<rparr> \<longrightarrow> tn_script t = [] \<longrightarrow>
       (\<exists>err c' conn. session null_suite t (NewClient dialling_conf) = ((True, SessionEnded err), c', Some conn) \<and>
          cn_sent conn = [ep_hello (NewEndpoint dialling_conf)])"
    by blast
  let ?t = "unreachable\<lparr>tn_dial := Inr \<lparr>lk_in = \<lparr>rd_data = w2 @ [], rd_end = EOF\<rparr>, lk_out = \<lparr>wr_data = [], wr_script = []\<rparr>\<rparr>,
      tn_rand := \<lparr>rd_data = replicate 32 1 @ [], rd_end = EOF\<rparr>\<rparr>"
  have "tn_script ?t = []"
    by (simp add: unreachable_def)
  with w2 [rule_format, of ?t "[]" EOF] show ?thesis
    unfolding hello by (intro exI [of _ ?t]) simp
qed

end
