(* ===== verification/Conf_Print.thy ===== *)
theory Conf_Print
  imports Conf_Laws
begin

text \<open>
  The other direction of the grammar: how a configuration is written down, and the lemmas that
  take each piece of what is written through the functions that read it.
\<close>

subsection \<open>Numbers and keys\<close>

lemma is_digit_char: "n < 10 \<Longrightarrow> is_digit (char_of (48 + n :: nat))"
  by (simp add: is_digit_def)

lemma decimal_snoc: "decimal (s @ [c]) = decimal s * 10 + digit_val c"
  by (simp add: decimal_def)

lemma dec_digits_props:
  "decimal (dec_digits n) = n" "list_all is_digit (dec_digits n)" "dec_digits n \<noteq> []"
proof (induction n rule: dec_digits.induct)
  case (1 n)
  {
    case 1
    show ?case
      using "1.IH"(1) by (subst dec_digits.simps) (auto simp: decimal_snoc digit_val_def decimal_def)
  next
    case 2
    show ?case
      using "1.IH"(2) by (subst dec_digits.simps) (auto simp: is_digit_char)
  next
    case 3
    show ?case
      by (subst dec_digits.simps) simp
  }
qed

lemma ParseUint_Itoa: "n < 2 ^ bits \<Longrightarrow> ParseUint (Itoa n) bits = Some n"
  by (simp add: ParseUint_def Itoa_def dec_digits_props)

lemma leadingInt_digits:
  assumes "list_all is_digit ds" "foldl (\<lambda>n c. n * 10 + digit_val c) x ds \<le> 2 ^ 63"
    and "rest = [] \<or> \<not> is_digit (hd rest)"
  shows "leadingInt x (ds @ rest) = Some (foldl (\<lambda>n c. n * 10 + digit_val c) x ds, rest)"
  using assms(1,2)
proof (induction ds arbitrary: x)
  case Nil
  then show ?case
    using assms(3) by (cases rest) simp_all
next
  case (Cons d ds)
  let ?f = "\<lambda>n c. n * 10 + digit_val c"
  have mono: "x \<le> foldl ?f x es" for es x
  proof (induction es arbitrary: x)
    case (Cons e es)
    have "x \<le> ?f x e" by simp
    also have "\<dots> \<le> foldl ?f (?f x e) es" by (rule Cons.IH)
    finally show ?case by simp
  qed simp
  have "?f x d \<le> 2 ^ 63"
    using mono [of "?f x d" ds] Cons.prems(2) by simp
  with Cons show ?case
    by (simp add: Let_def)
qed

lemma ParseDuration_ns:
  assumes "0 < n" "n < 2 ^ 63"
  shows "ParseDuration frac (Itoa n @ ''ns'') = Some (int n)"
proof -
  note d = dec_digits_props [of n]
  have digits: "c \<noteq> CHR ''-'' \<and> c \<noteq> CHR ''+''" if "is_digit c" for c
    using that by (auto simp: is_digit_def)
  from d obtain c cs where c: "dec_digits n = c # cs" "is_digit c"
    by (cases "dec_digits n") auto
  have lead: "leadingInt 0 (dec_digits n @ ''ns'') = Some (n, ''ns'')"
    using leadingInt_digits [of "dec_digits n" 0 "''ns''"] d assms(2) by (simp add: decimal_def is_digit_def)
  have step: "duration_term frac (dec_digits n @ ''ns'') = Some (n, [])"
    using c lead assms by (simp add: duration_term.simps in_number_def is_digit_def HasPrefix_def unitMap_def Let_def)
  have "duration_loop frac (Suc (length (dec_digits n @ ''ns''))) 0 (dec_digits n @ ''ns'') = Some n"
    using step assms(2) by (simp add: Let_def)
  with digits [OF c(2)] assms(2) show ?thesis
    by (simp add: ParseDuration_def Itoa_def HasPrefix_def c(1))
qed

lemma hex_val_hex_char: "n < 16 \<Longrightarrow> hex_val (hex_char n) = Some n"
  by (auto simp: hex_val_def hex_char_def Let_def)

lemma DecodeString_EncodeToString: "DecodeString (EncodeToString bs) = Some bs"
proof (induction bs)
  case (Cons b bs)
  have b: "unat b < 256"
    using unsigned_less [of b, where ?'a = nat] by simp
  then have "hex_val (hex_char (unat b div 16)) = Some (unat b div 16)" "hex_val (hex_char (unat b mod 16)) = Some (unat b mod 16)"
    by (simp_all add: hex_val_hex_char less_mult_imp_div_less)
  moreover have "of_nat (16 * (unat b div 16) + unat b mod 16) = b"
    by simp
  ultimately show ?case
    using Cons by (simp add: EncodeToString_def)
qed (simp add: EncodeToString_def)

lemma length_EncodeToString: "length (EncodeToString bs) = 2 * length bs"
  by (induction bs) (simp_all add: EncodeToString_def)

subsection \<open>Text that survives the reader\<close>

definition graphic :: "char \<Rightarrow> bool" where
  "graphic c \<longleftrightarrow> 33 \<le> (of_char c :: nat) \<and> (of_char c :: nat) \<le> 126"

text \<open>No comment and no line break; and graphic ASCII at both ends.\<close>

definition plain :: "string \<Rightarrow> bool" where
  "plain s \<longleftrightarrow> CHR ''#'' \<notin> set s \<and> CHR 0x0A \<notin> set s"

definition solid :: "string \<Rightarrow> bool" where
  "solid s \<longleftrightarrow> s \<noteq> [] \<and> graphic (hd s) \<and> graphic (last s)"

lemma cut_rune_None: "cut_rune rs s = None \<longleftrightarrow> (\<forall>r \<in> set rs. r = [] \<or> \<not> HasPrefix s r)"
  by (induction rs) auto

lemma space_runes_ends: "list_all (\<lambda>r. r \<noteq> [] \<and> \<not> graphic (hd r) \<and> \<not> graphic (last r)) space_runes"
  by code_simp

lemma trim_front_graphic:
  assumes "graphic c" "list_all (\<lambda>r. r \<noteq> [] \<and> \<not> graphic (hd r)) rs"
  shows "trim_front rs (c # s) = c # s"
proof -
  have "cut_rune rs (c # s) = None"
    unfolding cut_rune_None
  proof
    fix r
    assume "r \<in> set rs"
    with assms(2) have "r \<noteq> []" "\<not> graphic (hd r)"
      by (auto simp: list_all_iff)
    with assms(1) show "r = [] \<or> \<not> HasPrefix (c # s) r"
      by (cases r) (auto simp: HasPrefix_def)
  qed
  then show ?thesis
    by (subst trim_front.simps) simp
qed

lemma trim_front_solid:
  assumes "solid s"
  shows "trim_front space_runes s = s" "trim_front (map rev space_runes) (rev s) = rev s"
proof -
  have runes: "list_all (\<lambda>r. r \<noteq> [] \<and> \<not> graphic (hd r)) space_runes"
      "list_all (\<lambda>r. r \<noteq> [] \<and> \<not> graphic (hd r)) (map rev space_runes)"
    using space_runes_ends by (auto simp: list_all_iff hd_rev)
  show "trim_front space_runes s = s"
    using trim_front_graphic [OF _ runes(1), of "hd s" "tl s"] assms by (simp add: solid_def)
  show "trim_front (map rev space_runes) (rev s) = rev s"
    using trim_front_graphic [OF _ runes(2), of "last s" "rev (butlast s)"] assms
    by (cases s rule: rev_cases) (simp_all add: solid_def)
qed

lemma cut_blank: "cut_rune space_runes (CHR 0x20 # s) = Some s" "cut_rune (map rev space_runes) (CHR 0x20 # s) = Some s"
  by (simp_all add: space_runes_def HasPrefix_def)

lemma TrimSpace_solid [simp]: "solid s \<Longrightarrow> TrimSpace s = s"
  by (simp add: TrimSpace_def trim_front_solid)

lemma TrimSpace_blank_front: "solid s \<Longrightarrow> TrimSpace (CHR 0x20 # s) = s"
  by (simp add: TrimSpace_def trim_front.simps [of _ "CHR 0x20 # s"] cut_blank trim_front_solid)

lemma TrimSpace_blank_end:
  assumes "solid s"
  shows "TrimSpace (s @ [CHR 0x20]) = s"
proof -
  have "trim_front space_runes (s @ [CHR 0x20]) = s @ [CHR 0x20]"
    using trim_front_graphic [of "hd s" space_runes "tl s @ [CHR 0x20]"] assms space_runes_ends
    by (cases s) (auto simp: solid_def list_all_iff)
  then show ?thesis
    using assms by (simp add: TrimSpace_def trim_front.simps [of _ "CHR 0x20 # rev s"] cut_blank trim_front_solid)
qed

lemma IndexByte_append: "c \<notin> set s \<Longrightarrow> IndexByte (s @ c # t) c = Some (length s)"
proof -
  assume "c \<notin> set s"
  then have "takeWhile (\<lambda>d. d \<noteq> c) (s @ c # t) = s"
    by (induction s) auto
  then show ?thesis
    by (simp add: IndexByte_def)
qed

lemma IndexByte_None: "IndexByte s c = None \<longleftrightarrow> c \<notin> set s"
proof (induction s)
  case (Cons d s)
  then show ?case
    by (auto simp: IndexByte_def Let_def split: if_splits)
qed (simp add: IndexByte_def)

lemma uncomment_plain: "plain s \<Longrightarrow> uncomment s = s"
  by (simp add: uncomment_def plain_def IndexByte_None [THEN iffD2])

lemma Cut_append: "c \<notin> set s \<Longrightarrow> Cut (s @ c # t) c = (s, t, True)"
  by (simp add: Cut_def IndexByte_append)

definition unlines :: "string list \<Rightarrow> string" where
  "unlines ls = concat (map (\<lambda>l. l @ [CHR 0x0A]) ls)"

lemma Split_at_line: "c \<notin> set l \<Longrightarrow> Split_at (l @ c # s) c = l # Split_at s c"
  by (induction l) auto

lemma Split_at_unlines:
  "list_all plain ls \<Longrightarrow> Split_at (unlines ls) (CHR 0x0A) = ls @ [[]]"
proof (induction ls)
  case (Cons l ls)
  then show ?case
    by (simp add: unlines_def plain_def Split_at_line)
qed (simp add: unlines_def)

subsection \<open>Lines\<close>

definition word_key :: "string \<Rightarrow> bool" where
  "word_key k \<longleftrightarrow> k \<noteq> [] \<and> isWord k"

lemma isWord_chars:
  assumes "isWord k" "c \<in> set k"
  shows "graphic c" "c \<noteq> CHR ''#''" "c \<noteq> CHR 0x0A" "c \<noteq> CHR ''=''" "c \<noteq> CHR ''[''"
  using assms by (auto simp: isWord_def list_all_iff graphic_def Let_def)

lemma word_key_solid: "word_key k \<Longrightarrow> solid k"
  using isWord_chars(1) [of k] by (simp add: word_key_def solid_def)

definition setting_line :: "string \<times> string \<Rightarrow> string" where
  "setting_line kv = fst kv @ '' = '' @ snd kv"

lemma setting_line_plain: "word_key k \<Longrightarrow> plain v \<Longrightarrow> plain (setting_line (k, v))"
  using isWord_chars(2,3) [of k] by (auto simp: plain_def setting_line_def word_key_def)

lemma setting_setting_line:
  assumes "word_key k" "solid v"
  shows "setting (setting_line (k, v)) line file = Inr (k, v)"
proof -
  have "CHR ''='' \<notin> set (k @ '' '')"
    using isWord_chars(4) [of k] assms(1) by (auto simp: word_key_def)
  from Cut_append [OF this, of "'' '' @ v"]
  have "Cut (setting_line (k, v)) (CHR ''='') = (k @ '' '', '' '' @ v, True)"
    by (simp add: setting_line_def)
  then show ?thesis
    using assms word_key_solid [OF assms(1)] TrimSpace_blank_end [of k] TrimSpace_blank_front [of v]
    by (simp add: setting_def Let_def word_key_def solid_def)
qed

lemma split_line_setting:
  assumes "word_key k" "solid v" "plain v" "ss \<noteq> []" "sec_keys (last ss) k = None"
  shows "split_line file line (setting_line (k, v)) ss = Inr (butlast ss @ [set_key k v line (last ss)])"
proof -
  have "solid (setting_line (k, v))"
    using word_key_solid [OF assms(1)] assms(1,2) by (auto simp: solid_def setting_line_def word_key_def)
  then have trimmed: "TrimSpace (uncomment (setting_line (k, v))) = setting_line (k, v)" "setting_line (k, v) \<noteq> []"
    using setting_line_plain [OF assms(1,3)] by (simp_all add: uncomment_plain solid_def)
  moreover have "\<not> HasPrefix (setting_line (k, v)) ''[''"
    using isWord_chars(5) [of k "hd k"] assms(1) by (cases k) (auto simp: HasPrefix_def setting_line_def word_key_def)
  ultimately show ?thesis
    using setting_setting_line [OF assms(1,2)] assms(4,5) by (simp add: split_line_def)
qed

definition header_line :: "string \<Rightarrow> string \<Rightarrow> string" where
  "header_line kind name =
     ''['' @ kind @ (if name = [] then [] else [CHR 0x20, CHR 0x22] @ name @ [CHR 0x22]) @ '']''"

definition header_ok :: "string \<Rightarrow> string \<Rightarrow> bool" where
  "header_ok kind name \<longleftrightarrow> plain name \<and> CHR 0x22 \<notin> set name \<and>
     (kind = ''peer'' \<and> name = [] \<or> kind \<in> {''consume'', ''provide''} \<and> name \<noteq> [])"

definition new_section :: "string \<Rightarrow> string \<Rightarrow> nat \<Rightarrow> conf_section" where
  "new_section kind name line = \<lparr>sec_kind = kind, sec_name = name, sec_line = line, sec_keys = Map.empty, sec_order = []\<rparr>"

lemma kind_chars: "kind \<in> {''peer'', ''consume'', ''provide''} \<Longrightarrow>
    word_key kind \<and> CHR 0x20 \<notin> set kind \<and> CHR 0x09 \<notin> set kind"
  by (auto simp: word_key_def isWord_def)

lemma header_ok_kind: "header_ok kind name \<Longrightarrow> kind \<in> {''peer'', ''consume'', ''provide''}"
  by (auto simp: header_ok_def)

lemma IndexAny_append:
  assumes "set s \<inter> set cs = {}" "c \<in> set cs"
  shows "IndexAny (s @ c # t) cs = Some (length s)"
proof -
  have "takeWhile (\<lambda>d. d \<notin> set cs) (s @ c # t) = s"
    using assms by (induction s) auto
  then show ?thesis
    by (simp add: IndexAny_def)
qed

lemma header_parts_line:
  assumes "header_ok kind name"
  shows "header_parts (kind @ (if name = [] then [] else [CHR 0x20, CHR 0x22] @ name @ [CHR 0x22])) = Inr (kind, name)"
proof (cases "name = []")
  case True
  then have "IndexAny kind [CHR '' '', CHR 0x09] = None"
    using assms by (simp add: header_ok_def IndexAny_def)
  with True show ?thesis
    by (simp add: header_parts_def)
next
  case False
  let ?q = "[CHR 0x22] @ name @ [CHR 0x22]"
  have "set kind \<inter> set [CHR '' '', CHR 0x09] = {}"
    using kind_chars [OF header_ok_kind [OF assms]] by auto
  then have i: "IndexAny (kind @ CHR 0x20 # ?q) [CHR '' '', CHR 0x09] = Some (length kind)"
    by (rule IndexAny_append) simp
  have "solid ?q"
    by (simp add: solid_def graphic_def)
  then have "TrimSpace (drop (length kind) (kind @ CHR 0x20 # ?q)) = ?q"
    using TrimSpace_blank_front [of ?q] by simp
  with i False assms show ?thesis
    by (simp add: header_parts_def Let_def HasPrefix_def HasSuffix_def header_ok_def)
qed

lemma split_line_header:
  assumes "header_ok kind name"
  shows "split_line file line (header_line kind name) ss = Inr (ss @ [new_section kind name line])"
    and "plain (header_line kind name)"
proof -
  let ?inner = "kind @ (if name = [] then [] else [CHR 0x20, CHR 0x22] @ name @ [CHR 0x22])"
  have k: "word_key kind"
    using kind_chars [OF header_ok_kind [OF assms]] by simp
  note ks = word_key_solid [OF k, unfolded solid_def]
  show plain: "plain (header_line kind name)"
    using assms k isWord_chars(2,3) [of kind] by (auto simp: plain_def header_line_def header_ok_def word_key_def)
  have trimmed: "TrimSpace (header_line kind name) = header_line kind name"
    by (rule TrimSpace_solid) (simp add: solid_def header_line_def graphic_def)
  have "solid ?inner"
    using ks by (auto simp: solid_def graphic_def)
  then have "TrimSpace ?inner = ?inner"
    by (rule TrimSpace_solid)
  moreover have "take (length (header_line kind name) - 2) (drop 1 (header_line kind name)) = ?inner"
    by (simp add: header_line_def)
  ultimately have parts: "header_parts (TrimSpace (take (length (header_line kind name) - 2) (drop 1 (header_line kind name)))) = Inr (kind, name)"
    using header_parts_line [OF assms] by metis
  have "HasSuffix (header_line kind name) '']''" "HasPrefix (header_line kind name) ''[''" "header_line kind name \<noteq> []"
    by (simp_all add: HasSuffix_def HasPrefix_def header_line_def)
  with parts trimmed assms show "split_line file line (header_line kind name) ss = Inr (ss @ [new_section kind name line])"
    by (auto simp: split_line_def uncomment_plain [OF plain] conf_header_def sectionKinds_def header_ok_def new_section_def)
qed

subsection \<open>Sections\<close>

type_synonym written = "string \<times> string \<times> (string \<times> string) list"

fun section_lines :: "written \<Rightarrow> string list" where
  "section_lines (kind, name, kvs) = header_line kind name # map setting_line kvs"

fun written_ok :: "written \<Rightarrow> bool" where
  "written_ok (kind, name, kvs) \<longleftrightarrow> header_ok kind name \<and> distinct (map fst kvs) \<and>
     list_all (\<lambda>(k, v). word_key k \<and> solid v \<and> plain v) kvs"

fun set_keys :: "(string \<times> string) list \<Rightarrow> nat \<Rightarrow> conf_section \<Rightarrow> conf_section" where
  "set_keys [] line s = s"
| "set_keys ((k, v) # kvs) line s = set_keys kvs (Suc line) (set_key k v line s)"

fun sections_at :: "nat \<Rightarrow> written list \<Rightarrow> conf_section list" where
  "sections_at i [] = []"
| "sections_at i ((kind, name, kvs) # ws) =
     set_keys kvs (i + 2) (new_section kind name (i + 1)) # sections_at (i + 1 + length kvs) ws"

lemma split_lines_append:
  "split_lines file i (xs @ ys) ss = andThen (split_lines file i xs ss) (split_lines file (i + length xs) ys)"
proof (induction xs arbitrary: i ss)
  case (Cons x xs)
  then show ?case
    by (cases "split_line file (i + 1) x ss") simp_all
qed simp

lemma split_lines_settings:
  assumes "list_all (\<lambda>(k, v). word_key k \<and> solid v \<and> plain v) kvs" "distinct (map fst kvs)"
    and "\<forall>k \<in> set (map fst kvs). sec_keys s k = None"
  shows "split_lines file i (map setting_line kvs) (ss @ [s]) = Inr (ss @ [set_keys kvs (Suc i) s])"
  using assms
proof (induction kvs arbitrary: i s)
  case (Cons kv kvs)
  obtain k v where kv: "kv = (k, v)" by fastforce
  have "split_line file (Suc i) (setting_line (k, v)) (ss @ [s]) = Inr (ss @ [set_key k v (Suc i) s])"
    using Cons.prems by (simp add: kv split_line_setting)
  moreover have "\<forall>k \<in> set (map fst kvs). sec_keys (set_key k' v (Suc i) s) k = None" if "k' = k" for k'
    using Cons.prems that by (auto simp: kv set_key_def)
  ultimately show ?case
    using Cons.IH [of "set_key k v (Suc i) s" "Suc i"] Cons.prems by (simp add: kv)
qed simp

lemma split_lines_sections:
  "list_all written_ok ws \<Longrightarrow> split_lines file i (concat (map section_lines ws)) ss = Inr (ss @ sections_at i ws)"
proof (induction ws arbitrary: i ss)
  case (Cons w ws)
  obtain kind name kvs where w: "w = (kind, name, kvs)" by (cases w)
  have "split_lines file (Suc i) (map setting_line kvs) (ss @ [new_section kind name (Suc i)]) =
      Inr (ss @ [set_keys kvs (Suc (Suc i)) (new_section kind name (Suc i))])"
    by (rule split_lines_settings) (use Cons.prems in \<open>auto simp: w new_section_def\<close>)
  then show ?case
    using Cons split_line_header(1) [of kind name] by (simp add: w split_lines_append)
qed simp

lemma section_lines_plain: "list_all written_ok ws \<Longrightarrow> list_all plain (concat (map section_lines ws))"
proof (induction ws)
  case (Cons w ws)
  obtain kind name kvs where w: "w = (kind, name, kvs)" by (cases w)
  have "list_all plain (map setting_line kvs)"
    using Cons.prems setting_line_plain by (auto simp: w list_all_iff)
  with Cons split_line_header(2) [of kind name] show ?case
    by (simp add: w)
qed simp

text \<open>The grammar's round trip: what is written is read back, each section with its lines.\<close>

lemma conf_split_unlines:
  assumes "list_all written_ok ws"
  shows "conf_split (unlines (concat (map section_lines ws))) file = Inr (sections_at 0 ws)"
proof -
  have "trim_front rs [] = []" for rs
    by (subst trim_front.simps) (auto dest: cut_rune_shorter split: option.split)
  then have "split_line file l [] ss = Inr ss" for l ss
    by (simp add: split_line_def uncomment_def IndexByte_def TrimSpace_def)
  then show ?thesis
    using split_lines_sections [OF assms] Split_at_unlines [OF section_lines_plain [OF assms]]
    by (simp add: conf_split_def split_lines_append)
qed

end
