(* ===== verification/Conf_Theorems.thy ===== *)
theory Conf_Theorems
  imports Conf_Print
begin

text \<open>The properties of the conf reader (\<^verbatim>\<open>internal/conf\<close>).\<close>

subsection \<open>What is accepted, and what a refusal says\<close>

text \<open>
  C25. A conf is taken whole or not at all, and what is taken is well formed: every address splits
  into host and a port from 1 to 65535 (with a host where it is dialled), every name fits the wire
  (1 to 255 bytes of UTF-8), the secret is absent or 32 bytes, the queue timeout is a positive
  duration, no service is consumed or provided twice, every provider has at least one slot; and a conf with a
  role has what the role needs and nothing that belongs to the other role.
\<close>

theorem parse_well_formed:
  assumes "Parse frac host data file = Inr c"
  shows "conf_ok c"
proof -
  from assms obtain contents where "data = Inr contents"
      "andThen (conf_split contents file) (\<lambda>sections. build frac host sections file) = Inr c"
    by (auto simp: Parse_def split: sum.splits)
  then show ?thesis
    using outcome_Inr [OF conf_outcome [of "file" contents frac host]] by simp
qed

text \<open>
  C38. A refusal names the file it was given and a line that the file has, from 1 to the number of lines.
\<close>

theorem refusal_names_a_line:
  assumes "Parse frac host (Inr contents) file = Inl e"
  shows "\<exists>r. e = Refused r \<and> ce_File r = file \<and> 1 \<le> ce_Line r \<and> ce_Line r \<le> length (Split_at contents (CHR 0x0A))"
  using assms conf_outcome [of "file" contents frac host] by (auto simp: Parse_def on_line_def split: sum.splits)

theorem refusal_names_a_line_witness:
  "\<exists>r. Parse (\<lambda>_ _ _. 0) None (Inr ''x'') ''f'' = Inl (Refused r) \<and> ce_Line r = 1"
proof -
  have "Parse (\<lambda>_ _ _. 0) None (Inr ''x'') ''f'' = Inl (Refused \<lparr>ce_File = ''f'', ce_Line = 1, ce_Msg = NotASetting\<rparr>)"
    by code_simp
  with refusal_names_a_line [OF this] show ?thesis
    by auto
qed

subsection \<open>Writing a conf\<close>

fun role_text :: "conf_role \<Rightarrow> string" where
  "role_text ConfServer = ''server''"
| "role_text _ = ''client''"

definition duration_text :: "int \<Rightarrow> string" where
  "duration_text d = Itoa (nat d) @ ''ns''"

definition peer_settings :: "Conf \<Rightarrow> (string \<times> string) list" where
  "peer_settings c =
     [(''role'', role_text (cf_Role c)), (''secret'', EncodeToString (cf_Secret c)), (''name'', cf_Name c)] @
     (if cf_Role c = ConfServer
      then [(''listen'', cf_Listen c), (''queue_timeout'', duration_text (cf_QueueTimeout c))]
      else [(''server'', cf_Server c)])"

definition consume_written :: "Consume \<Rightarrow> written" where
  "consume_written x = (''consume'', co_Service x, [(''listen'', co_Listen x)])"

definition provide_written :: "Provide \<Rightarrow> written" where
  "provide_written x = (''provide'', pv_Service x,
     [(''upstream'', pv_Upstream x), (''max_concurrent'', Itoa (unat (pv_MaxConcurrent x))),
      (''priority'', Itoa (unat (pv_Priority x)))])"

definition conf_written :: "Conf \<Rightarrow> written list" where
  "conf_written c = (''peer'', [], peer_settings c) # map consume_written (cf_Consume c) @ map provide_written (cf_Provide c)"

definition print_conf :: "Conf \<Rightarrow> string" where
  "print_conf c = unlines (concat (map section_lines (conf_written c)))"

text \<open>The strings of a conf that the grammar can carry.\<close>

definition carried :: "string \<Rightarrow> bool" where
  "carried s \<longleftrightarrow> solid s \<and> plain s"

definition quotable :: "string \<Rightarrow> bool" where
  "quotable s \<longleftrightarrow> plain s \<and> CHR 0x22 \<notin> set s"

definition writable :: "Conf \<Rightarrow> bool" where
  "writable c \<longleftrightarrow> cf_Role c \<noteq> ConfNone \<and> carried (cf_Name c) \<and> (cf_Role c = ConfServer \<longrightarrow> carried (cf_Listen c)) \<and>
     (cf_Role c = ConfClient \<longrightarrow> carried (cf_Server c)) \<and>
     list_all (\<lambda>x. quotable (co_Service x) \<and> carried (co_Listen x)) (cf_Consume c) \<and>
     list_all (\<lambda>x. quotable (pv_Service x) \<and> carried (pv_Upstream x)) (cf_Provide c)"

subsection \<open>What is written is readable\<close>

lemma isWord_carried: "word_key s \<Longrightarrow> carried s"
  using word_key_solid [of s] isWord_chars(2,3) [of s] by (auto simp: carried_def plain_def word_key_def)

lemma carried_Itoa: "carried (Itoa n)" "carried (Itoa n @ ''ns'')"
proof -
  have "list_all is_digit (Itoa n)" "Itoa n \<noteq> []"
    using dec_digits_props [of n] by (simp_all add: Itoa_def)
  then have "word_key (Itoa n)" "word_key (Itoa n @ ''ns'')"
    by (auto simp: word_key_def isWord_def is_digit_def list_all_iff Let_def)
  then show "carried (Itoa n)" "carried (Itoa n @ ''ns'')"
    by (simp_all add: isWord_carried)
qed

lemma carried_EncodeToString: "bs \<noteq> [] \<Longrightarrow> carried (EncodeToString bs)"
proof -
  assume bs: "bs \<noteq> []"
  have word: "isWord [hex_char n]" if "n < 16" for n
    using that by (auto simp: isWord_def hex_char_def Let_def)
  have "unat b div 16 < 16" for b :: byte
    using unsigned_less [of b, where ?'a = nat] by (simp add: less_mult_imp_div_less)
  then have "isWord (EncodeToString bs)"
    using word by (auto simp: EncodeToString_def isWord_def list_all_iff)
  with bs show ?thesis
    by (intro isWord_carried) (cases bs, simp_all add: word_key_def EncodeToString_def)
qed

lemma conf_written_ok:
  assumes "conf_ok c" "writable c"
  shows "list_all written_ok (conf_written c)"
proof -
  have keys: "word_key ''role''" "word_key ''secret''" "word_key ''name''" "word_key ''listen''" "word_key ''queue_timeout''"
      "word_key ''server''" "word_key ''upstream''" "word_key ''max_concurrent''" "word_key ''priority''"
    by (simp_all add: word_key_def isWord_def)
  have "carried (role_text r)" for r
    by (cases r) (simp_all add: isWord_carried word_key_def isWord_def)
  moreover have "carried (EncodeToString (cf_Secret c))"
    using assms by (intro carried_EncodeToString) (auto simp: conf_ok_def role_ok_def writable_def split: conf_role.splits)
  moreover have "header_ok ''peer'' []"
    by (simp add: header_ok_def plain_def)
  ultimately have peer: "written_ok (''peer'', [], peer_settings c)"
    using keys assms(2) carried_Itoa(2) unfolding writable_def carried_def
    by (cases "cf_Role c") (simp_all add: peer_settings_def duration_text_def del: role_text.simps)
  have "list_all written_ok (map consume_written (cf_Consume c))" "list_all written_ok (map provide_written (cf_Provide c))"
    using keys assms carried_Itoa
    by (auto simp: list_all_iff conf_ok_def values_ok_def writable_def consume_written_def provide_written_def
        consume_ok_def provide_ok_def valid_name_def carried_def quotable_def header_ok_def)
  with peer show ?thesis
    by (simp add: conf_written_def)
qed

subsection \<open>What is read is what was written\<close>

lemma address_ok: "valid_address needHost s \<Longrightarrow> address \<lparr>v_text = s, v_line = l\<rparr> file what needHost = Inr s"
  by (auto simp: address_def valid_address_def split: option.splits)

lemma number_ok: "low \<le> unat n \<Longrightarrow> number \<lparr>v_text = Itoa (unat n), v_line = l\<rparr> file what low = Inr n"
  using unsigned_less [of n, where ?'a = nat] by (simp add: number_def ParseUint_Itoa)

lemma conf_name_ok: "valid_name s \<Longrightarrow> conf_name s l file what = Inr ()"
  by (simp add: conf_name_def valid_name_def)

lemma consume_sections:
  assumes "list_all consume_ok xs" "distinct (map co_Service xs)" "dom (bs_consumed b) \<inter> co_Service ` set xs = {}"
  shows "\<exists>m. build_sections frac file (sections_at i (map consume_written xs) @ rest) b =
    build_sections frac file rest (b\<lparr>bs_conf := (bs_conf b)\<lparr>cf_Consume := cf_Consume (bs_conf b) @ xs\<rparr>, bs_consumed := m\<rparr>)"
  using assms
proof (induction xs arbitrary: b i)
  case Nil
  show ?case
    by (rule exI [of _ "bs_consumed b"]) simp
next
  case (Cons x xs)
  let ?s = "set_key ''listen'' (co_Listen x) (i + 2) (new_section ''consume'' (co_Service x) (i + 1))"
  let ?b = "b\<lparr>bs_conf := (bs_conf b)\<lparr>cf_Consume := cf_Consume (bs_conf b) @ [x]\<rparr>,
     bs_consumed := (bs_consumed b)(co_Service x \<mapsto> i + 1)\<rparr>"
  have x: "valid_name (co_Service x)" "valid_address False (co_Listen x)" "bs_consumed b (co_Service x) = None"
    using Cons.prems by (auto simp: consume_ok_def dom_def)
  have "build_section frac file ?s b = Inr ?b"
    using x address_ok [OF x(2)]
    by (simp add: build_section_def conf_consume_def known_def set_key_def new_section_def service_name_def conf_name_ok)
  moreover have "dom (bs_consumed ?b) \<inter> co_Service ` set xs = {}"
    using Cons.prems by auto
  note Cons.IH [OF _ _ this, of "i + 2"]
  ultimately show ?case
    using Cons.prems by (simp add: consume_written_def)
qed

lemma provide_sections:
  assumes "list_all provide_ok xs" "distinct (map pv_Service xs)" "dom (bs_provided b) \<inter> pv_Service ` set xs = {}"
  shows "\<exists>m. build_sections frac file (sections_at i (map provide_written xs) @ rest) b =
    build_sections frac file rest (b\<lparr>bs_conf := (bs_conf b)\<lparr>cf_Provide := cf_Provide (bs_conf b) @ xs\<rparr>, bs_provided := m\<rparr>)"
  using assms
proof (induction xs arbitrary: b i)
  case Nil
  show ?case
    by (rule exI [of _ "bs_provided b"]) simp
next
  case (Cons x xs)
  let ?s = "set_keys (snd (snd (provide_written x))) (i + 2) (new_section ''provide'' (pv_Service x) (i + 1))"
  let ?b = "b\<lparr>bs_conf := (bs_conf b)\<lparr>cf_Provide := cf_Provide (bs_conf b) @ [x]\<rparr>,
     bs_provided := (bs_provided b)(pv_Service x \<mapsto> i + 1)\<rparr>"
  have x: "valid_name (pv_Service x)" "valid_address True (pv_Upstream x)" "1 \<le> unat (pv_MaxConcurrent x)"
      "bs_provided b (pv_Service x) = None"
    using Cons.prems by (auto simp: provide_ok_def dom_def)
  have "build_section frac file ?s b = Inr ?b"
    using x(1,4) address_ok [OF x(2)] number_ok [OF x(3)] number_ok [OF le0, of "pv_Priority x"]
    by (simp add: build_section_def conf_provide_def known_def set_key_def new_section_def service_name_def conf_name_ok
        provide_written_def number_key_def)
  moreover have "dom (bs_provided ?b) \<inter> pv_Service ` set xs = {}"
    using Cons.prems by auto
  note Cons.IH [OF _ _ this, of "i + 4"]
  ultimately show ?case
    using Cons.prems by (simp add: provide_written_def numeral_eq_Suc)
qed

lemma sections_at_append:
  "sections_at i (xs @ ys) = sections_at i xs @ sections_at (i + length (concat (map section_lines xs))) ys"
proof (induction xs arbitrary: i)
  case (Cons x xs)
  then show ?case
    by (cases x) (simp add: ac_simps)
qed simp

lemma peer_section:
  assumes "conf_ok c" "writable c"
  shows "conf_peer frac (set_keys (peer_settings c) 2 (new_section ''peer'' [] 1)) file (new_conf host) =
    Inr (c\<lparr>cf_Consume := [], cf_Provide := []\<rparr>)"
proof -
  have v: "valid_name (cf_Name c)" "length (cf_Secret c) = SecretSize"
    using assms by (auto simp: conf_ok_def values_ok_def role_ok_def writable_def split: conf_role.splits)
  have secret: "conf_secret \<lparr>v_text = EncodeToString (cf_Secret c), v_line = l\<rparr> file = Inr (cf_Secret c)" for l
    using v(2) by (simp add: conf_secret_def length_EncodeToString DecodeString_EncodeToString)
  note named = conf_name_ok [OF v(1)]
  show ?thesis
  proof (cases "cf_Role c")
    case ConfServer
    with assms have "valid_address False (cf_Listen c)" "0 < cf_QueueTimeout c" "cf_QueueTimeout c < 2 ^ 63" "cf_Server c = []"
      by (auto simp: conf_ok_def values_ok_def role_ok_def)
    moreover from this(2,3) have "duration frac \<lparr>v_text = duration_text (cf_QueueTimeout c), v_line = l\<rparr> file = Inr (cf_QueueTimeout c)" for l
      using ParseDuration_ns [of "nat (cf_QueueTimeout c)" frac] by (simp add: duration_def duration_text_def)
    ultimately show ?thesis
      using ConfServer address_ok [of False "cf_Listen c"]
      by (simp add: conf_peer_def known_def peer_settings_def set_key_def new_section_def key_of_def peer_key_def
          conf_role_of_def conf_text_def named secret new_conf_def)
  next
    case ConfClient
    with assms have "valid_address True (cf_Server c)" "cf_Listen c = DefaultListen" "cf_QueueTimeout c = DefaultQueueTimeout"
      by (auto simp: conf_ok_def values_ok_def role_ok_def)
    then show ?thesis
      using ConfClient address_ok [of True "cf_Server c"]
      by (simp add: conf_peer_def known_def peer_settings_def set_key_def new_section_def key_of_def peer_key_def
          conf_role_of_def conf_text_def named secret new_conf_def)
  qed (use assms in \<open>simp add: writable_def\<close>)
qed

text \<open>
  Every configuration can be written down: for a well-formed conf with a role, whose names and
  addresses hold no line break, no comment sign and (in a section header) no double quote, and
  start and end in a visible character, the text \<open>C24. print_conf\<close> writes is read back as exactly that conf, on any
  machine.
\<close>

theorem parse_print:
  assumes "conf_ok c" "writable c"
  shows "Parse frac host (Inr (print_conf c)) file = Inr c"
proof -
  let ?peer = "set_keys (peer_settings c) 2 (new_section ''peer'' [] 1)"
  let ?b = "\<lparr>bs_conf = c\<lparr>cf_Consume := [], cf_Provide := []\<rparr>, bs_peer = Some ?peer, bs_consumed = Map.empty, bs_provided = Map.empty\<rparr>"
  have kind: "sec_kind (set_keys kvs l s) = sec_kind s" for kvs l s
    by (induction kvs l s rule: set_keys.induct) (simp_all add: set_key_def)
  have "conf_peer frac ?peer file (new_conf host) = Inr (c\<lparr>cf_Consume := [], cf_Provide := []\<rparr>)"
    by (rule peer_section [OF assms])
  moreover have "sec_kind ?peer = ''peer''"
    by (simp add: kind) (simp add: new_section_def)
  ultimately have start: "build_section frac file ?peer
      \<lparr>bs_conf = new_conf host, bs_peer = None, bs_consumed = Map.empty, bs_provided = Map.empty\<rparr> = Inr ?b"
    by (simp add: build_section_def)
  have ok: "list_all consume_ok (cf_Consume c)" "distinct (map co_Service (cf_Consume c))"
      "list_all provide_ok (cf_Provide c)" "distinct (map pv_Service (cf_Provide c))"
    using assms(1) by (simp_all add: conf_ok_def values_ok_def)
  let ?i = "1 + length (peer_settings c)"
  let ?j = "?i + length (concat (map section_lines (map consume_written (cf_Consume c))))"
  let ?provides = "sections_at ?j (map provide_written (cf_Provide c)) @ []"
  from consume_sections [OF ok(1,2), of ?b frac "file" ?i ?provides] obtain m where
    m: "build_sections frac file (sections_at ?i (map consume_written (cf_Consume c)) @ ?provides) ?b =
      build_sections frac file ?provides (?b\<lparr>bs_conf := c\<lparr>cf_Provide := []\<rparr>, bs_consumed := m\<rparr>)"
    by auto
  from provide_sections [OF ok(3,4), of "?b\<lparr>bs_conf := c\<lparr>cf_Provide := []\<rparr>, bs_consumed := m\<rparr>" frac "file" ?j "[]"]
  obtain m' where m': "build_sections frac file ?provides (?b\<lparr>bs_conf := c\<lparr>cf_Provide := []\<rparr>, bs_consumed := m\<rparr>) =
      Inr (?b\<lparr>bs_conf := c, bs_consumed := m, bs_provided := m'\<rparr>)"
    by auto
  have role: "checkRole (Some ?peer) file c = Inr ()"
    using assms by (auto simp: checkRole_def conf_ok_def role_ok_def has_key_def peer_settings_def set_key_def new_section_def
        split: conf_role.splits)
  have "build frac host (sections_at 0 (conf_written c)) file = Inr c"
    using start m m' role by (simp add: build_def conf_written_def sections_at_append numeral_2_eq_2)
  then show ?thesis
    using conf_split_unlines [OF conf_written_ok [OF assms]] by (simp add: Parse_def print_conf_def)
qed

text \<open>A server's conf with one upstream.\<close>

definition some_conf :: Conf where
  "some_conf = \<lparr>cf_Role = ConfServer, cf_Listen = '':7420'', cf_Server = [], cf_Secret = replicate 32 7, cf_Name = ''mill'',
     cf_QueueTimeout = 30000000000, cf_Consume = [],
     cf_Provide = [\<lparr>pv_Service = ''llm'', pv_Upstream = ''localhost:80'', pv_MaxConcurrent = 4, pv_Priority = 10\<rparr>]\<rparr>"

lemma some_conf_ok: "conf_ok some_conf" "writable some_conf"
  by code_simp+

theorem parse_print_witness: "Parse (\<lambda>_ _ _. 0) None (Inr (print_conf some_conf)) ''f'' = Inr some_conf"
  by (rule parse_print [OF some_conf_ok])

theorem parse_well_formed_witness:
  "Parse (\<lambda>_ _ _. 0) None (Inr []) ''f'' = Inr (new_conf None) \<and> conf_ok (new_conf None)"
proof -
  have "Parse (\<lambda>_ _ _. 0) None (Inr []) ''f'' = Inr (new_conf None)"
    by code_simp
  with parse_well_formed [OF this] show ?thesis
    by simp
qed

end
