(* ===== verification/Daemon.thy ===== *)
theory Daemon
  imports Conf_Theorems Client Server_Run
begin

text \<open>
  \<^verbatim>\<open>cmd/httppooler/main.go\<close>: the command line, and what the daemon does with its conf and with
  signals. The state is the role at work, or \<^const>\<open>None\<close> while the daemon idles. A signal brings
  along what the world then answers: for a reload what the conf file holds, whether the process finds its
  own binary, whether the exec succeeds, and what the fresh process reads in turn; for a request
  for the state what the role's goroutines have made of it by then, and the names of its peers.
\<close>

subsection \<open>Roles\<close>

datatype runner = ServerRole srv | ClientRole client

datatype role_state = ServerState "string list \<times> service_state list"
  | ClientState "(string \<times> bool) \<times> Provide list \<times> Consume list"

fun runner_LogState :: "(nat \<Rightarrow> string) \<Rightarrow> runner \<Rightarrow> role_state" where
  "runner_LogState peer (ServerRole s) = ServerState (LogState peer (sr_server s))"
| "runner_LogState peer (ClientRole c) = ClientState (client_LogState c)"

record hup =
  hp_file :: "io_error + string"
  hp_self :: bool
  hp_exec :: bool
  hp_next :: "io_error + string"

datatype os_signal = SIGHUP hup | SIGUSR1 "runner \<Rightarrow> runner" "nat \<Rightarrow> string" | SIGINT | SIGTERM

datatype daemon_log = RefusedAtStart load_error | NoRole | Starting conf_role
  | KeepRunning load_error | NoSelf | Restarting | RestartFailed | IdleState | RoleState role_state | Stopping

definition daemon_start :: "(nat \<Rightarrow> nat \<Rightarrow> nat \<Rightarrow> nat) \<Rightarrow> string option \<Rightarrow> string \<Rightarrow> io_error + string \<Rightarrow> daemon_log \<times> runner option" where
  "daemon_start frac host path contents =
     (case Load frac host (\<lambda>_. contents) path of
        Inl e \<Rightarrow> (RefusedAtStart e, None)
      | Inr cfg \<Rightarrow>
          (case cf_Role cfg of
             ConfNone \<Rightarrow> (NoRole, None)
           | ConfServer \<Rightarrow> (Starting ConfServer, Some (ServerRole (new_srv cfg)))
           | ConfClient \<Rightarrow> (Starting ConfClient, Some (ClientRole (NewClient cfg)))))"

text \<open>\<open>reload\<close>; with \<open>syscall.Exec\<close> the process that goes on is a fresh one, which starts over.\<close>

definition reload :: "(nat \<Rightarrow> nat \<Rightarrow> nat \<Rightarrow> nat) \<Rightarrow> string option \<Rightarrow> string \<Rightarrow> hup \<Rightarrow> runner option \<Rightarrow> daemon_log list \<times> runner option" where
  "reload frac host path h role =
     (case Load frac host (\<lambda>_. hp_file h) path of
        Inl e \<Rightarrow> ([KeepRunning e], role)
      | Inr _ \<Rightarrow>
          if \<not> hp_self h then ([NoSelf], role)
          else if \<not> hp_exec h then ([Restarting, RestartFailed], role)
          else (case daemon_start frac host path (hp_next h) of (l, role') \<Rightarrow> ([Restarting, l], role')))"

text \<open>The loop of \<open>run\<close> over the signals that arrive: the log, the role, and whether the daemon stopped.\<close>

fun daemon_loop :: "(nat \<Rightarrow> nat \<Rightarrow> nat \<Rightarrow> nat) \<Rightarrow> string option \<Rightarrow> string \<Rightarrow> os_signal list \<Rightarrow> runner option \<Rightarrow>
    daemon_log list \<times> runner option \<times> bool" where
  "daemon_loop frac host path [] role = ([], role, False)"
| "daemon_loop frac host path (s # ss) role =
     (case s of
        SIGHUP h \<Rightarrow>
          (case reload frac host path h role of (l, role') \<Rightarrow> apfst ((@) l) (daemon_loop frac host path ss role'))
      | SIGUSR1 now peer \<Rightarrow>
          apfst ((#) (case role of None \<Rightarrow> IdleState | Some r \<Rightarrow> RoleState (runner_LogState peer (now r))))
            (daemon_loop frac host path ss role)
      | _ \<Rightarrow> ([Stopping], role, True))"

definition daemon_run :: "(nat \<Rightarrow> nat \<Rightarrow> nat \<Rightarrow> nat) \<Rightarrow> string option \<Rightarrow> string \<Rightarrow> io_error + string \<Rightarrow> os_signal list \<Rightarrow>
    daemon_log list \<times> runner option \<times> bool" where
  "daemon_run frac host path contents ss =
     (case daemon_start frac host path contents of (l, role) \<Rightarrow> apfst ((#) l) (daemon_loop frac host path ss role))"

subsection \<open>The command line\<close>

definition defaultConf :: string where "defaultConf = ''/etc/httppooler/httppooler.conf''"

text \<open>
  What \<open>run\<close> uses of Go's \<^verbatim>\<open>flag\<close>: one or two dashes, the value after an equals sign or, for \<open>-conf\<close>,
  in the next argument; \<open>--\<close> or the first argument that is not a flag ends them. A flag set made with
  \<open>ExitOnError\<close> exits with 0 after \<open>-h\<close> and with 2 after an error.
\<close>

datatype flags = Flags string bool | FlagsExit int

definition ParseBool :: "string \<Rightarrow> bool option" where
  "ParseBool s =
     (if s \<in> set [''1'', ''t'', ''T'', ''TRUE'', ''true'', ''True''] then Some True
      else if s \<in> set [''0'', ''f'', ''F'', ''FALSE'', ''false'', ''False''] then Some False
      else None)"

definition flag_split :: "string \<Rightarrow> string \<times> string option" where
  "flag_split name =
     (case dropWhile (\<lambda>c. c \<noteq> CHR ''='') name of
        [] \<Rightarrow> (name, None)
      | _ # v \<Rightarrow> (takeWhile (\<lambda>c. c \<noteq> CHR ''='') name, Some v))"

definition flag_name :: "string \<Rightarrow> string" where
  "flag_name s = (if s ! 1 = CHR ''-'' then drop 2 s else drop 1 s)"

fun parse_flags :: "string \<Rightarrow> bool \<Rightarrow> string list \<Rightarrow> flags" where
  "parse_flags path verbose [] = Flags path verbose"
| "parse_flags path verbose (s # args) =
     (if length s < 2 \<or> s ! 0 \<noteq> CHR ''-'' \<or> s = ''--'' then Flags path verbose
      else let name = flag_name s
           in if name = [] \<or> name ! 0 = CHR ''-'' \<or> name ! 0 = CHR ''='' then FlagsExit 2
              else case flag_split name of
                     (name, v) \<Rightarrow>
                       if name = ''v'' then
                         (case v of
                            None \<Rightarrow> parse_flags path True args
                          | Some v \<Rightarrow> (case ParseBool v of None \<Rightarrow> FlagsExit 2 | Some b \<Rightarrow> parse_flags path b args))
                       else if name = ''conf'' then
                         (case v of
                            Some v \<Rightarrow> parse_flags v verbose args
                          | None \<Rightarrow> (case args of [] \<Rightarrow> FlagsExit 2 | v # args \<Rightarrow> parse_flags v verbose args))
                       else if name = ''help'' \<or> name = ''h'' then FlagsExit 0
                       else FlagsExit 2)"

text \<open>\<open>genkey\<close> prints the bytes \<open>rand.Read\<close> gave as hex.\<close>

definition genkey :: "bytes \<Rightarrow> string" where
  "genkey key = EncodeToString key"

text \<open>
  \<open>main\<close>: what it prints, what the daemon logged, the role at work at the end, and the exit status, if
  the process has exited. \<open>key\<close> is what \<open>rand.Read\<close> gives and \<open>contents\<close> what the file of a conf holds.
\<close>

record process_end =
  oc_out :: "string list"
  oc_log :: "daemon_log list"
  oc_role :: "runner option"
  oc_exit :: "int option"

definition exits :: "int \<Rightarrow> process_end" where
  "exits code = \<lparr>oc_out = [], oc_log = [], oc_role = None, oc_exit = Some code\<rparr>"

definition main :: "(nat \<Rightarrow> nat \<Rightarrow> nat \<Rightarrow> nat) \<Rightarrow> string option \<Rightarrow> io_error + bytes \<Rightarrow> (string \<Rightarrow> io_error + string) \<Rightarrow> os_signal list \<Rightarrow>
    string list \<Rightarrow> process_end" where
  "main frac host key contents ss args =
     (case args of
        _ # cmd # args \<Rightarrow>
          if cmd = ''genkey'' then
            (case key of Inl _ \<Rightarrow> exits 1 | Inr k \<Rightarrow> (exits 0)\<lparr>oc_out := [genkey k]\<rparr>)
          else if cmd = ''run'' then
            (case parse_flags defaultConf False args of
               FlagsExit code \<Rightarrow> exits code
             | Flags path verbose \<Rightarrow>
                 (case daemon_run frac host path (contents path) ss of
                    (l, role, stopped) \<Rightarrow> \<lparr>oc_out = [], oc_log = l, oc_role = role, oc_exit = if stopped then Some 0 else None\<rparr>))
          else exits 2
      | _ \<Rightarrow> exits 2)"

declare parse_flags.simps [simp del]

subsection \<open>Properties\<close>

fun role_ok_at_work :: "runner \<Rightarrow> bool" where
  "role_ok_at_work (ServerRole s) \<longleftrightarrow> conf_ok (sr_cfg s) \<and> cf_Role (sr_cfg s) = ConfServer"
| "role_ok_at_work (ClientRole c) \<longleftrightarrow> conf_ok (cl_cfg c) \<and> cf_Role (cl_cfg c) = ConfClient"

definition role_at_work :: "runner option \<Rightarrow> bool" where
  "role_at_work role \<longleftrightarrow> (case role of None \<Rightarrow> True | Some r \<Rightarrow> role_ok_at_work r)"

definition stops :: "os_signal \<Rightarrow> bool" where
  "stops s \<longleftrightarrow> s = SIGINT \<or> s = SIGTERM"

lemma Load_conf_ok: "Load frac host rf path = Inr c \<Longrightarrow> conf_ok c"
  using outcome_Inr [OF conf_outcome] by (fastforce simp: Load_def Parse_def split: sum.splits)

lemma daemon_start_at_work: "daemon_start frac host path contents = (l, role) \<Longrightarrow> role_at_work role"
  by (auto simp: daemon_start_def role_at_work_def new_srv_def NewClient_def split: sum.splits conf_role.splits dest: Load_conf_ok)

lemma reload_at_work: "reload frac host path h role = (l, role') \<Longrightarrow> role_at_work role \<Longrightarrow> role_at_work role'"
  by (auto simp: reload_def split: sum.splits if_splits prod.splits dest: daemon_start_at_work)

lemma daemon_loop_end:
  "role_at_work role \<Longrightarrow> daemon_loop frac host path ss role = (l, role', stopped) \<Longrightarrow>
   role_at_work role' \<and> stopped = list_ex stops ss"
proof (induction ss arbitrary: role l)
  case (Cons s ss)
  show ?case
  proof (cases s)
    case (SIGHUP h)
    obtain l1 role1 where r: "reload frac host path h role = (l1, role1)" by fastforce
    obtain l2 where "daemon_loop frac host path ss role1 = (l2, role', stopped)"
      using Cons.prems(2) r by (cases "daemon_loop frac host path ss role1") (auto simp: SIGHUP)
    from Cons.IH [OF reload_at_work [OF r Cons.prems(1)] this] show ?thesis
      by (simp add: SIGHUP stops_def)
  next
    case (SIGUSR1 now peer)
    then show ?thesis
      using Cons.prems Cons.IH [OF Cons.prems(1)]
      by (cases "daemon_loop frac host path ss role") (auto simp: stops_def)
  qed (use Cons.prems in \<open>auto simp: stops_def\<close>)
qed (simp)

lemma daemon_run_end:
  "daemon_run frac host path contents ss = (l, role, stopped) \<Longrightarrow> role_at_work role \<and> stopped = list_ex stops ss"
  using daemon_loop_end daemon_start_at_work
  by (cases "daemon_start frac host path contents") (fastforce simp: daemon_run_def apfst_def map_prod_def split: prod.splits)

text \<open>
  C40. The daemon never exits because of its conf. Started with any flags that are understood, and
  whatever the file holds at the start and at each reload, it has exited exactly when a SIGINT or a
  SIGTERM arrived, and then with status 0; and whenever a role is at work, it is the role its conf
  names and the conf is well formed.
\<close>

theorem daemon_outlives_its_conf:
  assumes "parse_flags defaultConf False args = Flags path verbose"
  shows "role_at_work (oc_role (main frac host key contents ss (prog # ''run'' # args))) \<and>
    oc_exit (main frac host key contents ss (prog # ''run'' # args)) = (if list_ex stops ss then Some 0 else None)"
proof -
  obtain l role stopped where "daemon_run frac host path (contents path) ss = (l, role, stopped)"
    by (metis prod.exhaust)
  with daemon_run_end [OF this] assms show ?thesis
    by (simp add: main_def)
qed

theorem daemon_outlives_its_conf_witness:
  "oc_exit (main (\<lambda>_ _ _. 0) None (Inl EOF) (\<lambda>_. Inr ''x'') [SIGUSR1 id (\<lambda>_. []), SIGTERM] [''httppooler'', ''run'', ''-v'', ''--conf=f'']) = Some 0"
proof -
  have "parse_flags defaultConf False [''-v'', ''--conf=f''] = Flags ''f'' True"
    by code_simp
  from daemon_outlives_its_conf [OF this, of "\<lambda>_ _ _. 0" None "Inl EOF" "\<lambda>_. Inr ''x''" "[SIGUSR1 id (\<lambda>_. []), SIGTERM]" "''httppooler''"]
  show ?thesis
    by (simp add: stops_def)
qed

lemma flags_step:
  assumes "parse_flags p v (s # args) = FlagsExit c"
  shows "c = 0 \<or> c = 2 \<or> (\<exists>p' v' args'. parse_flags p' v' args' = FlagsExit c \<and> length args' < length (s # args))"
proof -
  obtain name val where nv: "flag_split (flag_name s) = (name, val)" by fastforce
  define a where "a = (length s < 2 \<or> s ! 0 \<noteq> CHR ''-'' \<or> s = ''--'')"
  define b where "b = (flag_name s = [] \<or> flag_name s ! 0 = CHR ''-'' \<or> flag_name s ! 0 = CHR ''='')"
  define d where "d = (name = ''help'' \<or> name = ''h'')"
  have "parse_flags p v (s # args) = (if a then Flags p v else if b then FlagsExit 2
     else if name = ''v'' then (case val of None \<Rightarrow> parse_flags p True args
        | Some x \<Rightarrow> (case ParseBool x of None \<Rightarrow> FlagsExit 2 | Some y \<Rightarrow> parse_flags p y args))
     else if name = ''conf'' then (case val of Some x \<Rightarrow> parse_flags x v args
        | None \<Rightarrow> (case args of [] \<Rightarrow> FlagsExit 2 | x # xs \<Rightarrow> parse_flags x v xs))
     else if d then FlagsExit 0 else FlagsExit 2)"
    unfolding a_def b_def d_def by (simp only: parse_flags.simps Let_def nv prod.case)
  with assms show ?thesis
    by (auto split: if_splits option.splits list.splits) (metis less_Suc_eq lessI)
qed

lemma flags_exit: "parse_flags p v as = FlagsExit c \<Longrightarrow> c = 0 \<or> c = 2"
proof (induction as arbitrary: p v rule: length_induct)
  case (1 as)
  show ?case
  proof (cases as)
    case Nil
    with "1.prems" show ?thesis by (simp add: parse_flags.simps)
  next
    case (Cons s args)
    with flags_step [of p v s args c] 1 show ?thesis by blast
  qed
qed

text \<open>
  The statuses of a process that did not become a daemon: 2 for a command line that is not understood,
  1 when the random source failed, 0 after a key or the help was printed. Only \<open>genkey\<close> prints anything.
\<close>

theorem main_exit_status:
  assumes "oc_exit (main frac host key contents ss args) = Some code"
  shows "code \<in> {0, 1, 2} \<and> (code = 1 \<longrightarrow> (\<exists>e prog rest. key = Inl e \<and> args = prog # ''genkey'' # rest)) \<and>
    (oc_out (main frac host key contents ss args) \<noteq> [] \<longrightarrow>
       (\<exists>k prog rest. key = Inr k \<and> args = prog # ''genkey'' # rest \<and> oc_out (main frac host key contents ss args) = [EncodeToString k]))"
  using assms flags_exit [of defaultConf False _ code]
  by (auto simp: main_def exits_def genkey_def split: list.splits if_splits sum.splits flags.splits prod.splits)

theorem main_exit_status_witness: "oc_exit (main (\<lambda>_ _ _. 0) None (Inl EOF) (\<lambda>_. Inr []) [] [''httppooler'', ''run'', ''-x'']) = Some 2"
proof -
  have "oc_exit (main (\<lambda>_ _ _. 0) None (Inl EOF) (\<lambda>_. Inr []) [] [''httppooler'', ''run'', ''-x'']) = Some 2"
    by code_simp
  with main_exit_status [OF this] show ?thesis
    by simp
qed

text \<open>
  A conf that does not parse changes nothing: the reload keeps the role at work and the daemon
  goes on with the signals that follow as if it had not been asked.
\<close>

theorem refused_reload_changes_nothing:
  assumes "Load frac host (\<lambda>_. hp_file h) path = Inl e"
  shows "daemon_loop frac host path (SIGHUP h # ss) role = apfst ((#) (KeepRunning e)) (daemon_loop frac host path ss role)"
  using assms by (simp add: reload_def apfst_def map_prod_def)

theorem refused_reload_changes_nothing_witness:
  "snd (daemon_loop (\<lambda>_ _ _. 0) None ''f'' [SIGHUP \<lparr>hp_file = Inl EOF, hp_self = True, hp_exec = True, hp_next = Inr []\<rparr>, SIGINT] (Some (ServerRole (new_srv some_conf))))
     = (Some (ServerRole (new_srv some_conf)), True)"
  by (subst refused_reload_changes_nothing [of _ _ _ _ "ReadFailed EOF"]) (simp_all add: Load_def)

text \<open>
  The secret \<open>genkey\<close> prints is one the conf reader accepts, and it is the bytes that were drawn.
\<close>

theorem genkey_accepted:
  assumes "length key = SecretSize"
  shows "conf_secret \<lparr>v_text = genkey key, v_line = l\<rparr> path = Inr key"
  using assms by (simp add: conf_secret_def genkey_def length_EncodeToString DecodeString_EncodeToString)

theorem genkey_accepted_witness: "conf_secret \<lparr>v_text = genkey (replicate 32 9), v_line = 1\<rparr> ''f'' = Inr (replicate 32 9)"
  by (rule genkey_accepted) (simp add: SecretSize_def)

end
