(* ===== verification/Consume_Job.thy ===== *)
theory Consume_Job
  imports Server Headers
begin

text \<open>
  \<^verbatim>\<open>internal/peer/consume.go\<close>: the consumer side of a job. An \<open>http.ResponseWriter\<close> is the sequence
  of the calls made on it, with the outcomes of its writes given in advance; \<open>err_text\<close> and
  \<open>io_text\<close> are the texts of errors. What arrives for the job are the events of its queue.
\<close>

record http_request =
  hr_Method :: string
  hr_RequestURI :: string
  hr_URL_RequestURI :: string
  hr_Header :: http_header
  hr_Body :: "io_error + bytes"
  hr_Trailer :: http_header

datatype w_call = HeaderAdd string string | HeaderSet string string | WriteHeader int | WriteBytes bytes | Flush

record response_writer =
  rw_calls :: "w_call list"
  rw_script :: "io_error option list"

definition call_w :: "w_call list \<Rightarrow> response_writer \<Rightarrow> response_writer" where
  "call_w cs w = w\<lparr>rw_calls := rw_calls w @ cs\<rparr>"

definition rw_Write :: "bytes \<Rightarrow> response_writer \<Rightarrow> io_error option \<times> response_writer" where
  "rw_Write bs w =
     (case rw_script w of
        [] \<Rightarrow> (None, call_w [WriteBytes bs] w)
      | r # rs \<Rightarrow> (r, (call_w [WriteBytes bs] w)\<lparr>rw_script := rs\<rparr>))"

subsection \<open>Headers and made-up answers\<close>

definition head_adds :: "header list \<Rightarrow> w_call list" where
  "head_adds hs = concat (map (\<lambda>h. let name = CanonicalMIMEHeaderKey (h_Name h)
     in if name \<in> set hopByHop then [] else [HeaderAdd name (h_Value h)]) hs)"

definition writeHead :: "u16 \<Rightarrow> header list \<Rightarrow> response_writer \<Rightarrow> response_writer" where
  "writeHead status hs w = call_w [WriteHeader (uint status)] (call_w (head_adds hs) w)"

definition writeTrailers :: "header list \<Rightarrow> response_writer \<Rightarrow> response_writer" where
  "writeTrailers ts w =
     call_w (map (\<lambda>t. HeaderAdd (''Trailer:'' @ CanonicalMIMEHeaderKey (h_Name t)) (h_Value t)) ts) w"

definition requestHeaders :: "http_request \<Rightarrow> nat \<Rightarrow> header list" where
  "requestHeaders r n =
     fromHTTP (hr_Header r) [''Content-Length''] @
     (if n > 0 \<or> Get (hr_Header r) ''Content-Length'' \<noteq> []
      then [\<lparr>h_Name = ''Content-Length'', h_Value = Itoa n\<rparr>] else [])"

definition target_of :: "http_request \<Rightarrow> string" where
  "target_of r = (if hr_RequestURI r \<noteq> [] then hr_RequestURI r else hr_URL_RequestURI r)"

definition synth :: "int \<Rightarrow> string \<Rightarrow> response_writer \<Rightarrow> response_writer" where
  "synth status why w =
     snd (rw_Write (str_bytes (why @ [CHR 0x0A]))
       (call_w [HeaderSet ''Content-Type'' ''text/plain; charset=utf-8'',
                HeaderSet ''Content-Length'' (Itoa (length why + 1)), WriteHeader status] w))"

subsection \<open>Relaying the answer\<close>

text \<open>Whether the handler aborted the application's connection (\<open>panic(http.ErrAbortHandler)\<close>).\<close>

type_synonym handled = "bool \<times> response_writer"

definition answerFailure :: "bool \<Rightarrow> string \<Rightarrow> response_writer \<Rightarrow> handled" where
  "answerFailure started why w = (if started then (True, w) else (False, synth 502 why w))"

function relayAnswer :: "(peer_error \<Rightarrow> string) \<Rightarrow> u64 \<Rightarrow> bool \<Rightarrow> bool \<Rightarrow> qevent list \<Rightarrow> jobQueue \<Rightarrow> response_writer \<Rightarrow> conn \<Rightarrow>
    (handled \<times> conn) option" where
  "relayAnswer err_text job ctx_done started evs q w c =
     (case jq_next evs q of
        None \<Rightarrow> None
      | Some (Inl e, q', evs') \<Rightarrow>
          (if e = ErrCtx \<or> ctx_done then Some ((False, w), snd (send (Cancel job) c))
           else Some (answerFailure started (''the connection to the server ended: '' @ err_text e) w, c))
      | Some (Inr m, q', evs') \<Rightarrow>
          (case m of
             Response _ status hs \<Rightarrow>
               relayAnswer err_text job ctx_done True evs' q' (call_w [Flush] (writeHead status hs w)) c
           | Body _ bs \<Rightarrow>
               (case rw_Write bs w of
                  (Some _, w') \<Rightarrow> Some ((False, w'), snd (send (Cancel job) c))
                | (None, w') \<Rightarrow> relayAnswer err_text job ctx_done started evs' q' (call_w [Flush] w') c)
           | End _ ts \<Rightarrow> Some ((False, writeTrailers ts w), c)
           | Fail _ why \<Rightarrow> Some (answerFailure started why w, c)
           | _ \<Rightarrow> Some (answerFailure started (Kind_String (Kind m) @ '' where an answer belongs'') w, c)))"
  by pat_completeness auto
termination
  by (relation "measure (\<lambda>(err_text, job, ctx_done, started, evs, q, w, c). pending evs q)")
    (auto intro: jq_next_pending)

declare relayAnswer.simps [simp del]

text \<open>\<open>consume\<close>; \<open>conn\<close> is what \<open>e.connection()\<close> returned. The deferred \<open>endJob\<close> runs on an abort too.\<close>

definition consume :: "(peer_error \<Rightarrow> string) \<Rightarrow> (io_error \<Rightarrow> string) \<Rightarrow> bool \<Rightarrow> qevent list \<Rightarrow> string \<Rightarrow> http_request \<Rightarrow>
    conn option \<Rightarrow> response_writer \<Rightarrow> (handled \<times> conn option) option" where
  "consume err_text io_text ctx_done evs service r cn w =
     (if isUpgrade (hr_Header r) then Some ((False, synth 501 ''upgrade requests are not pooled'' w), cn)
      else case hr_Body r of
             Inl e \<Rightarrow> Some ((False, synth 502 (''reading the request body: '' @ io_text e) w), cn)
           | Inr body \<Rightarrow>
               (case cn of
                  None \<Rightarrow> Some ((False, synth 503 ''this peer has no connection to the server'' w), None)
                | Some c \<Rightarrow>
                    (case newJob c of
                       (Inl e, c1) \<Rightarrow> Some ((False, synth 503 (''the connection to the server ended: '' @ err_text e) w), Some c1)
                     | (Inr (job, q), c1) \<Rightarrow>
                         (case send (Request job service (hr_Method r) (target_of r) (requestHeaders r (length body))) c1 of
                            (Inl e, c2) \<Rightarrow>
                              Some ((False, synth 503 (''sending the request: '' @ err_text e) w), Some (endJob job c2))
                          | (Inr _, c2) \<Rightarrow>
                              (case sendBodyEnd job body (fromHTTP (hr_Trailer r) []) c2 of
                                 (Inl e, c3) \<Rightarrow>
                                   Some ((False, synth 503 (''sending the request body: '' @ err_text e) w), Some (endJob job c3))
                               | (Inr _, c3) \<Rightarrow>
                                   map_option (\<lambda>(h, c4). (h, Some (endJob job c4)))
                                     (relayAnswer err_text job ctx_done False evs (cn_queues c3 q) w c3))))))"

end
