(* ===== verification/Consume_Theorems.thy ===== *)
theory Consume_Theorems
  imports Consume_Job Endpoint_Theorems Conn_Theorems
begin

text \<open>The properties of the consumer side of a job.\<close>

subsection \<open>What reaches the application\<close>

lemma rw_calls_call [simp]: "rw_calls (call_w cs w) = rw_calls w @ cs" "rw_script (call_w cs w) = rw_script w"
  by (simp_all add: call_w_def)

lemma rw_Write_calls: "rw_Write bs w = (r, w') \<Longrightarrow> rw_calls w' = rw_calls w @ [WriteBytes bs]"
  by (auto simp: rw_Write_def split: list.splits)

lemma rw_Write_ok [simp]: "rw_script w = [] \<Longrightarrow> rw_Write bs w = (None, call_w [WriteBytes bs] w)"
  by (simp add: rw_Write_def)

definition synth_calls :: "int \<Rightarrow> string \<Rightarrow> w_call list" where
  "synth_calls status why =
     [HeaderSet ''Content-Type'' ''text/plain; charset=utf-8'', HeaderSet ''Content-Length'' (Itoa (length why + 1)),
      WriteHeader status, WriteBytes (str_bytes (why @ [CHR 0x0A]))]"

lemma rw_calls_synth: "rw_calls (synth status why w) = rw_calls w @ synth_calls status why"
proof -
  have "rw_calls (snd (rw_Write bs w)) = rw_calls w @ [WriteBytes bs]" for bs w
    using rw_Write_calls [of bs w] by (cases "rw_Write bs w") simp
  then show ?thesis
    by (simp add: synth_def synth_calls_def)
qed

fun is_status :: "w_call \<Rightarrow> bool" where
  "is_status (WriteHeader _) = True"
| "is_status _ = False"

text \<open>
  The calls after which a status line is out: a \<open>WriteHeader\<close> whose status is final, and the first \<open>Write\<close>
  or \<open>Flush\<close>, for which \<^verbatim>\<open>net/http\<close> sends an implicit 200 if there was none.
\<close>

fun commits :: "w_call \<Rightarrow> bool" where
  "commits (WriteHeader status) = (status \<ge> 200 \<or> status = 101)"
| "commits (WriteBytes _) = True"
| "commits Flush = True"
| "commits _ = False"

fun relayed_call :: "w_call \<Rightarrow> bool" where
  "relayed_call (HeaderSet _ _) = False"
| "relayed_call _ = True"

text \<open>
  What \<open>relayAnswer\<close> may do with the writer: relay, and then at most one made-up 502, which needs
  that no RESPONSE was written; or an abort, which needs that one was and that its status line is out.
\<close>

definition answer_calls :: "bool \<Rightarrow> bool \<Rightarrow> w_call list \<Rightarrow> bool" where
  "answer_calls started aborted cs \<longleftrightarrow> (\<exists>relayed made.
     cs = relayed @ made \<and> list_all relayed_call relayed \<and>
     (made = [] \<or> (\<exists>why. made = synth_calls 502 why) \<and> \<not> started \<and> \<not> list_ex is_status relayed \<and> \<not> aborted) \<and>
     (aborted \<longrightarrow> started \<or> list_ex is_status relayed \<and> list_ex commits relayed))"

lemma answer_calls_Cons:
  assumes "answer_calls (started \<or> list_ex is_status xs) aborted cs" "list_all relayed_call xs"
    and "list_ex is_status xs \<longrightarrow> list_ex commits xs"
  shows "answer_calls started aborted (xs @ cs)"
proof -
  from assms(1) obtain relayed made where "cs = relayed @ made" "list_all relayed_call relayed"
     "made = [] \<or> (\<exists>why. made = synth_calls 502 why) \<and> \<not> (started \<or> list_ex is_status xs) \<and> \<not> list_ex is_status relayed \<and> \<not> aborted"
     "aborted \<longrightarrow> (started \<or> list_ex is_status xs) \<or> list_ex is_status relayed \<and> list_ex commits relayed"
    unfolding answer_calls_def by blast
  with assms(2,3) show ?thesis
    unfolding answer_calls_def by (intro exI [of _ "xs @ relayed"] exI [of _ made]) auto
qed

lemma answer_calls_relayed: "list_all relayed_call cs \<Longrightarrow> answer_calls started False cs"
  unfolding answer_calls_def by (intro exI [of _ cs] exI [of _ "[]"]) simp

definition w_grows :: "(w_call list \<Rightarrow> bool) \<Rightarrow> response_writer \<Rightarrow> response_writer \<Rightarrow> bool" where
  "w_grows P w w' \<longleftrightarrow> (\<exists>cs. rw_calls w' = rw_calls w @ cs \<and> P cs)"

lemma answerFailure_calls: "answerFailure started why w = (aborted, w') \<Longrightarrow> w_grows (answer_calls started aborted) w w'"
proof (cases started)
  case False
  assume "answerFailure started why w = (aborted, w')"
  with False have "rw_calls w' = rw_calls w @ synth_calls 502 why" "\<not> aborted"
    by (auto simp: answerFailure_def rw_calls_synth)
  with False show ?thesis
    unfolding w_grows_def answer_calls_def by (intro exI [of _ "synth_calls 502 why"] conjI exI [of _ "[]"]) auto
next
  case True
  assume "answerFailure started why w = (aborted, w')"
  with True show ?thesis
    unfolding w_grows_def answer_calls_def answerFailure_def by (intro exI [of _ "[]"] conjI exI [of _ "[]"]) auto
qed

lemma head_adds_relayed: "list_all relayed_call (head_adds hs)" "\<not> list_ex is_status (head_adds hs)"
  by (auto simp: head_adds_def list_all_iff list_ex_iff Let_def)

lemma w_grows_step:
  assumes "w_grows (answer_calls (started \<or> list_ex is_status xs) aborted) w1 w'" "rw_calls w1 = rw_calls w @ xs" "list_all relayed_call xs"
    "list_ex is_status xs \<longrightarrow> list_ex commits xs"
  shows "w_grows (answer_calls started aborted) w w'"
  using assms answer_calls_Cons by (fastforce simp: w_grows_def)

lemma relayAnswer_calls:
  "relayAnswer err_text job ctx started evs q w c = Some ((aborted, w'), c') \<Longrightarrow> w_grows (answer_calls started aborted) w w'"
proof (induction err_text job ctx started evs q w c rule: relayAnswer.induct)
  case (1 err_text job ctx started evs q w c)
  have same: "w_grows (answer_calls started False) w w"
    by (simp add: w_grows_def answer_calls_relayed)
  obtain r q' evs' where n: "jq_next evs q = Some (r, q', evs')"
    using "1.prems" by (subst (asm) relayAnswer.simps) (auto split: option.splits)
  show ?case
  proof (cases r)
    case (Inl e)
    with n "1.prems" same answerFailure_calls show ?thesis
      by (subst (asm) relayAnswer.simps) (auto split: if_splits)
  next
    case (Inr m)
    note step = "1.prems" [unfolded relayAnswer.simps [of err_text job ctx started evs q w c] n option.case prod.case Inr sum.case]
    show ?thesis
    proof (cases m)
      case (Response j status hs)
      let ?w = "call_w [Flush] (writeHead status hs w)"
      have "w_grows (answer_calls True aborted) ?w w'"
        using "1.IH"(1) [OF n refl Inr refl Response] step by (simp add: Response)
      then show ?thesis
        by (intro w_grows_step [of started "head_adds hs @ [WriteHeader (uint status), Flush]" aborted ?w])
          (simp_all add: writeHead_def head_adds_relayed)
    next
      case (Body j bs)
      obtain rr w1 where wr: "rw_Write bs w = (rr, w1)" by fastforce
      note calls = rw_Write_calls [OF wr]
      show ?thesis
      proof (cases rr)
        case None
        have "w_grows (answer_calls started aborted) (call_w [Flush] w1) w'"
          using "1.IH"(2) [OF n refl Inr refl Body wr [symmetric] None] step by (simp add: Body wr None)
        then show ?thesis
          by (intro w_grows_step [of started "[WriteBytes bs, Flush]" aborted "call_w [Flush] w1"]) (simp_all add: calls)
      next
        case (Some e)
        with step have "\<not> aborted" "w' = w1"
          by (simp_all add: Body wr)
        with calls show ?thesis
          by (auto simp: w_grows_def answer_calls_relayed)
      qed
    next
      case (End j ts)
      with step have "\<not> aborted" "w' = writeTrailers ts w"
        by simp_all
      then show ?thesis
        by (auto simp: w_grows_def writeTrailers_def list_all_iff intro!: answer_calls_relayed)
    qed (use step in \<open>simp_all, (blast intro: answerFailure_calls)+\<close>)
  qed
qed

text \<open>When the messages have the form of an answer, either something made up is written or what came is relayed, never both.\<close>

lemma relayAnswer_in_form:
  assumes "relayAnswer err_text job ctx False evs q w c = Some ((aborted, w'), c')" "answers False (to_come evs q)"
  shows "(\<exists>why. rw_calls w' = rw_calls w @ synth_calls 502 why) \<or>
    (\<exists>cs. rw_calls w' = rw_calls w @ cs \<and> list_all relayed_call cs \<and> (cs \<noteq> [] \<longrightarrow> list_ex commits cs))"
proof -
  obtain r q' evs' where n: "jq_next evs q = Some (r, q', evs')"
    using assms(1) by (subst (asm) relayAnswer.simps) (auto split: option.splits)
  note step = assms(1) [unfolded relayAnswer.simps [of err_text job ctx False evs q w c] n option.case prod.case]
  show ?thesis
  proof (cases r)
    case (Inl e)
    with step show ?thesis
      by (auto simp: answerFailure_def rw_calls_synth split: if_splits)
  next
    case (Inr m)
    have "answers False (m # to_come evs' q')"
      using assms(2) jq_next_message(1) [OF n [unfolded Inr]] by simp
    then consider (resp) j status hs where "m = Response j status hs" | (fail) j why where "m = Fail j why"
      by (cases m) auto
    then show ?thesis
    proof cases
      case resp
      let ?w = "call_w [Flush] (writeHead status hs w)"
      from step Inr resp have "relayAnswer err_text job ctx True evs' q' ?w c = Some ((aborted, w'), c')"
        by simp
      from relayAnswer_calls [OF this] obtain cs where cs: "rw_calls w' = rw_calls ?w @ cs" "answer_calls True aborted cs"
        by (auto simp: w_grows_def)
      then have "list_all relayed_call cs"
        by (auto simp: answer_calls_def)
      with cs(1) show ?thesis
        by (intro disjI2 exI [of _ "head_adds hs @ [WriteHeader (uint status), Flush] @ cs"])
          (simp add: writeHead_def head_adds_relayed)
    next
      case fail
      with step Inr show ?thesis
        by (auto simp: answerFailure_def rw_calls_synth)
    qed
  qed
qed

text \<open>
  C29. A job that fails reaches the application once and honestly. Whatever arrives for the job, the
  calls on the application's response are what was relayed, followed by nothing or by one made-up
  502; the 502 is only written when no RESPONSE has been, and the application's connection is only
  broken off when one has been and its status line is out. And when what arrives has the form of an
  answer, which is what a server sends, the 502 is all that is ever written, so no status line was out before
  it, and whatever is relayed at all has put its status line out.
\<close>

theorem failure_reported_once:
  assumes "relayAnswer err_text job ctx False evs q w c = Some ((aborted, w'), c')"
  shows "\<exists>relayed made. rw_calls w' = rw_calls w @ relayed @ made \<and> list_all relayed_call relayed \<and>
    (made = [] \<or> (\<exists>why. made = synth_calls 502 why) \<and> \<not> list_ex is_status relayed \<and> \<not> aborted) \<and>
    (aborted \<longrightarrow> list_ex is_status relayed \<and> list_ex commits relayed) \<and>
    (answers False (to_come evs q) \<longrightarrow> (made \<noteq> [] \<longrightarrow> relayed = []) \<and> (relayed \<noteq> [] \<longrightarrow> list_ex commits relayed))"
proof -
  obtain relayed made where g: "rw_calls w' = rw_calls w @ relayed @ made" "list_all relayed_call relayed"
      "made = [] \<or> (\<exists>why. made = synth_calls 502 why) \<and> \<not> list_ex is_status relayed \<and> \<not> aborted"
      "aborted \<longrightarrow> list_ex is_status relayed \<and> list_ex commits relayed"
    using relayAnswer_calls [OF assms] by (auto simp: w_grows_def answer_calls_def)
  have "(made \<noteq> [] \<longrightarrow> relayed = []) \<and> (relayed \<noteq> [] \<longrightarrow> list_ex commits relayed)" if "answers False (to_come evs q)"
    using relayAnswer_in_form [OF assms that]
  proof (elim disjE exE conjE)
    fix why
    assume "rw_calls w' = rw_calls w @ synth_calls 502 why"
    then have "relayed @ made = synth_calls 502 why"
      using g(1) by simp
    with g(2) have "relayed = []"
      by (cases relayed) (auto simp: synth_calls_def)
    then show ?thesis by simp
  next
    fix cs
    assume "rw_calls w' = rw_calls w @ cs" "list_all relayed_call cs" "cs \<noteq> [] \<longrightarrow> list_ex commits cs"
    then have cs: "cs = relayed @ made" "list_all relayed_call made" "cs \<noteq> [] \<longrightarrow> list_ex commits cs"
      using g(1) by auto
    with g(3) have "made = []"
      by (auto simp: synth_calls_def)
    with cs show ?thesis by simp
  qed
  with g show ?thesis
    by blast
qed

definition blank_writer :: response_writer where
  "blank_writer = \<lparr>rw_calls = [], rw_script = []\<rparr>"

theorem failure_reported_once_witness:
  "rw_calls (synth 502 ''no'' blank_writer) = synth_calls 502 ''no'' \<and>
   (\<exists>relayed made. rw_calls (synth 502 ''no'' blank_writer) = relayed @ made \<and> (made = [] \<or> relayed = []))"
proof -
  have "relayAnswer (\<lambda>_. []) 1 False False [Pushed (Fail 1 ''no'')] newJobQueue blank_writer open_conn =
      Some ((False, synth 502 ''no'' blank_writer), open_conn)"
    by (subst relayAnswer.simps) (simp add: jq_next_waiting newJobQueue_def answerFailure_def)
  from failure_reported_once [OF this] have "\<exists>relayed made. rw_calls (synth 502 ''no'' blank_writer) = relayed @ made \<and> (made = [] \<or> relayed = [])"
    by (simp add: blank_writer_def) blast
  then show ?thesis
    by (simp add: rw_calls_synth) (simp add: blank_writer_def)
qed

text \<open>
  Messages that do not have that form. A BODY that no RESPONSE came before is written, for which \<^verbatim>\<open>net/http\<close> sends an
  implicit 200; when the job then fails, the made-up 502 is written after it.
\<close>

theorem failure_after_a_lone_body:
  "\<exists>w'. relayAnswer err_text job False False (Pushed (Body job bs) # Pushed (Fail job why) # evs) newJobQueue blank_writer c = Some ((False, w'), c) \<and>
     rw_calls w' = [WriteBytes bs, Flush] @ synth_calls 502 why \<and> list_ex commits [WriteBytes bs, Flush]"
  by (subst relayAnswer.simps, simp add: jq_next_waiting newJobQueue_def blank_writer_def, subst relayAnswer.simps)
    (simp add: jq_next_waiting answerFailure_def rw_calls_synth)

end
