(* ===== verification/Hops.thy ===== *)
theory Hops
  imports Consume_Theorems Server_Theorems
begin

text \<open>
  One hop of a job at a time: what each side sends and delivers when nothing fails. A job crosses
  four: the consumer submits it, the server hands it to a provider, the provider answers from its
  upstream, and the answer goes the same way in reverse.
\<close>

subsection \<open>Sending\<close>

lemma body_messages_fit:
  assumes "job \<noteq> 0" "ok_headers ts"
  shows "fits (body_messages job body ts)"
  using assms
proof (induction job body ts rule: body_messages.induct)
  case (1 job body ts)
  then show ?case
    by (subst body_messages.simps) (auto simp: Let_def bodyChunk_def)
qed

lemma sendBodyEnd_sends:
  assumes "healthy c" "job \<noteq> 0" "ok_headers ts"
  obtains c' where "sendBodyEnd job body ts c = (Inr (), c')" "sends (body_messages job body ts) c c'"
  using send_each_sends [OF assms(1) body_messages_fit [OF assms(2,3)]] by (auto simp: sendBodyEnd_def)

subsection \<open>A whole answer\<close>

lemma next_pushed:
  assumes "jq_err q = None" "jq_items q @ ms = x # rest"
  obtains q' ms' where "jq_next (with_pushes ms) q = Some (Inr x, q', with_pushes ms')" "jq_err q' = None" "jq_items q' @ ms' = rest"
  using next_in_order [OF assms, of "[]"] by (metis append_Nil2)

definition whole_answer :: "u64 \<Rightarrow> u16 \<Rightarrow> header list \<Rightarrow> bytes list \<Rightarrow> header list \<Rightarrow> message list" where
  "whole_answer job status hs chunks ts = Response job status hs # map (Body job) chunks @ [End job ts]"

lemma whole_answer_fits:
  "fits (whole_answer job status hs chunks ts) \<longleftrightarrow> ok_msg (Response job status hs) \<and> list_all (\<lambda>b. ok_msg (Body job b)) chunks \<and> ok_headers ts"
  by (auto simp: whole_answer_def fits_def list_all_iff)

lemma relay_bodies:
  assumes "healthy c" "fits (map (Body reqJob) chunks @ [End reqJob ts])"
    and "jq_err q = None" "jq_items q @ ms = map (Body job) chunks @ [End job ts]"
  shows "\<exists>c'. answer_loop reqJob job ctx True (with_pushes ms) q c t = Some ((True, None), c', t) \<and>
    sends (map (Body reqJob) chunks @ [End reqJob ts]) c c'"
  using assms
proof (induction chunks arbitrary: q ms c)
  case Nil
  from Nil(4) have "jq_items q @ ms = End job ts # []" by simp
  with Nil(3) obtain q' ms' where n: "jq_next (with_pushes ms) q = Some (Inr (End job ts), q', with_pushes ms')"
    by (rule next_pushed)
  from send_sends [of c "End reqJob ts"] Nil obtain c' where "send (End reqJob ts) c = (Inr (), c')" "sends [End reqJob ts] c c'"
    by auto
  with n show ?case
    by (subst answer_loop.simps) simp
next
  case (Cons b chunks)
  from next_in_order [OF Cons.prems(3), of ms "Body job b" _ "[]"] Cons.prems(4) obtain q' ms' where
    n: "jq_next (with_pushes ms) q = Some (Inr (Body job b), q', with_pushes ms')" "jq_err q' = None"
      "jq_items q' @ ms' = map (Body job) chunks @ [End job ts]"
    by (auto simp: with_pushes_def)
  from send_sends [of c "Body reqJob b"] Cons.prems obtain c1 where c1: "send (Body reqJob b) c = (Inr (), c1)" "sends [Body reqJob b] c c1"
    by auto
  from c1(2) have "healthy c1"
    by (simp add: sends_def)
  from Cons.IH [OF this _ n(2,3)] Cons.prems(2) obtain c2 where
    "answer_loop reqJob job ctx True (with_pushes ms') q' c1 t = Some ((True, None), c2, t)"
    "sends (map (Body reqJob) chunks @ [End reqJob ts]) c1 c2"
    by auto
  with n(1) c1 sends_trans [OF c1(2), of "map (Body reqJob) chunks @ [End reqJob ts]" c2] show ?case
    by (subst answer_loop.simps) simp
qed

lemma relay_whole_answer:
  assumes "healthy c" "fits (whole_answer reqJob status hs chunks ts)"
    and "jq_err q = None" "jq_items q @ ms = whole_answer job status hs chunks ts"
  shows "\<exists>c'. answer_loop reqJob job ctx False (with_pushes ms) q c t = Some ((True, None), c', t) \<and>
    sends (whole_answer reqJob status hs chunks ts) c c'"
proof -
  from next_in_order [OF assms(3), of ms "Response job status hs" _ "[]"] assms(4) obtain q' ms' where
    n: "jq_next (with_pushes ms) q = Some (Inr (Response job status hs), q', with_pushes ms')" "jq_err q' = None"
      "jq_items q' @ ms' = map (Body job) chunks @ [End job ts]"
    by (auto simp: with_pushes_def whole_answer_def)
  from send_sends [of c "Response reqJob status hs"] assms(1,2) obtain c1 where
    c1: "send (Response reqJob status hs) c = (Inr (), c1)" "sends [Response reqJob status hs] c c1"
    by (auto simp: whole_answer_def)
  from c1(2) have "healthy c1"
    by (simp add: sends_def)
  from relay_bodies [OF this _ n(2,3), of reqJob ctx t] assms(2) obtain c2 where
    "answer_loop reqJob job ctx True (with_pushes ms') q' c1 t = Some ((True, None), c2, t)"
    "sends (map (Body reqJob) chunks @ [End reqJob ts]) c1 c2"
    by (auto simp: whole_answer_def)
  with n(1) c1 sends_trans [OF c1(2), of "map (Body reqJob) chunks @ [End reqJob ts]" c2] show ?thesis
    by (subst answer_loop.simps) (simp add: whole_answer_def)
qed

subsection \<open>What the application gets\<close>

definition answer_shown :: "u16 \<Rightarrow> header list \<Rightarrow> bytes list \<Rightarrow> header list \<Rightarrow> w_call list" where
  "answer_shown status hs chunks ts =
     head_adds hs @ [WriteHeader (uint status), Flush] @ concat (map (\<lambda>b. [WriteBytes b, Flush]) chunks) @
     map (\<lambda>t. HeaderAdd (''Trailer:'' @ CanonicalMIMEHeaderKey (h_Name t)) (h_Value t)) ts"

lemma show_bodies:
  assumes "rw_script w = []" "jq_err q = None" "jq_items q @ ms = map (Body job) chunks @ [End job ts]"
  shows "\<exists>w'. relayAnswer err_text j ctx True (with_pushes ms) q w c = Some ((False, w'), c) \<and>
    rw_calls w' = rw_calls w @ concat (map (\<lambda>b. [WriteBytes b, Flush]) chunks) @
      map (\<lambda>t. HeaderAdd (''Trailer:'' @ CanonicalMIMEHeaderKey (h_Name t)) (h_Value t)) ts"
  using assms
proof (induction chunks arbitrary: q ms w)
  case Nil
  from Nil(3) have "jq_items q @ ms = End job ts # []" by simp
  with Nil(2) obtain q' ms' where "jq_next (with_pushes ms) q = Some (Inr (End job ts), q', with_pushes ms')"
    by (rule next_pushed)
  then show ?case
    by (subst relayAnswer.simps) (simp add: writeTrailers_def)
next
  case (Cons b chunks)
  from next_in_order [OF Cons.prems(2), of ms "Body job b" _ "[]"] Cons.prems(3) obtain q' ms' where
    n: "jq_next (with_pushes ms) q = Some (Inr (Body job b), q', with_pushes ms')" "jq_err q' = None"
      "jq_items q' @ ms' = map (Body job) chunks @ [End job ts]"
    by (auto simp: with_pushes_def)
  from Cons.IH [OF _ n(2,3), of "call_w [Flush] (call_w [WriteBytes b] w)"] Cons.prems(1) n(1) show ?case
    by (subst relayAnswer.simps) simp
qed

lemma show_whole_answer:
  assumes "rw_script w = []" "jq_err q = None" "jq_items q @ ms = whole_answer job status hs chunks ts"
  shows "\<exists>w'. relayAnswer err_text j ctx False (with_pushes ms) q w c = Some ((False, w'), c) \<and>
    rw_calls w' = rw_calls w @ answer_shown status hs chunks ts"
proof -
  from next_in_order [OF assms(2), of ms "Response job status hs" _ "[]"] assms(3) obtain q' ms' where
    n: "jq_next (with_pushes ms) q = Some (Inr (Response job status hs), q', with_pushes ms')" "jq_err q' = None"
      "jq_items q' @ ms' = map (Body job) chunks @ [End job ts]"
    by (auto simp: with_pushes_def whole_answer_def)
  from show_bodies [OF _ n(2,3), of "call_w [Flush] (writeHead status hs w)" err_text j ctx c] assms(1) n(1) show ?thesis
    by (subst relayAnswer.simps) (simp add: writeHead_def answer_shown_def)
qed

subsection \<open>The provider's hop\<close>

text \<open>The pieces of a response body that its reads give, when they end in \<open>io.EOF\<close>.\<close>

fun read_chunks :: "(bytes \<times> io_error option) list \<Rightarrow> bytes list option" where
  "read_chunks [] = None"
| "read_chunks ((bs, err) # reads) =
     (let add = (if bs = [] then (\<lambda>x. x) else (#) bs)
      in case err of None \<Rightarrow> map_option add (read_chunks reads) | Some e \<Rightarrow> if e = EOF then Some (add []) else None)"

lemma copy_body_sends:
  "read_chunks reads = Some chunks \<Longrightarrow> healthy c \<Longrightarrow> fits (map (Body job) chunks) \<Longrightarrow>
   \<exists>c'. copy_body job reads c = Some (Inr (), c') \<and> sends (map (Body job) chunks) c c'"
proof (induction job reads c arbitrary: chunks rule: copy_body.induct)
  case (2 job bs err reads c)
  obtain c1 where c1: "(if bs \<noteq> [] then send (Body job bs) c else (Inr (), c)) = (Inr (), c1)"
      "sends (if bs \<noteq> [] then [Body job bs] else []) c c1"
  proof (cases "bs = []")
    case True
    with "2.prems"(2) show thesis
      by (intro that [of c]) (simp_all add: sends_def)
  next
    case False
    with "2.prems"(1,3) have "ok_msg (Body job bs)"
      by (auto simp: Let_def simp del: ok_msg.simps split: option.splits if_splits)
    with "2.prems"(2) obtain c1 where "send (Body job bs) c = (Inr (), c1)" "sends [Body job bs] c c1"
      using send_sends [of c "Body job bs"] by auto
    with False show thesis
      by (intro that [of c1]) simp_all
  qed
  then have h: "healthy c1"
    by (simp add: sends_def)
  show ?case
  proof (cases err)
    case None
    with "2.prems"(1) obtain cs where cs: "read_chunks reads = Some cs" "chunks = (if bs = [] then cs else bs # cs)"
      by (auto split: if_splits)
    with "2.prems"(3) have "fits (map (Body job) cs)"
      by (auto split: if_splits)
    from "2.IH" [OF c1(1) [symmetric] refl None cs(1) h this] obtain c2 where
      c2: "copy_body job reads c1 = Some (Inr (), c2)" "sends (map (Body job) cs) c1 c2" by blast
    have "sends (map (Body job) chunks) c c2"
      using sends_trans [OF c1(2) c2(2)] cs(2) by (auto split: if_splits)
    with c1(1) c2(1) None show ?thesis
      by auto
  next
    case (Some e)
    with "2.prems"(1) have "e = EOF" "chunks = (if bs = [] then [] else [bs])"
      by (auto split: if_splits)
    with c1 Some show ?thesis
      by (auto split: if_splits)
  qed
qed simp

lemma provide_hop:
  assumes "ep_byName e service = Some p" "ep_running e service < int (unat (pv_MaxConcurrent p))"
    and "req = Request job service meth target hs"
    and "healthy c" "HasPrefix target ''/''" "new_request meth (''http://'' @ pv_Upstream p @ target) = None"
    and "Do (upstream_request_of req p body) = Inr res" "100 \<le> ur_StatusCode res" "ur_StatusCode res \<le> 599"
    and "read_chunks (ur_reads res) = Some chunks"
    and "fits (whole_answer job (of_int (ur_StatusCode res)) (fromHTTP (ur_Header res) []) chunks (fromHTTP (ur_Trailer res) []))"
  shows "\<exists>c'. provide err_text new_request Do cause req (with_pushes (body_messages job body ts)) newJobQueue e c = Some (e, endJob job c') \<and>
    sends (whole_answer job (of_int (ur_StatusCode res)) (fromHTTP (ur_Header res) []) chunks (fromHTTP (ur_Trailer res) [])) c c'"
proof -
  let ?resp = "Response job (of_int (ur_StatusCode res)) (fromHTTP (ur_Header res) [])"
  let ?fin = "End job (fromHTTP (ur_Trailer res) [])"
  from collect_body_messages [of newJobQueue "body_messages job body ts" job body ts "[]" "[]"] obtain q' where
    col: "collect [] (with_pushes (body_messages job body ts)) newJobQueue = Some (Inr (body, ts), q', [])"
    by (auto simp: newJobQueue_def)
  have ok: "ok_msg ?resp" "fits (map (Body job) chunks)" "ok_msg ?fin"
    using assms(11) by (auto simp: whole_answer_def)
  from send_sends [OF assms(4) ok(1)] obtain c1 where c1: "send ?resp c = (Inr (), c1)" "sends [?resp] c c1" by auto
  from copy_body_sends [OF assms(10) _ ok(2), of c1] c1(2) obtain c2 where
    c2: "copy_body job (ur_reads res) c1 = Some (Inr (), c2)" "sends (map (Body job) chunks) c1 c2"
    by (auto simp: sends_def)
  from send_sends [OF _ ok(3), of c2] c2(2) obtain c3 where c3: "send ?fin c2 = (Inr (), c3)" "sends [?fin] c2 c3"
    by (auto simp: sends_def)
  have "runUpstream new_request Do req p body c = Some (Inr (), c3)"
    using assms(3,5-9) c1(1) c2(1) c3(1) by (simp add: runUpstream_def)
  moreover have "sends (whole_answer job (of_int (ur_StatusCode res)) (fromHTTP (ur_Header res) []) chunks (fromHTTP (ur_Trailer res) [])) c c3"
    using sends_trans [OF sends_trans [OF c1(2) c2(2)] c3(2)] by (simp add: whole_answer_def)
  moreover have "ep_take service (pv_MaxConcurrent p) e = (True, e\<lparr>ep_running := (ep_running e)(service := ep_running e service + 1)\<rparr>)"
    using assms(2) by (simp add: ep_take_def)
  ultimately show ?thesis
    using assms(1,3) col by (auto simp: provide_eq Let_def ep_give_def)
qed

subsection \<open>The server's hop\<close>

lemma newJob_sel:
  assumes "cn_err c = None"
  shows "\<exists>c'. newJob c = (Inr (cn_nextJob c, cn_nq c), c') \<and> cn_queues c' (cn_nq c) = newJobQueue \<and>
    healthy c' = healthy c \<and> cn_sent c' = cn_sent c"
  using assms by (simp add: newJob_def open_queue_def Let_def healthy_def)

definition request_messages :: "u64 \<Rightarrow> string \<Rightarrow> string \<Rightarrow> string \<Rightarrow> header list \<Rightarrow> bytes \<Rightarrow> header list \<Rightarrow> message list" where
  "request_messages job service meth target hs body ts = Request job service meth target hs # body_messages job body ts"

text \<open>Submitting a job on a connection: what both the consumer and the server's dispatch do.\<close>

lemma submit_hop:
  assumes "healthy c" "cn_err c = None" "ok_msg (Request (cn_nextJob c) service meth target hs)" "ok_headers ts"
  obtains c1 c2 c3 where "newJob c = (Inr (cn_nextJob c, cn_nq c), c1)"
    "send (Request (cn_nextJob c) service meth target hs) c1 = (Inr (), c2)"
    "sendBodyEnd (cn_nextJob c) body ts c2 = (Inr (), c3)" "cn_queues c3 (cn_nq c) = newJobQueue" "healthy c3"
    "cn_sent c3 = cn_sent c @ request_messages (cn_nextJob c) service meth target hs body ts"
proof -
  from newJob_sel [OF assms(2)] assms(1) obtain c1 where
    c1: "newJob c = (Inr (cn_nextJob c, cn_nq c), c1)" "cn_queues c1 (cn_nq c) = newJobQueue" "healthy c1" "cn_sent c1 = cn_sent c"
    by auto
  from send_sends [OF c1(3) assms(3)] obtain c2 where
    c2: "send (Request (cn_nextJob c) service meth target hs) c1 = (Inr (), c2)" "sends [Request (cn_nextJob c) service meth target hs] c1 c2"
    by auto
  from c2(2) have "healthy c2"
    by (simp add: sends_def)
  from sendBodyEnd_sends [OF this _ assms(4), of "cn_nextJob c" body] assms(3) obtain c3 where
    c3: "sendBodyEnd (cn_nextJob c) body ts c2 = (Inr (), c3)" "sends (body_messages (cn_nextJob c) body ts) c2 c3"
    by auto
  show thesis
    by (rule that [OF c1(1) c2(1) c3(1)]) (use c1 c2(2) c3(2) in \<open>simp_all add: sends_def request_messages_def\<close>)
qed

lemma dispatch_hop:
  assumes "healthy c" "healthy t" "cn_err t = None" "req = Request reqJob service meth target hs"
    and "ok_msg (Request (cn_nextJob t) service meth target hs)" "ok_headers ts"
    and "fits (whole_answer reqJob status rhs chunks rts)"
  shows "\<exists>c' t'. srv_dispatch req body ts ctx (with_pushes (whole_answer (cn_nextJob t) status rhs chunks rts)) c t = Some ((True, None), c', t') \<and>
    sends (whole_answer reqJob status rhs chunks rts) c c' \<and>
    cn_sent t' = cn_sent t @ request_messages (cn_nextJob t) service meth target hs body ts"
proof -
  from submit_hop [OF assms(2,3,5,6), of body] obtain t1 t2 t3 where
    t: "newJob t = (Inr (cn_nextJob t, cn_nq t), t1)" "send (Request (cn_nextJob t) service meth target hs) t1 = (Inr (), t2)"
      "sendBodyEnd (cn_nextJob t) body ts t2 = (Inr (), t3)" "cn_queues t3 (cn_nq t) = newJobQueue"
      "cn_sent t3 = cn_sent t @ request_messages (cn_nextJob t) service meth target hs body ts"
    by metis
  from relay_whole_answer [OF assms(1,7), of newJobQueue "whole_answer (cn_nextJob t) status rhs chunks rts" "cn_nextJob t" ctx t3]
  obtain c' where "answer_loop reqJob (cn_nextJob t) ctx False (with_pushes (whole_answer (cn_nextJob t) status rhs chunks rts)) newJobQueue c t3 =
      Some ((True, None), c', t3)" "sends (whole_answer reqJob status rhs chunks rts) c c'"
    by (auto simp: newJobQueue_def)
  with t assms(4) show ?thesis
    by (simp add: srv_dispatch_def)
qed

subsection \<open>The consumer's hop\<close>

lemma consume_hop:
  assumes "\<not> isUpgrade (hr_Header r)" "hr_Body r = Inr body" "healthy c" "cn_err c = None" "rw_script w = []"
    and "ok_msg (Request (cn_nextJob c) service (hr_Method r) (target_of r) (requestHeaders r (length body)))"
    and "ok_headers (fromHTTP (hr_Trailer r) [])"
  shows "\<exists>w' c'. consume err_text io_text ctx (with_pushes (whole_answer (cn_nextJob c) status hs chunks ts)) service r (Some c) w =
      Some ((False, w'), Some c') \<and>
    rw_calls w' = rw_calls w @ answer_shown status hs chunks ts \<and>
    cn_sent c' = cn_sent c @ request_messages (cn_nextJob c) service (hr_Method r) (target_of r)
      (requestHeaders r (length body)) body (fromHTTP (hr_Trailer r) [])"
proof -
  from submit_hop [OF assms(3,4,6,7), of body] obtain c1 c2 c3 where
    c: "newJob c = (Inr (cn_nextJob c, cn_nq c), c1)"
      "send (Request (cn_nextJob c) service (hr_Method r) (target_of r) (requestHeaders r (length body))) c1 = (Inr (), c2)"
      "sendBodyEnd (cn_nextJob c) body (fromHTTP (hr_Trailer r) []) c2 = (Inr (), c3)" "cn_queues c3 (cn_nq c) = newJobQueue"
      "cn_sent c3 = cn_sent c @ request_messages (cn_nextJob c) service (hr_Method r) (target_of r)
        (requestHeaders r (length body)) body (fromHTTP (hr_Trailer r) [])"
    by metis
  from show_whole_answer [OF assms(5), of newJobQueue "whole_answer (cn_nextJob c) status hs chunks ts" "cn_nextJob c" status hs chunks ts
      err_text "cn_nextJob c" ctx c3]
  obtain w' where "relayAnswer err_text (cn_nextJob c) ctx False (with_pushes (whole_answer (cn_nextJob c) status hs chunks ts)) newJobQueue w c3 =
      Some ((False, w'), c3)" "rw_calls w' = rw_calls w @ answer_shown status hs chunks ts"
    by (auto simp: newJobQueue_def)
  with c assms(1,2) show ?thesis
    by (simp add: consume_def)
qed

end
