(* ===== verification/Spec2Isabelle.thy ===== *)
theory Spec2Isabelle
  imports Pool_Theorems Slot_Race Joining Daemon Hops
begin

text \<open>
  HttpPooler pools HTTP services between trusted peers: one peer, the server, holds the queues; the
  others, its clients, dial it. Any peer can provide upstreams and consume services. This
  development models the program of \<^verbatim>\<open>github.com/henu/httppooler\<close> and proves what its parts
  promise each other.

  The parts, from the wire up, and the theories that model them:

  \<^item> Bytes. \<^verbatim>\<open>Prelude\<close> has the vocabulary: bytes, strings, words of a fixed width, \<open>io.Reader\<close> and
    \<open>io.Writer\<close> (a writer carries the outcomes of its writes in advance), UTF-8, the error monad
    \<open>op\<close>, and the interfaces \<open>transition_system\<close> (an invariant of every reachable state) and
    \<open>refining_system\<close> (every step is one of a smaller system, whose reachable states carry over). \<^verbatim>\<open>Go_Strings\<close> has what is used of Go's strings,
    strconv, hex, \<open>net.SplitHostPort\<close> and \<open>time.ParseDuration\<close>.
  \<^item> Messages. \<^verbatim>\<open>Wire_Message\<close> and \<^verbatim>\<open>Wire_Codec\<close> are \<^verbatim>\<open>internal/wire/message.go\<close>, \<^verbatim>\<open>encode.go\<close>
    and \<^verbatim>\<open>decode.go\<close>: the builder and the decoder with their first error. \<^verbatim>\<open>Wire_Laws\<close> states the
    contract of one field as the locale \<open>field_codec\<close> and interprets it for every field;
    \<^verbatim>\<open>Wire_Stream\<close> lifts it to messages and to streams of them with the HELLO order.
  \<^item> Encryption. \<^verbatim>\<open>Sha256\<close> and \<^verbatim>\<open>Noise\<close> are \<^verbatim>\<open>internal/noise\<close>: the handshake NNpsk0 and the cipher
    states; ChaCha20-Poly1305 and X25519 are a parameter, the record \<open>suite\<close>, with the
    laws \<open>aead_ok\<close> and \<open>dh_ok\<close>. \<^verbatim>\<open>Noise_Laws\<close> and \<^verbatim>\<open>Noise_Theorems\<close> prove agreement, one-time
    nonces and the order of the steps. \<^verbatim>\<open>Wire_Record\<close>, \<^verbatim>\<open>Wire_Record_Laws\<close> and
    \<^verbatim>\<open>Wire_Record_Theorems\<close> are \<^verbatim>\<open>internal/wire/wire.go\<close> and \<^verbatim>\<open>record.go\<close>: preamble, handshake over
    a connection and records; the locale \<open>byte_source\<close> says what a reader of bytes is, and a
    record reader refines the plaintext stream.
  \<^item> The pool. \<^verbatim>\<open>Pool\<close> is \<^verbatim>\<open>internal/pool/pool.go\<close>; pointers are addresses into stores. \<^verbatim>\<open>Pool_Laws\<close>
    has the invariant of the accounts, \<^verbatim>\<open>Pool_System\<close> the step relation of its critical sections
    (\<open>Acquire\<close> is several of them) and \<^verbatim>\<open>Pool_Theorems\<close> what holds in every reachable state.
  \<^item> Connections. \<^verbatim>\<open>Job_Queue\<close> is \<^verbatim>\<open>internal/peer/queue.go\<close> and \<^verbatim>\<open>job.go\<close>, \<^verbatim>\<open>Conn\<close> is \<^verbatim>\<open>conn.go\<close>:
    sending, jobs, failure and the read loop; \<^verbatim>\<open>Conn_System\<close> interleaves its critical sections and
    \<^verbatim>\<open>Conn_Theorems\<close> has the properties of jobs and queues. \<^verbatim>\<open>Conn_Over\<close> is \<open>newConn\<close> as it is used, over the
    reader and the writer of a session.
  \<^item> Answers. \<^verbatim>\<open>Answers\<close> has the form of the answer to one job, which is the contract between a provider, the
    server and a consumer, and what the loops of \<open>dispatch\<close> and \<open>relay\<close> make of it.
  \<^item> The server. \<^verbatim>\<open>Server\<close>, \<^verbatim>\<open>Server_Laws\<close> and \<^verbatim>\<open>Server_Theorems\<close> are what \<^verbatim>\<open>server.go\<close> does for one peer
    and one job; \<^verbatim>\<open>Server_System\<close> runs the sessions and the jobs of a server against its one pool,
    critical section by critical section; \<^verbatim>\<open>Server_Run\<close> is \<open>Run\<close>, \<open>accept\<close> and \<open>serveSelf\<close>.
  \<^item> The endpoint. \<^verbatim>\<open>Headers\<close> is \<^verbatim>\<open>headers.go\<close>; \<^verbatim>\<open>Endpoint\<close> and \<^verbatim>\<open>Endpoint_Theorems\<close> are \<^verbatim>\<open>endpoint.go\<close> and
    \<^verbatim>\<open>provide.go\<close>, \<^verbatim>\<open>Endpoint_Ports\<close> has the claims on \<open>Start\<close> and \<open>Close\<close>; \<^verbatim>\<open>Consume_Job\<close> and
    \<^verbatim>\<open>Consume_Theorems\<close> are \<^verbatim>\<open>consume.go\<close>.
  \<^item> The client. \<^verbatim>\<open>Client\<close> is \<^verbatim>\<open>client.go\<close>: dialling, the session, and the waits between sessions.
  \<^item> The conf. \<^verbatim>\<open>Conf\<close> is \<^verbatim>\<open>internal/conf\<close>; \<^verbatim>\<open>Conf_Laws\<close> carries \<open>outcome\<close>, a rule per combinator,
    through it; \<^verbatim>\<open>Conf_Print\<close> writes a conf, \<^verbatim>\<open>Conf_Theorems\<close> reads it back.
  \<^item> The process. \<^verbatim>\<open>Daemon\<close> is \<^verbatim>\<open>cmd/httppooler/main.go\<close>: the command line, the start of the role the conf
    names, the signals, and the exit status.
  \<^item> The whole. \<^verbatim>\<open>Joining\<close> lets a client's session meet the server's, from the dial to the pool;
    \<^verbatim>\<open>Slot_Race\<close> puts the pool's count of a slot beside the provider's; \<^verbatim>\<open>Hops\<close> follows a job over one
    connection at a time, and this theory composes the hops.

  How code becomes definitions. A struct is a record, a Go map a map or an association list, an
  error a value of a sum. An operation under a lock is one function of the state. Where goroutines
  share state and the interleaving matters (the pool, the server's sessions and jobs, a connection's jobs, an endpoint's slots), the
  critical sections are an inductive step relation, and the claims are about every state it
  reaches. A goroutine that waits for messages is a function of the events it waits for, in the order
  they come; its result is \<^const>\<open>None\<close> when they run out while it still waits. The network, the clock and
  the signals are such events too: which addresses can be listened on (\<open>net\<close>), what each dial and each accepted
  connection meets (\<open>turn\<close>, \<open>arrival\<close>), whether a sleep was interrupted (\<open>woke\<close>). In the theories
  of the roles a \<open>conn\<close> is therefore what one goroutine sees of a connection: the outcome of its
  writes, the messages it sent (\<open>cn_sent\<close>, a history) and its jobs. A job's two connections are
  two values; a peer that is served by itself has the same object for both, and then the messages of both
  roles are in one history.

  What the lemmas show. Of the pool: no slot is taken twice or lost, no job waits beside a free slot, jobs
  are served oldest first. Of the wire: what one side writes the other reads, through records and
  encryption, and nothing else is accepted. Of a connection: ids never repeat, messages reach
  their job, and failure reaches every job; \<open>newJob\<close>, \<open>endJob\<close>, \<open>fail\<close> and \<open>dispatch\<close> are functions made of their part
  under the lock and what they do after it, and the step relation is made of the same parts. Of an answer: a provider sends one in the form of the protocol, the server
  passes one on under the submitter's id however often it tries, and a consumer shows one or a single 502.
  Of a relayed job: every lease given back. Of a server: what is busy in its pool are the jobs under way, and what is offered there are the
  upstreams of the peers it serves. Of a client: it joins the pool of a server with its secret, takes all its
  ports or none, and dials until it is stopped. Of the provider and the consumer: an answer that is ended unless its reason
  cannot be sent, a failure that is reported once, headers that stay where they belong. Of the conf: what is accepted is well formed,
  what is refused names its line, and every conf can be written. Some theorems show the opposite of
  what the code means: \<open>register_refusal_leaks\<close>, \<open>dead_provider_spins\<close>, \<open>unsendable_reason_is_silent\<close>,
  \<open>turned_away_though_counted\<close>, \<open>failure_after_a_lone_body\<close> and the bound of 255 in \<open>conf_is_announced\<close>.

  Bounds and fuel. Only the loop of \<open>ParseDuration\<close> has fuel, one more than the length of its
  text; every turn takes a character off (\<open>duration_loop_fuel\<close>). All other loops are total functions
  with a measure. Job ids are words of 64 bits; that they do not repeat is proved for fewer than
  \<open>2\<^sup>6\<^sup>3\<close> jobs on a connection. Nonces are words of 64 bits and stop before they wrap.

  Not modelled: sockets and timers themselves, whose outcomes are the events above; the HTTP client and server
  of \<^verbatim>\<open>net/http\<close>, which appear as the upstream's answers, as the calls on a response and as a list of servers
  to close; the formatting of the log and the wording of error messages; the rounding of fractions in
  \<open>ParseDuration\<close>; the flags that print a help text beyond their exit status; the installation.
\<close>

section \<open>A job from end to end\<close>

text \<open>
  C1. A job crosses the pool unchanged. Take an application's request on a consumer, four healthy
  connections, a provider of the service with a free slot, and an upstream that answers the
  request it is asked; let the messages each side sends be what the other side's queue delivers.
  Then the consumer submits the request and its body; the server collects that body and submits the
  same request and body under an id of its own, holding one lease for as long as that takes; the provider answers with the upstream's status,
  headers, body and trailers and keeps its slot count; the server relays that answer under the consumer's id;
  and the application is shown that status, those headers, that body and those trailers, with nothing made up and its
  connection intact.
\<close>

theorem job_end_to_end:
  assumes "\<not> isUpgrade (hr_Header r)" "hr_Body r = Inr body" "rw_script w = []"
    and "healthy cc" "cn_err cc = None" "healthy cs" "healthy ct" "cn_err ct = None" "healthy cp"
    and j: "j = cn_nextJob cc" "j' = cn_nextJob ct" "j' \<noteq> 0"
    and parts: "hs = requestHeaders r (length body)" "ts = fromHTTP (hr_Trailer r) []"
    and ok: "ok_msg (Request j service (hr_Method r) (target_of r) hs)" "ok_headers ts"
    and slot: "ep_byName e service = Some p" "ep_running e service < int (unat (pv_MaxConcurrent p))"
    and up: "HasPrefix (target_of r) ''/''" "new_request (hr_Method r) (''http://'' @ pv_Upstream p @ target_of r) = None"
      "Do (upstream_request_of (Request j' service (hr_Method r) (target_of r) hs) p body) = Inr res"
      "100 \<le> ur_StatusCode res" "ur_StatusCode res \<le> 599" "read_chunks (ur_reads res) = Some chunks"
    and ans: "ans = (\<lambda>job. whole_answer job (of_int (ur_StatusCode res)) (fromHTTP (ur_Header res) []) chunks (fromHTTP (ur_Trailer res) []))"
      "fits (ans j)"
  shows "\<exists>w' q' cc' cs' ct' cp'.
    consume err_text io_text False (with_pushes (ans j)) service r (Some cc) w = Some ((False, w'), Some cc') \<and>
    cn_sent cc' = cn_sent cc @ Request j service (hr_Method r) (target_of r) hs # body_messages j body ts \<and>
    collect [] (with_pushes (body_messages j body ts)) newJobQueue = Some (Inr (body, ts), q', []) \<and>
    srv_dispatch (Request j service (hr_Method r) (target_of r) hs) body ts False (with_pushes (ans j')) cs ct =
      Some ((True, None), cs', ct') \<and>
    cn_sent ct' = cn_sent ct @ Request j' service (hr_Method r) (target_of r) hs # body_messages j' body ts \<and>
    provide err_text new_request Do cause (Request j' service (hr_Method r) (target_of r) hs)
      (with_pushes (body_messages j' body ts)) newJobQueue e cp = Some (e, cp') \<and>
    cn_sent cp' = cn_sent cp @ ans j' \<and> cn_sent cs' = cn_sent cs @ ans j \<and>
    rw_calls w' = rw_calls w @ answer_shown (of_int (ur_StatusCode res)) (fromHTTP (ur_Header res) []) chunks (fromHTTP (ur_Trailer res) []) \<and>
    relay acq_text err_text (Request j service (hr_Method r) (target_of r) hs) (with_pushes (body_messages j body ts)) newJobQueue
      [\<lparr>at_acquire = Inr l, at_target = Some ct, at_ctx = False, at_evs = with_pushes (ans j')\<rparr>] cs =
      ([CallAcquire False, CallRelease l], Some (endJob j cs'))"
proof -
  have ok': "ok_msg (Request j' service (hr_Method r) (target_of r) hs)" "fits (ans j')"
    using ok(1) ans(2) j(3) unfolding ans(1) by (auto simp: whole_answer_def fits_def list_all_iff)
  from consume_hop [OF assms(1,2,4,5,3), of service] ok parts j(1) obtain w' cc' where
    "consume err_text io_text False (with_pushes (ans j)) service r (Some cc) w = Some ((False, w'), Some cc')"
    "rw_calls w' = rw_calls w @ answer_shown (of_int (ur_StatusCode res)) (fromHTTP (ur_Header res) []) chunks (fromHTTP (ur_Trailer res) [])"
    "cn_sent cc' = cn_sent cc @ Request j service (hr_Method r) (target_of r) hs # body_messages j body ts"
    unfolding ans(1) by (simp add: request_messages_def) blast
  moreover from dispatch_hop [OF assms(6-8) refl, of service "hr_Method r" "target_of r" hs ts j] ok'(1) ok(2) ans j(2) obtain cs' ct' where
    dispatch: "srv_dispatch (Request j service (hr_Method r) (target_of r) hs) body ts False (with_pushes (ans j')) cs ct = Some ((True, None), cs', ct')"
    "cn_sent cs' = cn_sent cs @ ans j"
    "cn_sent ct' = cn_sent ct @ Request j' service (hr_Method r) (target_of r) hs # body_messages j' body ts"
    by (simp add: request_messages_def sends_def) blast
  moreover from collect_body_messages [of newJobQueue "body_messages j body ts" j body ts "[]" "[]"] obtain q' where
    collect: "collect [] (with_pushes (body_messages j body ts)) newJobQueue = Some (Inr (body, ts), q', [])"
    by (auto simp: newJobQueue_def)
  moreover from provide_hop [where Do = Do and new_request = new_request and body = body and c = cp and ts = ts and err_text = err_text and cause = cause,
      OF slot refl assms(9) up(1,2) up(3) up(4-6)] ok'(2) obtain c' where
    "provide err_text new_request Do cause (Request j' service (hr_Method r) (target_of r) hs)
      (with_pushes (body_messages j' body ts)) newJobQueue e cp = Some (e, endJob j' c')" "cn_sent c' = cn_sent cp @ ans j'"
    unfolding ans(1) sends_def by blast
  then have "\<exists>cp'. provide err_text new_request Do cause (Request j' service (hr_Method r) (target_of r) hs)
      (with_pushes (body_messages j' body ts)) newJobQueue e cp = Some (e, cp') \<and> cn_sent cp' = cn_sent cp @ ans j'"
    by (intro exI [of _ "endJob j' c'"]) simp
  moreover from dispatch collect
  have "relay acq_text err_text (Request j service (hr_Method r) (target_of r) hs) (with_pushes (body_messages j body ts)) newJobQueue
      [\<lparr>at_acquire = Inr l, at_target = Some ct, at_ctx = False, at_evs = with_pushes (ans j')\<rparr>] cs =
      ([CallAcquire False, CallRelease l], Some (endJob j cs'))"
    by (simp add: relay_def)
  ultimately show ?thesis
    by blast
qed

text \<open>A POST of two bytes, and an upstream that answers 200 with two bytes.\<close>

definition some_request :: http_request where
  "some_request = \<lparr>hr_Method = ''POST'', hr_RequestURI = ''/x'', hr_URL_RequestURI = [], hr_Header = close_headers,
     hr_Body = Inr [1, 2], hr_Trailer = []\<rparr>"

definition some_response :: upstream_response where
  "some_response = \<lparr>ur_StatusCode = 200, ur_Header = [(''Server'', [''up''])], ur_reads = [([3], None), ([4], Some EOF)], ur_Trailer = []\<rparr>"

lemma some_headers:
  "fromHTTP (ur_Header some_response) [] = [\<lparr>h_Name = ''Server'', h_Value = ''up''\<rparr>]" "fromHTTP (ur_Trailer some_response) [] = []"
  "fromHTTP [] [] = []" "CanonicalMIMEHeaderKey ''Server'' = ''Server''" "\<not> isUpgrade close_headers"
  "requestHeaders some_request 2 =
     [\<lparr>h_Name = ''Accept'', h_Value = ''a''\<rparr>, \<lparr>h_Name = ''Accept'', h_Value = ''b''\<rparr>, \<lparr>h_Name = ''Content-Length'', h_Value = ''2''\<rparr>]"
  by code_simp+

lemma some_fits:
  "ok_msg (Request 1 ''s'' ''POST'' ''/x'' (requestHeaders some_request 2))"
  "fits (whole_answer 1 200 (fromHTTP (ur_Header some_response) []) [[3], [4]] (fromHTTP (ur_Trailer some_response) []))"
proof -
  have "ValidString ''s''" by code_simp
  then show "ok_msg (Request 1 ''s'' ''POST'' ''/x'' (requestHeaders some_request 2))"
    by (simp add: some_headers ok_headers_def ok_header_def)
  show "fits (whole_answer 1 200 (fromHTTP (ur_Header some_response) []) [[3], [4]] (fromHTTP (ur_Trailer some_response) []))"
    by (simp add: some_headers whole_answer_fits ok_headers_def ok_header_def minStatus_def maxStatus_def)
qed

theorem job_end_to_end_witness:
  "\<exists>w' cc'. consume (\<lambda>_. []) (\<lambda>_. []) False (with_pushes (whole_answer 1 200 (fromHTTP (ur_Header some_response) []) [[3], [4]] []))
      ''s'' some_request (Some open_conn) blank_writer = Some ((False, w'), Some cc') \<and>
    rw_calls w' = [HeaderAdd ''Server'' ''up'', WriteHeader 200, Flush, WriteBytes [3], Flush, WriteBytes [4], Flush]"
proof -
  have shown: "answer_shown 200 (fromHTTP (ur_Header some_response) []) [[3], [4]] (fromHTTP (ur_Trailer some_response) []) =
      [HeaderAdd ''Server'' ''up'', WriteHeader 200, Flush, WriteBytes [3], Flush, WriteBytes [4], Flush]"
    by (simp add: some_headers answer_shown_def head_adds_def hopByHop_def)
  have ids: "cn_nextJob open_conn = 1" "cn_err open_conn = None" "cn_nextJob idle_conn = 2" "cn_err idle_conn = None" "healthy idle_conn"
    by (simp_all add: open_conn_def idle_conn_def newConn_def healthy_def NewEncoder_def)
  have ep: "ep_byName (NewEndpoint one_slot) ''s'' = Some \<lparr>pv_Service = ''s'', pv_Upstream = ''h:1'', pv_MaxConcurrent = 1, pv_Priority = 0\<rparr>"
    "ep_running (NewEndpoint one_slot) ''s'' = 0"
    by (simp_all add: NewEndpoint_def one_slot_def)
  have r: "hr_Header some_request = close_headers" "hr_Body some_request = Inr [1, 2]" "hr_Trailer some_request = []"
      "hr_Method some_request = ''POST''" "target_of some_request = ''/x''" "rw_script blank_writer = []" "rw_calls blank_writer = []"
      "ur_StatusCode some_response = 200" "read_chunks (ur_reads some_response) = Some [[3], [4]]" "length [1 :: byte, 2] = 2" "ok_headers []"
    by (simp_all add: some_request_def target_of_def blank_writer_def some_response_def ok_headers_def)
  show ?thesis
    using job_end_to_end [of some_request "[1, 2]" blank_writer open_conn idle_conn idle_conn open_conn 1 2
      "requestHeaders some_request 2" "[]" "''s''" "NewEndpoint one_slot" "\<lparr>pv_Service = ''s'', pv_Upstream = ''h:1'', pv_MaxConcurrent = 1, pv_Priority = 0\<rparr>"
      "\<lambda>_ _. None" "\<lambda>_. Inr some_response" some_response "[[3], [4]]"
      "\<lambda>job. whole_answer job 200 (fromHTTP (ur_Header some_response) []) [[3], [4]] (fromHTTP (ur_Trailer some_response) [])" "\<lambda>_. []" "\<lambda>_. []" None]
      some_fits ids ep open_conn_healthy some_headers(3,5)
    unfolding r by (simp add: HasPrefix_def r(11) shown [unfolded some_headers(2)] some_headers(2)) blast
qed

text \<open>
  C26. What the upstream is asked. The request that reaches the provider's upstream has the method,
  the target and the body of the application's request, goes to the upstream's address under its
  name, and has for every header name the application's values in their order: none for the headers
  that belong to the application's connection (the hop-by-hop ones and those its Connection header lists) and none for
  Content-Length, which is the length of the body.
\<close>

theorem upstream_sees_the_request:
  assumes "header_map (hr_Header r)" "hr_Body r = Inr body"
  shows "let u = upstream_request_of (Request job service (hr_Method r) (target_of r) (requestHeaders r (length body))) p body
    in uq_Method u = hr_Method r \<and> uq_URL u = ''http://'' @ pv_Upstream p @ target_of r \<and> uq_Host u = pv_Upstream p \<and>
       uq_Body u = body \<and> uq_ContentLength u = length body \<and>
       hget (uq_Header u) n = (if n \<in> set hopByHop \<or> n \<in> set (connectionHeaders (hr_Header r)) \<or> n = ''Content-Length''
         then [] else hget (hr_Header r) n)"
proof -
  let ?cl = "[\<lparr>h_Name = ''Content-Length'', h_Value = Itoa (length body)\<rparr>]"
  have canon: "CanonicalMIMEHeaderKey ''Content-Length'' = ''Content-Length''"
    by code_simp
  have "hget (toHTTP (fromHTTP (hr_Header r) [''Content-Length''] @ xs) [''Content-Length'']) n =
      hget (toHTTP (fromHTTP (hr_Header r) [''Content-Length'']) [''Content-Length'']) n" if "xs = [] \<or> xs = ?cl" for xs
    using that by (auto simp: hget_toHTTP canon)
  then have "hget (toHTTP (requestHeaders r (length body)) [''Content-Length'']) n =
      (if stays (hr_Header r) [''Content-Length''] n \<or> n = ''Content-Length'' then [] else hget (hr_Header r) n)"
    using hget_to_from [OF assms(1), of "[''Content-Length'']" "[''Content-Length'']" n] by (simp add: requestHeaders_def canon)
  moreover have "hget (AList.update ''User-Agent'' [] h) n = hget h n" if "map_of h ''User-Agent'' = None" for h
    using that by (simp add: hget_def [of h])
  ultimately show ?thesis
    by (auto simp: upstream_request_of_def Let_def stays_def canon)
qed

theorem upstream_sees_the_request_witness:
  "hget (uq_Header (upstream_request_of (Request 2 ''s'' ''POST'' ''/x'' (requestHeaders some_request 2))
     \<lparr>pv_Service = ''s'', pv_Upstream = ''h:1'', pv_MaxConcurrent = 1, pv_Priority = 0\<rparr> [1, 2])) ''Accept'' = [''a'', ''b'']"
proof -
  have "connectionHeaders close_headers = [''Close'', ''X-Trace'']" by code_simp
  moreover have "header_map (hr_Header some_request)" "hr_Body some_request = Inr [1, 2]" "target_of some_request = ''/x''"
      "hr_Method some_request = ''POST''" "hr_Header some_request = close_headers"
    by (simp_all add: some_request_def close_headers_map target_of_def)
  moreover have "hget close_headers ''Accept'' = [''a'', ''b'']" by code_simp
  ultimately show ?thesis
    using upstream_sees_the_request [of some_request "[1, 2]" 2 "''s''" "\<lparr>pv_Service = ''s'', pv_Upstream = ''h:1'', pv_MaxConcurrent = 1, pv_Priority = 0\<rparr>" "''Accept''"]
    by (simp add: Let_def hopByHop_def numeral_2_eq_2)
qed

end
